(* ===== verification/Evm_Prelude.thy ===== *)
theory Evm_Prelude
  imports Main "HOL-Library.Word" "HOL-Library.Sublist" "HOL-Library.Multiset"
begin

text \<open>
  Shared vocabulary of the development: the machine types of the recorder, the parts of Rust's
  standard library that the sources use on strings, numbers and byte buffers
  (\<open>str::split\<close>, \<open>trim\<close>, \<open>parse\<close>, \<open>format!\<close>, \<open>iter().find_map\<close>,
  \<open>rposition\<close>, \<open>min_by_key\<close>), and the generic lemmas on lists, options and numerals the
  component theories rest on.

  Strings are lists of UTF-8 bytes (\<open>char\<close> is a byte), so \<open>length\<close> is Rust's
  \<open>str::len\<close>. A \<open>usize\<close> that is an index or a length is a \<open>nat\<close>; an \<open>i32\<close> is an
  \<open>int\<close> with its wrap-around written out (\<open>wrap_i32\<close>); a \<open>u64\<close> slot number is a
  \<open>nat\<close> with \<open>u64_add\<close> for the wrapping addition; EVM words are \<open>256 word\<close>.
  Arithmetic follows the release profile (wrap-around), the one the crate is shipped with.
\<close>

section \<open>Collections of facts\<close>

named_theorems tracker_simps \<open>size facts about the per-depth tracker vectors\<close>
named_theorems str_eval \<open>rules that evaluate string predicates on literals\<close>
named_theorems depth_simps \<open>how each operation moves a call depth\<close>

section \<open>Machine types\<close>

type_synonym byte = "8 word"
type_synonym u64 = "64 word"
type_synonym u256 = "256 word"
type_synonym address = "160 word"

definition u64_max :: nat where
  "u64_max = 2 ^ 64 - 1"

text \<open>Wrapping and saturating addition on \<open>u64\<close> values kept as \<open>nat\<close>.\<close>

definition u64_add :: "nat \<Rightarrow> nat \<Rightarrow> nat" where
  "u64_add a b = (a + b) mod 2 ^ 64"

definition u64_saturating_add :: "nat \<Rightarrow> nat \<Rightarrow> nat" where
  "u64_saturating_add a b = min (a + b) u64_max"

lemma u64_add_exact: "a + b < 2 ^ 64 \<Longrightarrow> u64_add a b = a + b"
  by (simp add: u64_add_def)

lemma u64_saturating_add_exact: "a + b < 2 ^ 64 \<Longrightarrow> u64_saturating_add a b = a + b"
  by (simp add: u64_saturating_add_def u64_max_def)

text \<open>The value an \<open>i32\<close> register holds after an operation with mathematical result \<open>x\<close>.\<close>

definition wrap_i32 :: "int \<Rightarrow> int" where
  "wrap_i32 x = (x + 2 ^ 31) mod 2 ^ 32 - 2 ^ 31"

definition i32_range :: "int \<Rightarrow> bool" where
  "i32_range x \<longleftrightarrow> - (2 ^ 31) \<le> x \<and> x < 2 ^ 31"

lemma wrap_i32_id: "i32_range x \<Longrightarrow> wrap_i32 x = x"
  by (simp add: wrap_i32_def i32_range_def)

lemma wrap_i32_range: "i32_range (wrap_i32 x)"
proof -
  have "0 \<le> (x + 2 ^ 31) mod 2 ^ 32" "(x + 2 ^ 31) mod 2 ^ 32 < (2 ^ 32 :: int)" by simp_all
  then show ?thesis by (simp add: wrap_i32_def i32_range_def)
qed

text \<open>The cast \<open>x as usize\<close> of an \<open>i32\<close>: sign extension to 64 bits.\<close>

definition usize_of_i32 :: "int \<Rightarrow> nat" where
  "usize_of_i32 x = (if x < 0 then nat (2 ^ 64 + x) else nat x)"

section \<open>Vectors and iterators\<close>

text \<open>\<open>Vec::get\<close>: indexing that answers \<open>None\<close> out of range.\<close>

definition vec_get :: "'a list \<Rightarrow> nat \<Rightarrow> 'a option" where
  "vec_get xs i = (if i < length xs then Some (xs ! i) else None)"

lemma vec_get_Some [simp]: "vec_get xs i = Some x \<longleftrightarrow> i < length xs \<and> xs ! i = x"
  by (auto simp: vec_get_def)

lemma vec_get_None [simp]: "vec_get xs i = None \<longleftrightarrow> length xs \<le> i"
  by (auto simp: vec_get_def)

lemma vec_get_Nil [simp]: "vec_get [] i = None"
  by (simp add: vec_get_def)

text \<open>\<open>Iterator::find_map\<close>.\<close>

fun find_map :: "('a \<Rightarrow> 'b option) \<Rightarrow> 'a list \<Rightarrow> 'b option" where
  "find_map f [] = None"
| "find_map f (x # xs) = (case f x of Some y \<Rightarrow> Some y | None \<Rightarrow> find_map f xs)"

lemma find_map_SomeD: "find_map f xs = Some y \<Longrightarrow> \<exists>x\<in>set xs. f x = Some y"
  by (induction xs) (auto split: option.splits)

lemma find_map_None: "find_map f xs = None \<longleftrightarrow> (\<forall>x\<in>set xs. f x = None)"
  by (induction xs) (auto split: option.splits)

lemma find_map_append:
  "find_map f (xs @ ys) = (case find_map f xs of Some y \<Rightarrow> Some y | None \<Rightarrow> find_map f ys)"
  by (induction xs) (simp_all split: option.split)

lemma find_map_split:
  assumes "find_map f xs = Some y"
  shows "\<exists>us x vs. xs = us @ x # vs \<and> f x = Some y \<and> (\<forall>u\<in>set us. f u = None)"
  using assms
proof (induction xs)
  case Nil
  then show ?case by simp
next
  case (Cons a xs)
  show ?case
  proof (cases "f a")
    case (Some b)
    with Cons.prems have "a # xs = [] @ a # xs \<and> f a = Some y \<and> (\<forall>u\<in>set []. f u = None)" by simp
    then show ?thesis by blast
  next
    case None
    with Cons obtain us x vs where "xs = us @ x # vs" "f x = Some y" "\<forall>u\<in>set us. f u = None"
      by auto
    with None have "a # xs = (a # us) @ x # vs \<and> f x = Some y \<and> (\<forall>u\<in>set (a # us). f u = None)"
      by simp
    then show ?thesis by blast
  qed
qed

text \<open>\<open>Iterator::rposition\<close>: the last index at which the predicate holds.\<close>

fun rposition :: "('a \<Rightarrow> bool) \<Rightarrow> 'a list \<Rightarrow> nat option" where
  "rposition p [] = None"
| "rposition p (x # xs) =
     (case rposition p xs of Some i \<Rightarrow> Some (Suc i) | None \<Rightarrow> if p x then Some 0 else None)"

lemma rposition_None: "rposition p xs = None \<longleftrightarrow> (\<forall>x\<in>set xs. \<not> p x)"
  by (induction xs) (auto split: option.splits)

lemma rposition_SomeD:
  "rposition p xs = Some i \<Longrightarrow> i < length xs \<and> p (xs ! i) \<and>
     (\<forall>j. i < j \<longrightarrow> j < length xs \<longrightarrow> \<not> p (xs ! j))"
proof (induction xs arbitrary: i)
  case Nil
  then show ?case by simp
next
  case (Cons x xs)
  show ?case
  proof (cases "rposition p xs")
    case None
    then have "\<forall>k<length xs. \<not> p (xs ! k)" by (simp add: rposition_None all_set_conv_all_nth)
    with None Cons.prems show ?thesis by (auto split: if_splits simp: nth_Cons')
  next
    case (Some k)
    with Cons.prems have "i = Suc k" by simp
    with Cons.IH [OF Some] show ?thesis by (auto simp: nth_Cons')
  qed
qed

lemma rposition_eqI:
  assumes "i < length xs" "p (xs ! i)" "\<And>j. i < j \<Longrightarrow> j < length xs \<Longrightarrow> \<not> p (xs ! j)"
  shows "rposition p xs = Some i"
proof (cases "rposition p xs")
  case None
  with assms(1,2) show ?thesis by (metis nth_mem rposition_None)
next
  case (Some k)
  from rposition_SomeD [OF Some] assms have "k = i" by (metis linorder_neqE_nat)
  with Some show ?thesis by simp
qed

text \<open>\<open>Iterator::min_by_key\<close>: the first of the elements with the least key.\<close>

fun min_by_key :: "('a \<Rightarrow> int) \<Rightarrow> 'a list \<Rightarrow> 'a option" where
  "min_by_key k [] = None"
| "min_by_key k (x # xs) =
     (case min_by_key k xs of None \<Rightarrow> Some x | Some y \<Rightarrow> if k x \<le> k y then Some x else Some y)"

lemma min_by_key_None [simp]: "min_by_key k xs = None \<longleftrightarrow> xs = []"
  by (cases xs) (auto split: option.splits)

lemma min_by_key_Some:
  "min_by_key k xs = Some y \<Longrightarrow> y \<in> set xs \<and> (\<forall>x\<in>set xs. k y \<le> k x)"
proof (induction xs arbitrary: y)
  case Nil
  then show ?case by simp
next
  case (Cons a xs)
  show ?case
  proof (cases "min_by_key k xs")
    case None
    with Cons.prems show ?thesis by auto
  next
    case (Some z)
    with Cons.IH have "z \<in> set xs \<and> (\<forall>x\<in>set xs. k z \<le> k x)" by simp
    with Cons.prems Some show ?thesis by (auto split: if_splits dest: order_trans)
  qed
qed

text \<open>\<open>Iterator::find\<close>.\<close>

lemma find_SomeD: "List.find P xs = Some x \<Longrightarrow> x \<in> set xs \<and> P x"
  by (induction xs) (auto split: if_splits)

lemma find_member: "x \<in> set xs \<Longrightarrow> P x \<Longrightarrow> \<exists>y. List.find P xs = Some y"
  by (induction xs) auto

lemma find_unique:
  assumes "x \<in> set xs" "P x" "\<And>y. y \<in> set xs \<Longrightarrow> P y \<Longrightarrow> y = x"
  shows "List.find P xs = Some x"
proof -
  obtain y where y: "List.find P xs = Some y" using find_member [where P = P, OF assms(1,2)] by blast
  from find_SomeD [OF y] assms(3) have "y = x" by blast
  with y show ?thesis by simp
qed

lemma unat_u64_less: "unat (w :: u64) < 2 ^ 64"
  using unsigned_less [of w] by simp

lemma find_first:
  "(\<And>u. u \<in> set us \<Longrightarrow> \<not> P u) \<Longrightarrow> P x \<Longrightarrow> List.find P (us @ x # vs) = Some x"
  by (induction us) auto

end
