(* ===== verification/Rust_Text.thy ===== *)
theory Rust_Text
  imports Evm_Prelude
begin

text \<open>
  The text and byte operations of Rust's standard library that the recorder uses: prefix and
  suffix tests, \<open>split\<close>, \<open>trim\<close>, \<open>join\<close>, decimal and hexadecimal formatting
  (\<open>{}\<close>, \<open>{:x}\<close>, \<open>{:02x}\<close>), \<open>str::parse\<close> for the integer types, and big-endian byte
  conversion. \<open>trim\<close> knows the ASCII white space only: the strings it is applied to
  (Solidity type names, environment values) are ASCII.
\<close>

section \<open>Prefixes, suffixes, splitting\<close>

definition starts_with :: "string \<Rightarrow> string \<Rightarrow> bool" where
  "starts_with s p \<longleftrightarrow> take (length p) s = p"

definition ends_with :: "string \<Rightarrow> string \<Rightarrow> bool" where
  "ends_with s p \<longleftrightarrow> length p \<le> length s \<and> drop (length s - length p) s = p"

fun str_contains :: "string \<Rightarrow> string \<Rightarrow> bool" where
  "str_contains [] p = (p = [])"
| "str_contains (c # s) p = (starts_with (c # s) p \<or> str_contains s p)"

definition strip_prefix :: "string \<Rightarrow> string \<Rightarrow> string option" where
  "strip_prefix s p = (if starts_with s p then Some (drop (length p) s) else None)"

lemma starts_with_append [simp]: "starts_with (p @ s) p"
  by (simp add: starts_with_def)

lemma starts_with_iff: "starts_with s p \<longleftrightarrow> (\<exists>r. s = p @ r)"
  by (metis append_eq_conv_conj append_take_drop_id starts_with_def)

lemma strip_prefix_append [simp]: "strip_prefix (p @ s) p = Some s"
  by (simp add: strip_prefix_def)

lemma strip_prefix_Some: "strip_prefix s p = Some r \<longleftrightarrow> s = p @ r"
  by (auto simp: strip_prefix_def starts_with_iff)

lemma ends_with_append [simp]: "ends_with (s @ p) p"
  by (simp add: ends_with_def)

lemma str_contains_append: "str_contains (u @ p @ v) p"
proof (induction u)
  case Nil
  have "starts_with (p @ v) p" by simp
  then show ?case by (cases "p @ v") (auto simp: starts_with_def)
next
  case (Cons c u)
  then show ?case by simp
qed

text \<open>\<open>str::split\<close> on one character: always at least one piece.\<close>

fun split_on :: "char \<Rightarrow> string \<Rightarrow> string list" where
  "split_on d [] = [ [] ]"
| "split_on d (c # s) =
     (if c = d then [] # split_on d s
      else (case split_on d s of [] \<Rightarrow> [ [c] ] | p # ps \<Rightarrow> (c # p) # ps))"

fun join_with :: "string \<Rightarrow> string list \<Rightarrow> string" where
  "join_with sep [] = []"
| "join_with sep [x] = x"
| "join_with sep (x # y # xs) = x @ sep @ join_with sep (y # xs)"

lemma split_on_not_Nil [simp]: "split_on d s \<noteq> []"
  by (induction s) (auto split: list.split)

lemma length_split_on: "length (split_on d s) = Suc (count_list s d)"
  by (induction s) (auto split: list.splits)

lemma split_on_no_sep: "d \<notin> set s \<Longrightarrow> split_on d s = [s]"
  by (induction s) auto

lemma split_on_append: "d \<notin> set s \<Longrightarrow> split_on d (s @ d # t) = s # split_on d t"
  by (induction s) auto

lemma join_with_Cons: "xs \<noteq> [] \<Longrightarrow> join_with sep (x # xs) = x @ sep @ join_with sep xs"
  by (cases xs) simp_all

lemma split_on_join:
  "xs \<noteq> [] \<Longrightarrow> \<forall>x\<in>set xs. d \<notin> set x \<Longrightarrow> split_on d (join_with [d] xs) = xs"
proof (induction xs)
  case Nil
  then show ?case by simp
next
  case (Cons x xs)
  show ?case
  proof (cases "xs = []")
    case True
    with Cons.prems show ?thesis by (simp add: split_on_no_sep)
  next
    case False
    with Cons show ?thesis by (simp add: join_with_Cons split_on_append)
  qed
qed

definition is_ws :: "char \<Rightarrow> bool" where
  "is_ws c \<longleftrightarrow> (let n = (of_char c :: nat) in n = 32 \<or> (9 \<le> n \<and> n \<le> 13))"

definition trim_start :: "string \<Rightarrow> string" where
  "trim_start s = dropWhile is_ws s"

definition trim :: "string \<Rightarrow> string" where
  "trim s = rev (dropWhile is_ws (rev (trim_start s)))"

lemma dropWhile_no_ws: "\<forall>c\<in>set s. \<not> P c \<Longrightarrow> dropWhile P s = s"
  by (cases s) auto

lemma trim_no_ws: "\<forall>c\<in>set s. \<not> is_ws c \<Longrightarrow> trim s = s"
  by (simp add: trim_def trim_start_def dropWhile_no_ws)

section \<open>Decimal and hexadecimal text\<close>

definition digit_char :: "nat \<Rightarrow> char" where
  "digit_char d = char_of (48 + d)"

definition digit_val :: "char \<Rightarrow> nat option" where
  "digit_val c = (let n = (of_char c :: nat) in if 48 \<le> n \<and> n \<le> 57 then Some (n - 48) else None)"

lemma digit_val_digit_char [simp]: "d < 10 \<Longrightarrow> digit_val (digit_char d) = Some d"
  by (simp add: digit_val_def digit_char_def)

fun show_nat :: "nat \<Rightarrow> string" where
  "show_nat n = (if n < 10 then [digit_char n] else show_nat (n div 10) @ [digit_char (n mod 10)])"

declare show_nat.simps [simp del]

definition show_int :: "int \<Rightarrow> string" where
  "show_int i = (if i < 0 then CHR ''-'' # show_nat (nat (- i)) else show_nat (nat i))"

fun parse_dec :: "nat \<Rightarrow> string \<Rightarrow> nat option" where
  "parse_dec acc [] = Some acc"
| "parse_dec acc (c # s) =
     (case digit_val c of None \<Rightarrow> None | Some d \<Rightarrow> parse_dec (10 * acc + d) s)"

text \<open>
  \<open>str::parse\<close> for an unsigned type with \<open>bound\<close> values: an optional \<open>+\<close>, at least one digit,
  nothing else, and no overflow.
\<close>

definition parse_unsigned :: "nat \<Rightarrow> string \<Rightarrow> nat option" where
  "parse_unsigned bound s =
     (let t = (case s of [] \<Rightarrow> [] | c # r \<Rightarrow> if c = CHR ''+'' then r else s)
      in if t = [] then None
         else (case parse_dec 0 t of None \<Rightarrow> None | Some n \<Rightarrow> if n < bound then Some n else None))"

definition parse_u64 :: "string \<Rightarrow> nat option" where
  "parse_u64 = parse_unsigned (2 ^ 64)"

definition parse_u32 :: "string \<Rightarrow> nat option" where
  "parse_u32 = parse_unsigned (2 ^ 32)"

definition parse_u8 :: "string \<Rightarrow> nat option" where
  "parse_u8 = parse_unsigned 256"

definition parse_i32 :: "string \<Rightarrow> int option" where
  "parse_i32 s =
     (case s of [] \<Rightarrow> None
      | c # r \<Rightarrow>
          (if c = CHR ''-'' then
             (if r = [] then None
              else (case parse_dec 0 r of None \<Rightarrow> None
                    | Some n \<Rightarrow> if n \<le> 2 ^ 31 then Some (- int n) else None))
           else map_option int (parse_unsigned (2 ^ 31) s)))"

lemma parse_dec_append:
  "parse_dec a (xs @ ys) = (case parse_dec a xs of None \<Rightarrow> None | Some b \<Rightarrow> parse_dec b ys)"
  by (induction xs arbitrary: a) (simp_all split: option.split)

lemma show_nat_not_Nil [simp]: "show_nat n \<noteq> []"
  by (subst show_nat.simps) simp

lemma parse_dec_show_nat: "parse_dec 0 (show_nat n) = Some n"
proof (induction n rule: show_nat.induct)
  case (1 n)
  show ?case
  proof (cases "n < 10")
    case True
    then show ?thesis by (simp add: show_nat.simps [of n])
  next
    case False
    with 1 have "parse_dec 0 (show_nat n) = parse_dec (n div 10) [digit_char (n mod 10)]"
      by (simp add: show_nat.simps [of n] parse_dec_append)
    then show ?thesis by simp
  qed
qed

lemma digit_chars_show_nat: "c \<in> set (show_nat n) \<Longrightarrow> digit_val c \<noteq> None"
proof (induction n rule: show_nat.induct)
  case (1 n)
  show ?case
  proof (cases "n < 10")
    case True
    with "1.prems" show ?thesis by (simp add: show_nat.simps [of n])
  next
    case False
    with "1.prems" have "c \<in> set (show_nat (n div 10)) \<or> c = digit_char (n mod 10)"
      by (auto simp: show_nat.simps [of n])
    with False "1.IH" show ?thesis by auto
  qed
qed

lemma show_nat_avoids: "digit_val c = None \<Longrightarrow> c \<notin> set (show_nat n)"
  using digit_chars_show_nat [of c n] by auto

lemma show_nat_Cons: "\<exists>c r. show_nat n = c # r \<and> digit_val c \<noteq> None"
proof -
  obtain c r where "show_nat n = c # r" by (cases "show_nat n") auto
  with digit_chars_show_nat [of c n] show ?thesis by auto
qed

lemma parse_unsigned_show_nat: "n < b \<Longrightarrow> parse_unsigned b (show_nat n) = Some n"
proof -
  assume "n < b"
  obtain c r where cr: "show_nat n = c # r" "digit_val c \<noteq> None" using show_nat_Cons by blast
  then have "c \<noteq> CHR ''+''" by (auto simp: digit_val_def)
  with cr \<open>n < b\<close> show ?thesis
    by (simp add: parse_unsigned_def parse_dec_show_nat [of n, unfolded cr, simplified])
qed

lemma parse_unsigned_overflow: "b \<le> n \<Longrightarrow> parse_unsigned b (show_nat n) = None"
proof -
  assume "b \<le> n"
  obtain c r where cr: "show_nat n = c # r" "digit_val c \<noteq> None" using show_nat_Cons by blast
  then have "c \<noteq> CHR ''+''" by (auto simp: digit_val_def)
  with cr \<open>b \<le> n\<close> show ?thesis
    by (simp add: parse_unsigned_def parse_dec_show_nat [of n, unfolded cr, simplified])
qed

lemma parse_u64_show_nat: "parse_u64 (show_nat n) = (if n < 2 ^ 64 then Some n else None)"
  by (simp add: parse_u64_def parse_unsigned_show_nat parse_unsigned_overflow)

lemma parse_unsigned_bound: "parse_unsigned b s = Some n \<Longrightarrow> n < b"
  by (auto simp: parse_unsigned_def Let_def split: if_splits option.splits)

lemma parse_u64_bound: "parse_u64 s = Some n \<Longrightarrow> n < 2 ^ 64"
  unfolding parse_u64_def by (rule parse_unsigned_bound)

lemma parse_i32_show_int: "i32_range i \<Longrightarrow> parse_i32 (show_int i) = Some i"
proof (cases "i < 0")
  case True
  assume "i32_range i"
  with True show ?thesis
    by (simp add: parse_i32_def show_int_def parse_dec_show_nat i32_range_def)
next
  case False
  assume r: "i32_range i"
  obtain c s where cs: "show_nat (nat i) = c # s" "digit_val c \<noteq> None" using show_nat_Cons by blast
  then have "c \<noteq> CHR ''-''" by (auto simp: digit_val_def)
  with cs False r show ?thesis
    using parse_unsigned_show_nat [of "nat i" "2 ^ 31"]
    by (simp add: parse_i32_def show_int_def i32_range_def)
qed

lemma parse_i32_range: "parse_i32 s = Some i \<Longrightarrow> i32_range i"
  by (auto simp: parse_i32_def i32_range_def split: list.splits if_splits option.splits
      dest!: parse_unsigned_bound)

lemma show_int_avoids: "digit_val c = None \<Longrightarrow> c \<noteq> CHR ''-'' \<Longrightarrow> c \<notin> set (show_int i)"
  by (auto simp: show_int_def show_nat_avoids)

definition hex_digit :: "nat \<Rightarrow> char" where
  "hex_digit d = (if d < 10 then char_of (48 + d) else char_of (87 + d))"

definition hex_val :: "char \<Rightarrow> nat option" where
  "hex_val c = (let n = (of_char c :: nat) in
     if 48 \<le> n \<and> n \<le> 57 then Some (n - 48)
     else if 97 \<le> n \<and> n \<le> 102 then Some (n - 87)
     else if 65 \<le> n \<and> n \<le> 70 then Some (n - 55) else None)"

lemma hex_val_hex_digit [simp]: "d < 16 \<Longrightarrow> hex_val (hex_digit d) = Some d"
  by (simp add: hex_val_def hex_digit_def)

text \<open>\<open>{:x}\<close> on a number, \<open>{:02x}\<close> on a byte and \<open>hex::encode\<close> on a buffer.\<close>

fun lower_hex :: "nat \<Rightarrow> string" where
  "lower_hex n = (if n < 16 then [hex_digit n] else lower_hex (n div 16) @ [hex_digit (n mod 16)])"

declare lower_hex.simps [simp del]

definition hex_byte :: "byte \<Rightarrow> string" where
  "hex_byte b = [hex_digit (unat b div 16), hex_digit (unat b mod 16)]"

definition hex_encode :: "byte list \<Rightarrow> string" where
  "hex_encode bs = concat (map hex_byte bs)"

text \<open>\<open>u8::from_str_radix(s, 16)\<close>.\<close>

fun parse_hex_acc :: "nat \<Rightarrow> string \<Rightarrow> nat option" where
  "parse_hex_acc acc [] = Some acc"
| "parse_hex_acc acc (c # s) =
     (case hex_val c of None \<Rightarrow> None | Some d \<Rightarrow> parse_hex_acc (16 * acc + d) s)"

definition parse_hex_u8 :: "string \<Rightarrow> byte option" where
  "parse_hex_u8 s =
     (let t = (case s of [] \<Rightarrow> [] | c # r \<Rightarrow> if c = CHR ''+'' then r else s)
      in if t = [] then None
         else (case parse_hex_acc 0 t of None \<Rightarrow> None
               | Some n \<Rightarrow> if n < 256 then Some (word_of_nat n) else None))"

lemma unat_byte_less [simp]: "unat (b :: byte) < 256"
  using unsigned_less [of b] by simp

lemma parse_hex_u8_hex_byte: "parse_hex_u8 (hex_byte b) = Some b"
proof -
  have d: "unat b div 16 < 16" using unat_byte_less [of b] by linarith
  then have "hex_digit (unat b div 16) \<noteq> CHR ''+''" using hex_val_hex_digit [OF d]
    by (auto simp: hex_val_def)
  with d show ?thesis by (simp add: parse_hex_u8_def hex_byte_def)
qed

lemma length_hex_encode [simp]: "length (hex_encode bs) = 2 * length bs"
  by (induction bs) (simp_all add: hex_encode_def hex_byte_def)

text \<open>Hexadecimal text read back as a number: what was printed, in lower case digits.\<close>

definition hex_reads :: "string \<Rightarrow> nat \<Rightarrow> bool" where
  "hex_reads s n \<longleftrightarrow> set s \<subseteq> set ''0123456789abcdef'' \<and> parse_hex_acc 0 s = Some n"

lemma parse_hex_acc_snoc:
  "parse_hex_acc a s = Some n \<Longrightarrow> d < 16 \<Longrightarrow> parse_hex_acc a (s @ [hex_digit d]) = Some (16 * n + d)"
  by (induction s arbitrary: a) (auto split: option.splits)

lemma parse_hex_acc_None: "parse_hex_acc a s = None \<Longrightarrow> parse_hex_acc a (s @ t) = None"
  by (induction s arbitrary: a) (auto split: option.splits)

lemma hex_digit_lower:
  assumes "d < 16"
  shows "hex_digit d \<in> set ''0123456789abcdef''"
proof -
  have "\<forall>d\<in>set [0..<16]. hex_digit d \<in> set ''0123456789abcdef''" by code_simp
  with assms show ?thesis by simp
qed

lemma hex_reads_Nil: "hex_reads [] 0"
  by (simp add: hex_reads_def)

lemma hex_reads_snoc:
  assumes "hex_reads s n" "d < 16"
  shows "hex_reads (s @ [hex_digit d]) (16 * n + d)"
  using assms hex_digit_lower [OF assms(2)] parse_hex_acc_snoc [of 0 s n d]
  by (simp add: hex_reads_def)

lemma hex_reads_lower_hex: "hex_reads (lower_hex n) n"
proof (induction n rule: lower_hex.induct)
  case (1 n)
  show ?case
  proof (cases "n < 16")
    case True
    then show ?thesis using hex_reads_snoc [OF hex_reads_Nil True] by (simp add: lower_hex.simps [of n])
  next
    case False
    then show ?thesis using hex_reads_snoc [OF 1 [OF False], of "n mod 16"]
      by (simp add: lower_hex.simps [of n])
  qed
qed

definition no_leading_zero :: "string \<Rightarrow> bool" where
  "no_leading_zero s \<longleftrightarrow> s = ''0'' \<or> s \<noteq> [] \<and> hd s \<noteq> CHR ''0''"

lemma lower_hex_canonical: "no_leading_zero (lower_hex n)"
proof (induction n rule: lower_hex.induct)
  case (1 n)
  have small: "\<forall>d\<in>set [0..<16]. hex_digit d \<noteq> CHR ''0'' \<or> d = 0" and z: "hex_digit 0 = CHR ''0''" by code_simp+
  show ?case
  proof (cases "n < 16")
    case True
    with small z show ?thesis by (auto simp: no_leading_zero_def lower_hex.simps [of n])
  next
    case False
    have "lower_hex (n div 16) \<noteq> ''0''"
    proof
      assume "lower_hex (n div 16) = ''0''"
      moreover have "parse_hex_acc 0 ''0'' = Some 0" by code_simp
      ultimately have "n div 16 = 0" using hex_reads_lower_hex [of "n div 16"] by (simp add: hex_reads_def)
      with False show False by simp
    qed
    then show ?thesis using 1 [OF False] False by (simp add: no_leading_zero_def lower_hex.simps [of n])
  qed
qed

lemma hex_val_lower:
  assumes "c \<in> set ''0123456789abcdef''"
  obtains d where "d < 16" "c = hex_digit d"
proof -
  have "list_all (\<lambda>c. the (hex_val c) < 16 \<and> c = hex_digit (the (hex_val c))) ''0123456789abcdef''"
    by code_simp
  with assms have "the (hex_val c) < 16 \<and> c = hex_digit (the (hex_val c))" unfolding list_all_iff by (rule bspec [rotated])
  with that show thesis by blast
qed

lemma canonical_digits: "hex_reads s n \<Longrightarrow> no_leading_zero s \<Longrightarrow> s = lower_hex n"
proof (induction s arbitrary: n rule: rev_induct)
  case Nil
  then show ?case by (simp add: no_leading_zero_def)
next
  case (snoc c s)
  from snoc.prems(1) have "c \<in> set ''0123456789abcdef''" by (simp add: hex_reads_def)
  then obtain d where d: "d < 16" "c = hex_digit d" by (rule hex_val_lower)
  have z: "lower_hex 0 = ''0''" by code_simp
  show ?case
  proof (cases "s = []")
    case True
    with snoc.prems(1) d have "n = d" by (simp add: hex_reads_def)
    with True d show ?thesis by (simp add: lower_hex.simps)
  next
    case False
    obtain m where m: "parse_hex_acc 0 s = Some m"
      using snoc.prems(1) by (cases "parse_hex_acc 0 s") (auto simp: hex_reads_def parse_hex_acc_None)
    have "n = 16 * m + d"
      using parse_hex_acc_snoc [OF m d(1)] snoc.prems(1) d(2) by (simp add: hex_reads_def)
    moreover have "no_leading_zero s" using snoc.prems(2) False by (auto simp: no_leading_zero_def)
    moreover have "hex_reads s m" using snoc.prems(1) m by (simp add: hex_reads_def)
    ultimately have IH: "s = lower_hex m" and n: "n = 16 * m + d" using snoc.IH by blast+
    have "m \<noteq> 0"
    proof
      assume "m = 0"
      with IH z have "s = ''0''" by simp
      with snoc.prems(2) show False by (simp add: no_leading_zero_def)
    qed
    with d show ?thesis unfolding n IH by (simp add: lower_hex.simps [of "16 * m + d"])
  qed
qed

section \<open>Big-endian integers\<close>

definition be_nat :: "byte list \<Rightarrow> nat" where
  "be_nat bs = foldl (\<lambda>a b. 256 * a + unat b) 0 bs"

fun to_be :: "nat \<Rightarrow> nat \<Rightarrow> byte list" where
  "to_be 0 n = []"
| "to_be (Suc k) n = to_be k (n div 256) @ [word_of_nat (n mod 256)]"

lemma be_nat_Nil [simp]: "be_nat [] = 0"
  by (simp add: be_nat_def)

lemma be_nat_snoc [simp]: "be_nat (bs @ [b]) = 256 * be_nat bs + unat b"
  by (simp add: be_nat_def)

lemma length_to_be [simp]: "length (to_be k n) = k"
  by (induction k arbitrary: n) simp_all

lemma hex_reads_encode: "hex_reads (hex_encode bs) (be_nat bs)"
proof (induction bs rule: rev_induct)
  case Nil
  then show ?case by (simp add: hex_encode_def hex_reads_Nil)
next
  case (snoc b bs)
  have "unat b div 16 < 16" using unat_byte_less [of b] by linarith
  from hex_reads_snoc [OF hex_reads_snoc [OF snoc this], of "unat b mod 16"]
  show ?case by (simp add: hex_encode_def hex_byte_def algebra_simps)
qed

lemma be_nat_zero_iff: "be_nat bs = 0 \<longleftrightarrow> (\<forall>b\<in>set bs. b = 0)"
  by (induction bs rule: rev_induct) (auto simp: unat_eq_0)

lemma be_nat_append: "be_nat (xs @ ys) = be_nat xs * 256 ^ length ys + be_nat ys"
proof (induction ys rule: rev_induct)
  case Nil
  then show ?case by simp
next
  case (snoc y ys)
  have "be_nat (xs @ ys @ [y]) = 256 * be_nat (xs @ ys) + unat y"
    using be_nat_snoc [of "xs @ ys" y] by simp
  with snoc show ?case by (simp add: algebra_simps)
qed

lemma be_nat_to_be: "be_nat (to_be k n) = n mod 256 ^ k"
proof (induction k arbitrary: n)
  case 0
  then show ?case by simp
next
  case (Suc k)
  have "unat (word_of_nat (n mod 256) :: byte) = n mod 256" by (simp add: unat_of_nat)
  with Suc show ?case by (simp add: mod_mult2_eq)
qed

lemma be_nat_bound: "be_nat bs < 256 ^ length bs"
proof (induction bs rule: rev_induct)
  case Nil
  then show ?case by simp
next
  case (snoc b bs)
  have "256 * be_nat bs + unat b < 256 * be_nat bs + 256" using unat_byte_less [of b] by linarith
  also have "\<dots> = 256 * Suc (be_nat bs)" by simp
  also have "\<dots> \<le> 256 * 256 ^ length bs" using snoc by (simp only: Suc_le_eq mult_le_mono2)
  finally show ?case by simp
qed

lemma to_be_be_nat: "to_be (length bs) (be_nat bs) = bs"
proof (induction bs rule: rev_induct)
  case Nil
  then show ?case by simp
next
  case (snoc b bs)
  have "(256 * be_nat bs + unat b) div 256 = be_nat bs"
    using unat_byte_less [of b] by simp
  moreover have "(256 * be_nat bs + unat b) mod 256 = unat b"
    using unat_byte_less [of b] by simp
  ultimately show ?case using snoc by simp
qed

text \<open>\<open>U256::from_be_bytes\<close> and \<open>U256::to_be_bytes\<close>.\<close>

definition u256_from_be :: "byte list \<Rightarrow> u256" where
  "u256_from_be bs = word_of_nat (be_nat bs)"

definition u256_to_be :: "u256 \<Rightarrow> byte list" where
  "u256_to_be w = to_be 32 (unat w)"

lemma length_u256_to_be [simp]: "length (u256_to_be w) = 32"
  by (simp add: u256_to_be_def)

lemma u256_from_be_to_be [simp]: "u256_from_be (u256_to_be w) = w"
proof -
  have "unat w < 256 ^ 32" using unsigned_less [of w] by simp
  then show ?thesis by (simp add: u256_from_be_def u256_to_be_def be_nat_to_be)
qed

lemma unat_u256_from_be: "length bs = 32 \<Longrightarrow> unat (u256_from_be bs) = be_nat bs"
  using be_nat_bound [of bs] by (simp add: u256_from_be_def unat_of_nat)

lemma u256_to_be_from_be: "length bs = 32 \<Longrightarrow> u256_to_be (u256_from_be bs) = bs"
proof -
  assume l: "length bs = 32"
  then have "be_nat bs < 2 ^ 256" using be_nat_bound [of bs] by simp
  then have "unat (word_of_nat (be_nat bs) :: u256) = be_nat bs" by (simp add: unat_of_nat)
  with l show ?thesis using to_be_be_nat [of bs] by (simp add: u256_from_be_def u256_to_be_def)
qed

text \<open>An EVM address read off a stack word: the trailing 20 bytes (\<open>Address::from_slice\<close>).\<close>

definition address_of_word :: "u256 \<Rightarrow> address" where
  "address_of_word w = ucast w"

text \<open>The \<open>0x\<close>-prefixed forms used all over the trace.\<close>

definition hex_u256 :: "u256 \<Rightarrow> string" where
  "hex_u256 w = ''0x'' @ lower_hex (unat w)"

definition hex_address_word :: "u256 \<Rightarrow> string" where
  "hex_address_word w = ''0x'' @ hex_encode (drop 12 (u256_to_be w))"

end
