(* ===== verification/Source_Map.thy ===== *)
theory Source_Map
  imports Rust_Text "HOL-Library.While_Combinator"
begin

text \<open>
  \<^verbatim>\<open>src/source_map.rs\<close>: the compressed source map of solc (\<open>SourceMap::parse\<close>), the table
  from program counters to instruction indices (\<open>build_pc_to_instruction_index\<close>), and the
  resolution of a program counter to a file, a line and a column (\<open>resolve_pc\<close>,
  \<open>offset_to_line_col\<close>). The lemmas show that parsing undoes solc's compression, that the table
  is the instruction numbering of the bytecode's disassembly, and that a line and column
  determine the byte offset they come from.
\<close>

section \<open>Data\<close>

datatype jump_type = Into | OutOf | Regular

record source_map_entry =
  sme_offset :: int
  sme_length :: int
  sme_file_index :: int
  sme_jump_type :: jump_type
  sme_modifier_depth :: int

definition default_entry :: source_map_entry where
  "default_entry = \<lparr>sme_offset = 0, sme_length = 0, sme_file_index = 0,
     sme_jump_type = Regular, sme_modifier_depth = 0\<rparr>"

record source_location =
  loc_file_index :: int
  loc_line :: nat
  loc_column :: nat

record source_map =
  sm_entries :: "source_map_entry list"

section \<open>Parsing\<close>

definition parse_field :: "string option \<Rightarrow> int \<Rightarrow> int" where
  "parse_field field prev =
     (case field of
        Some s \<Rightarrow> if s \<noteq> [] then (case parse_i32 s of Some i \<Rightarrow> i | None \<Rightarrow> prev) else prev
      | None \<Rightarrow> prev)"

definition parse_jump :: "string \<Rightarrow> jump_type" where
  "parse_jump s = (if s = ''i'' then Into else if s = ''o'' then OutOf else Regular)"

definition parse_entry :: "source_map_entry \<Rightarrow> string \<Rightarrow> source_map_entry" where
  "parse_entry prev part =
     (let fields = split_on CHR '':'' part in
      \<lparr>sme_offset = parse_field (vec_get fields 0) (sme_offset prev),
       sme_length = parse_field (vec_get fields 1) (sme_length prev),
       sme_file_index = parse_field (vec_get fields 2) (sme_file_index prev),
       sme_jump_type =
         (case vec_get fields 3 of
            Some s \<Rightarrow> if s = [] then sme_jump_type prev else parse_jump s
          | None \<Rightarrow> sme_jump_type prev),
       sme_modifier_depth = parse_field (vec_get fields 4) (sme_modifier_depth prev)\<rparr>)"

fun parse_parts :: "source_map_entry \<Rightarrow> string list \<Rightarrow> source_map_entry list" where
  "parse_parts prev [] = []"
| "parse_parts prev (part # ps) =
     (let entry = parse_entry prev part in entry # parse_parts entry ps)"

definition source_map_parse :: "string \<Rightarrow> source_map" where
  "source_map_parse raw = \<lparr>sm_entries = parse_parts default_entry (split_on CHR '';'' raw)\<rparr>"

definition from_entries :: "source_map_entry list \<Rightarrow> source_map" where
  "from_entries es = \<lparr>sm_entries = es\<rparr>"

definition sm_len :: "source_map \<Rightarrow> nat" where
  "sm_len sm = length (sm_entries sm)"

definition sm_is_empty :: "source_map \<Rightarrow> bool" where
  "sm_is_empty sm = (sm_entries sm = [])"

definition sm_get :: "source_map \<Rightarrow> nat \<Rightarrow> source_map_entry option" where
  "sm_get sm pc = vec_get (sm_entries sm) pc"

section \<open>From program counters to instructions\<close>

definition is_push_data_opcode :: "byte \<Rightarrow> bool" where
  "is_push_data_opcode op \<longleftrightarrow> 0x60 \<le> unat op \<and> unat op \<le> 0x7f"

definition push_bytes :: "byte \<Rightarrow> nat" where
  "push_bytes op = unat op - 0x60 + 1"

text \<open>The inner loop: the data bytes of a PUSH get the index of their instruction.\<close>

fun fill_push_data :: "nat list \<Rightarrow> nat \<Rightarrow> nat list \<Rightarrow> nat \<Rightarrow> nat \<Rightarrow> nat list" where
  "fill_push_data v pc [] n idx = v"
| "fill_push_data v pc (off # offs) n idx =
     fill_push_data (if pc + off < n then v[pc + off := idx] else v) pc offs n idx"

function pc_to_idx_loop :: "byte list \<Rightarrow> nat list \<Rightarrow> nat \<Rightarrow> nat \<Rightarrow> nat list" where
  "pc_to_idx_loop bc v pc idx =
     (if pc < length bc then
        (let v1 = v[pc := idx]; op = bc ! pc in
         if is_push_data_opcode op then
           pc_to_idx_loop bc
             (fill_push_data v1 pc [1..<Suc (push_bytes op)] (length bc) idx)
             (pc + 1 + push_bytes op) (idx + 1)
         else pc_to_idx_loop bc v1 (pc + 1) (idx + 1))
      else v)"
  by pat_completeness auto
termination
  by (relation "measure (\<lambda>(bc, v, pc, idx). length bc - pc)") auto

declare pc_to_idx_loop.simps [simp del]

definition build_pc_to_instruction_index :: "byte list \<Rightarrow> nat list" where
  "build_pc_to_instruction_index bytecode =
     pc_to_idx_loop bytecode (replicate (length bytecode) 0) 0 0"

section \<open>From byte offsets to lines and columns\<close>

text \<open>The length of a UTF-8 character, by its first byte (\<open>char::len_utf8\<close>).\<close>

definition utf8_len :: "char \<Rightarrow> nat" where
  "utf8_len c = (let n = (of_char c :: nat) in
     if n < 0x80 then 1 else if n < 0xe0 then 2 else if n < 0xf0 then 3 else 4)"

lemma utf8_len_pos [simp]: "0 < utf8_len c"
  by (simp add: utf8_len_def Let_def)

lemma utf8_len_neq_0 [simp]: "utf8_len c \<noteq> 0"
  using utf8_len_pos [of c] by simp

text \<open>
  The loop over \<open>char_indices\<close>: \<open>i\<close> is the byte index of the next character. The source is at
  most \<open>2 ^ 31\<close> bytes before the offset, so the \<open>u32\<close> counters do not wrap.
\<close>

function line_col_loop :: "string \<Rightarrow> nat \<Rightarrow> nat \<Rightarrow> nat \<Rightarrow> nat \<Rightarrow> nat \<times> nat" where
  "line_col_loop s i byte_offset line col =
     (case s of
        [] \<Rightarrow> (line, col)
      | ch # _ \<Rightarrow>
          (if byte_offset \<le> i then (line, col)
           else if ch = CHR 0x0A then
             line_col_loop (drop 1 s) (i + 1) byte_offset (line + 1) 0
           else line_col_loop (drop (utf8_len ch) s) (i + utf8_len ch) byte_offset line
                  (col + utf8_len ch)))"
  by pat_completeness auto
termination
  by (relation "measure (\<lambda>(s, i, off, line, col). length s)") auto

declare line_col_loop.simps [simp del]

definition offset_to_line_col :: "string \<Rightarrow> nat \<Rightarrow> nat \<times> nat" where
  "offset_to_line_col source byte_offset = line_col_loop source 0 byte_offset 1 0"

section \<open>Resolving a program counter\<close>

definition get_entry_for_pc :: "source_map \<Rightarrow> nat \<Rightarrow> nat list \<Rightarrow> source_map_entry option" where
  "get_entry_for_pc sm pc pc_to_idx =
     (case vec_get pc_to_idx pc of
        None \<Rightarrow> None
      | Some instr_idx \<Rightarrow> vec_get (sm_entries sm) instr_idx)"

definition resolve_pc ::
  "source_map \<Rightarrow> nat \<Rightarrow> nat list \<Rightarrow> string list \<Rightarrow> source_location option" where
  "resolve_pc sm pc pc_to_idx source_contents =
     (case vec_get pc_to_idx pc of None \<Rightarrow> None | Some instr_idx \<Rightarrow>
      (case vec_get (sm_entries sm) instr_idx of None \<Rightarrow> None | Some entry \<Rightarrow>
       (if sme_file_index entry < 0 then None
        else (case vec_get source_contents (usize_of_i32 (sme_file_index entry)) of
                None \<Rightarrow> None
              | Some source \<Rightarrow>
                  (let byte_offset = usize_of_i32 (sme_offset entry) in
                   if length source < byte_offset then None
                   else (let (line, column) = offset_to_line_col source byte_offset in
                         Some \<lparr>loc_file_index = sme_file_index entry, loc_line = line,
                               loc_column = column\<rparr>))))))"

section \<open>Parsing undoes solc's compression\<close>

lemma length_parse_parts [simp]: "length (parse_parts prev ps) = length ps"
  by (induction ps arbitrary: prev) (simp_all add: Let_def)

text \<open>An \<open>i32\<close> field of a parsed map is an \<open>i32\<close>.\<close>

definition entry_ok :: "source_map_entry \<Rightarrow> bool" where
  "entry_ok e \<longleftrightarrow> i32_range (sme_offset e) \<and> i32_range (sme_length e) \<and>
     i32_range (sme_file_index e) \<and> i32_range (sme_modifier_depth e)"

lemma parse_field_range: "i32_range prev \<Longrightarrow> i32_range (parse_field f prev)"
  by (auto simp: parse_field_def split: option.split dest: parse_i32_range)

lemma parse_entry_ok: "entry_ok prev \<Longrightarrow> entry_ok (parse_entry prev part)"
  by (simp add: entry_ok_def parse_entry_def Let_def parse_field_range)

lemma parse_parts_ok: "entry_ok prev \<Longrightarrow> e \<in> set (parse_parts prev ps) \<Longrightarrow> entry_ok e"
proof (induction ps arbitrary: prev)
  case Nil
  then show ?case by simp
next
  case (Cons p ps)
  have "entry_ok (parse_entry prev p)" using Cons.prems(1) by (rule parse_entry_ok)
  with Cons show ?case by (auto simp: Let_def)
qed

text \<open>
  The compression the format prescribes: a field equal to its value in the previous entry is
  left empty. \<open>print_entry\<close> writes one entry against its predecessor.
\<close>

definition print_field :: "int \<Rightarrow> int \<Rightarrow> string" where
  "print_field prev i = (if i = prev then [] else show_int i)"

fun print_jump :: "jump_type \<Rightarrow> string" where
  "print_jump Into = ''i''"
| "print_jump OutOf = ''o''"
| "print_jump Regular = ''-''"

definition print_fields :: "source_map_entry \<Rightarrow> source_map_entry \<Rightarrow> string list" where
  "print_fields prev e =
     [print_field (sme_offset prev) (sme_offset e),
      print_field (sme_length prev) (sme_length e),
      print_field (sme_file_index prev) (sme_file_index e),
      if sme_jump_type e = sme_jump_type prev then [] else print_jump (sme_jump_type e),
      print_field (sme_modifier_depth prev) (sme_modifier_depth e)]"

definition print_entry :: "source_map_entry \<Rightarrow> source_map_entry \<Rightarrow> string" where
  "print_entry prev e = join_with '':'' (print_fields prev e)"

fun print_parts :: "source_map_entry \<Rightarrow> source_map_entry list \<Rightarrow> string list" where
  "print_parts prev [] = []"
| "print_parts prev (e # es) = print_entry prev e # print_parts e es"

definition print_map :: "source_map_entry list \<Rightarrow> string" where
  "print_map es = join_with '';'' (print_parts default_entry es)"

lemma show_int_not_Nil [simp]: "show_int i \<noteq> []"
  by (simp add: show_int_def)

lemma parse_print_field: "i32_range i \<Longrightarrow> parse_field (Some (print_field prev i)) prev = i"
  by (simp add: parse_field_def print_field_def parse_i32_show_int)

lemma print_field_avoids:
  "digit_val c = None \<Longrightarrow> c \<noteq> CHR ''-'' \<Longrightarrow> c \<notin> set (print_field prev i)"
  by (simp add: print_field_def show_int_avoids)

lemma print_fields_avoid:
  "c \<in> {CHR '':'', CHR '';''} \<Longrightarrow> x \<in> set (print_fields prev e) \<Longrightarrow> c \<notin> set x"
  by (cases "sme_jump_type e")
     (auto simp: print_fields_def print_field_avoids digit_val_def split: if_splits)

lemma split_print_entry: "split_on CHR '':'' (print_entry prev e) = print_fields prev e"
  unfolding print_entry_def
  by (rule split_on_join) (auto simp: print_fields_avoid, simp add: print_fields_def)

lemma parse_print_jump [simp]: "parse_jump (print_jump j) = j"
  by (cases j) (simp_all add: parse_jump_def)

lemma print_jump_not_Nil [simp]: "print_jump j \<noteq> []"
  by (cases j) simp_all

lemma parse_print_entry: "entry_ok e \<Longrightarrow> parse_entry prev (print_entry prev e) = e"
  unfolding parse_entry_def split_print_entry Let_def entry_ok_def
  by (simp add: print_fields_def vec_get_def parse_print_field numeral_eq_Suc)

lemma parse_print_parts:
  "\<forall>e\<in>set es. entry_ok e \<Longrightarrow> parse_parts prev (print_parts prev es) = es"
  by (induction es arbitrary: prev) (simp_all add: parse_print_entry)

lemma in_join_with: "c \<in> set (join_with sep xs) \<Longrightarrow> c \<in> set sep \<or> (\<exists>x\<in>set xs. c \<in> set x)"
  by (induction sep xs rule: join_with.induct) auto

lemma print_parts_avoid: "x \<in> set (print_parts prev es) \<Longrightarrow> CHR '';'' \<notin> set x"
proof (induction es arbitrary: prev)
  case Nil
  then show ?case by simp
next
  case (Cons e es)
  have "CHR '';'' \<notin> set (print_entry prev e)"
    using in_join_with [of "CHR '';''" "'':''" "print_fields prev e"] print_fields_avoid
    by (auto simp: print_entry_def)
  with Cons show ?case by auto
qed

lemma print_parts_Nil [simp]: "print_parts prev es = [] \<longleftrightarrow> es = []"
  by (cases es) simp_all

section \<open>The table is the instruction numbering\<close>

text \<open>
  The disassembly of a bytecode: the list of instructions, each with the data bytes it
  consumes, the last one cut short when the code ends inside its data.
\<close>

definition instr_size :: "byte \<Rightarrow> nat" where
  "instr_size op = (if unat op \<in> {0x60..0x7f} then unat op - 0x5e else 1)"

function disassemble :: "byte list \<Rightarrow> byte list list" where
  "disassemble [] = []"
| "disassemble (op # bs) =
     take (instr_size op) (op # bs) # disassemble (drop (instr_size op) (op # bs))"
  by pat_completeness auto
termination
  by (relation "measure length") (auto simp: instr_size_def)

fun number_instrs :: "nat \<Rightarrow> byte list list \<Rightarrow> nat list" where
  "number_instrs k [] = []"
| "number_instrs k (c # cs) = replicate (length c) k @ number_instrs (Suc k) cs"

lemma instr_size_pos [simp]: "0 < instr_size op"
  by (simp add: instr_size_def)

lemma instr_size_code: "instr_size op = (if is_push_data_opcode op then 1 + push_bytes op else 1)"
  by (auto simp: instr_size_def is_push_data_opcode_def push_bytes_def)

lemma concat_disassemble: "concat (disassemble bc) = bc"
  by (induction bc rule: disassemble.induct) (simp_all only: disassemble.simps concat.simps append_take_drop_id)

lemma length_number_instrs [simp]: "length (number_instrs k cs) = length (concat cs)"
  by (induction cs arbitrary: k) simp_all

lemma set_number_instrs: "i \<in> set (number_instrs k cs) \<Longrightarrow> k \<le> i \<and> i < k + length cs"
  by (induction cs arbitrary: k) (force split: if_splits)+

lemma sorted_number_instrs: "sorted (number_instrs k cs)"
proof (induction cs arbitrary: k)
  case Nil
  then show ?case by simp
next
  case (Cons c cs)
  from Cons.IH [of "Suc k"] show ?case
    by (auto simp: sorted_append dest!: set_number_instrs)
qed

lemma length_fill [simp]: "length (fill_push_data v pc offs n idx) = length v"
  by (induction offs arbitrary: v) simp_all

lemma nth_fill:
  "length v = n \<Longrightarrow> i < n \<Longrightarrow>
     fill_push_data v pc offs n idx ! i = (if \<exists>off\<in>set offs. i = pc + off then idx else v ! i)"
proof (induction offs arbitrary: v)
  case Nil
  then show ?case by simp
next
  case (Cons off offs)
  let ?v = "if pc + off < n then v[pc + off := idx] else v"
  have "length ?v = n" using Cons.prems by simp
  from Cons.IH [OF this Cons.prems(2)] Cons.prems show ?case by auto
qed

text \<open>One iteration writes the number of the instruction at \<open>pc\<close> over all its bytes.\<close>

definition write_instr :: "byte list \<Rightarrow> nat list \<Rightarrow> nat \<Rightarrow> nat \<Rightarrow> nat list" where
  "write_instr bc v pc idx =
     (if is_push_data_opcode (bc ! pc)
      then fill_push_data (v[pc := idx]) pc [1..<Suc (push_bytes (bc ! pc))] (length bc) idx
      else v[pc := idx])"

lemma length_write_instr [simp]: "length (write_instr bc v pc idx) = length v"
  by (simp add: write_instr_def)

lemma pc_to_idx_loop_step:
  "pc < length bc \<Longrightarrow> pc_to_idx_loop bc v pc idx =
     pc_to_idx_loop bc (write_instr bc v pc idx) (pc + instr_size (bc ! pc)) (idx + 1)"
  by (subst pc_to_idx_loop.simps) (simp add: write_instr_def instr_size_code Let_def)

lemma pc_to_idx_loop_done: "length bc \<le> pc \<Longrightarrow> pc_to_idx_loop bc v pc idx = v"
  by (subst pc_to_idx_loop.simps) simp

lemma nth_write_instr:
  assumes "length v = length bc" "pc < length bc" "i < length bc"
  shows "write_instr bc v pc idx ! i =
     (if pc \<le> i \<and> i < pc + instr_size (bc ! pc) then idx else v ! i)"
proof (cases "is_push_data_opcode (bc ! pc)")
  case True
  have "(\<exists>off\<in>set [1..<Suc (push_bytes (bc ! pc))]. i = pc + off) \<longleftrightarrow>
      pc < i \<and> i < pc + instr_size (bc ! pc)"
  proof
    assume "\<exists>off\<in>set [1..<Suc (push_bytes (bc ! pc))]. i = pc + off"
    then show "pc < i \<and> i < pc + instr_size (bc ! pc)" using True by (auto simp: instr_size_code)
  next
    assume "pc < i \<and> i < pc + instr_size (bc ! pc)"
    then have "i - pc \<in> set [1..<Suc (push_bytes (bc ! pc))]" "i = pc + (i - pc)"
      using True by (auto simp: instr_size_code)
    then show "\<exists>off\<in>set [1..<Suc (push_bytes (bc ! pc))]. i = pc + off" by blast
  qed
  with True assms show ?thesis
    by (auto simp: write_instr_def nth_fill nth_list_update instr_size_code)
next
  case False
  with assms show ?thesis by (auto simp: write_instr_def instr_size_code nth_list_update)
qed

lemma take_write_instr:
  assumes "length v = length bc" "pc < length bc"
  shows "take (pc + instr_size (bc ! pc)) (write_instr bc v pc idx) =
     take pc v @ replicate (length (take (instr_size (bc ! pc)) (drop pc bc))) idx"
  using assms
  by (intro nth_equalityI) (auto simp: nth_append nth_write_instr intro!: nth_replicate [symmetric])

lemma pc_to_idx_loop_correct:
  "length v = length bc \<Longrightarrow>
     pc_to_idx_loop bc v pc idx = take pc v @ number_instrs idx (disassemble (drop pc bc))"
proof (induction "length bc - pc" arbitrary: v pc idx rule: less_induct)
  case less
  show ?case
  proof (cases "pc < length bc")
    case False
    with less.prems show ?thesis by (simp add: pc_to_idx_loop_done)
  next
    case True
    let ?n = "instr_size (bc ! pc)" and ?v = "write_instr bc v pc idx"
    have "drop pc bc = bc ! pc # drop (Suc pc) bc" using True by (simp add: Cons_nth_drop_Suc)
    then have "disassemble (drop pc bc) = take ?n (drop pc bc) # disassemble (drop ?n (drop pc bc))"
      by (metis disassemble.simps(2))
    then have dis: "disassemble (drop pc bc) = take ?n (drop pc bc) # disassemble (drop (pc + ?n) bc)"
      by (simp add: add.commute)
    have "length bc - (pc + ?n) < length bc - pc" using True instr_size_pos [of "bc ! pc"] by linarith
    then have "pc_to_idx_loop bc ?v (pc + ?n) (idx + 1) =
        take (pc + ?n) ?v @ number_instrs (idx + 1) (disassemble (drop (pc + ?n) bc))"
      using less.hyps less.prems by simp
    with True less.prems dis show ?thesis
      by (simp add: pc_to_idx_loop_step take_write_instr)
  qed
qed

section \<open>Lines and columns determine offsets\<close>

text \<open>
  \<open>utf8_wf\<close>: the text is a sequence of complete UTF-8 characters, the bytes after the first of
  a character being continuation bytes. \<open>boundary\<close>: an offset at which a character begins, or
  the end of the text.
\<close>

definition is_cont :: "char \<Rightarrow> bool" where
  "is_cont c \<longleftrightarrow> (let n = (of_char c :: nat) in 0x80 \<le> n \<and> n < 0xc0)"

function utf8_wf :: "string \<Rightarrow> bool" where
  "utf8_wf [] = True"
| "utf8_wf (c # s) =
     (\<not> is_cont c \<and> utf8_len c \<le> length (c # s) \<and>
      list_all is_cont (take (utf8_len c - 1) s) \<and> utf8_wf (drop (utf8_len c - 1) s))"
  by pat_completeness auto
termination
  by (relation "measure length") auto

function boundary :: "string \<Rightarrow> nat \<Rightarrow> bool" where
  "boundary [] off = (off = 0)"
| "boundary (c # s) off =
     (off = 0 \<or> (utf8_len c \<le> off \<and> boundary (drop (utf8_len c - 1) s) (off - utf8_len c)))"
  by pat_completeness auto
termination
  by (relation "measure (\<lambda>(s, off). length s)") auto

lemma line_col_loop_Nil: "line_col_loop [] i off line col = (line, col)"
  by (subst line_col_loop.simps) simp

lemma line_col_loop_stop: "off \<le> i \<Longrightarrow> line_col_loop s i off line col = (line, col)"
  by (subst line_col_loop.simps) (simp split: list.split)

lemma utf8_len_newline [simp]: "utf8_len CHR 0x0A = 1"
  by (simp add: utf8_len_def)

lemma line_col_loop_Cons:
  "i < off \<Longrightarrow> line_col_loop (c # s) i off line col =
     line_col_loop (drop (utf8_len c - 1) s) (i + utf8_len c) off
       (if c = CHR 0x0A then line + 1 else line)
       (if c = CHR 0x0A then 0 else col + utf8_len c)"
  by (subst line_col_loop.simps) (simp add: drop_Cons')

definition last_line_len :: "string \<Rightarrow> nat" where
  "last_line_len s = length (takeWhile (\<lambda>c. c \<noteq> CHR 0x0A) (rev s))"

lemma last_line_len_append:
  "last_line_len (a @ b) =
     (if CHR 0x0A \<in> set b then last_line_len b else length b + last_line_len a)"
  by (auto simp: last_line_len_def takeWhile_append takeWhile_eq_all_conv [THEN iffD2])

lemma last_line_len_no_newline: "CHR 0x0A \<notin> set s \<Longrightarrow> last_line_len s = length s"
proof -
  assume "CHR 0x0A \<notin> set s"
  then have "takeWhile (\<lambda>c. c \<noteq> CHR 0x0A) (rev s) = rev s" by (subst takeWhile_eq_all_conv) auto
  then show ?thesis unfolding last_line_len_def by (simp only: length_rev)
qed

lemma last_line_len_newline [simp]: "last_line_len [CHR 0x0A] = 0"
  by (simp add: last_line_len_def)

lemma boundary_le: "utf8_wf s \<Longrightarrow> boundary s n \<Longrightarrow> n \<le> length s"
proof (induction s arbitrary: n rule: utf8_wf.induct)
  case 1
  then show ?case by simp
next
  case (2 c s)
  show ?case
  proof (cases "n = 0")
    case False
    with 2 have "n - utf8_len c \<le> length (drop (utf8_len c - 1) s)" "utf8_len c \<le> length (c # s)"
      by auto
    then show ?thesis by simp
  qed simp
qed

lemma is_cont_not_newline: "list_all is_cont s \<Longrightarrow> CHR 0x0A \<notin> set s"
  by (auto simp: list_all_iff is_cont_def)

lemma count_list_0: "x \<notin> set xs \<Longrightarrow> count_list xs x = 0"
  by (simp add: count_list_0_iff)

lemma line_col_loop_correct:
  assumes "utf8_wf s" "boundary s n"
  shows "line_col_loop s i (i + n) line col =
     (line + count_list (take n s) (CHR 0x0A),
      if CHR 0x0A \<in> set (take n s) then last_line_len (take n s) else col + n)"
  using assms
proof (induction s arbitrary: i n line col rule: utf8_wf.induct)
  case 1
  then show ?case by (simp add: line_col_loop_Nil)
next
  case (2 c s)
  show ?case
  proof (cases "n = 0")
    case True
    then show ?thesis by (simp add: line_col_loop_stop)
  next
    case False
    let ?k = "utf8_len c"
    let ?mid = "take (?k - 1) s" and ?rest = "drop (?k - 1) s"
    from 2 False have wf: "utf8_wf ?rest" and le: "?k \<le> n" and b: "boundary ?rest (n - ?k)"
      and mid: "CHR 0x0A \<notin> set ?mid" "length ?mid = ?k - 1"
      by (auto simp: is_cont_not_newline)
    obtain m where m: "n = ?k + m" using le le_Suc_ex by blast
    obtain k' where k': "?k = Suc k'" by (cases ?k) simp_all
    have pre: "take n (c # s) = c # ?mid @ take m ?rest"
      using m k' by (simp add: take_add)
    from boundary_le [OF wf] b m have "m \<le> length ?rest" by simp
    then have len: "length (take m ?rest) = m" by simp
    have nl: "c = CHR 0x0A \<Longrightarrow> ?mid = []" by simp
    have "line_col_loop (c # s) i (i + n) line col =
        line_col_loop ?rest (i + ?k) (i + ?k + m)
          (if c = CHR 0x0A then line + 1 else line) (if c = CHR 0x0A then 0 else col + ?k)"
      using m by (subst line_col_loop_Cons) (simp_all add: add.assoc)
    also have "\<dots> = (line + count_list (take n (c # s)) (CHR 0x0A),
        if CHR 0x0A \<in> set (take n (c # s)) then last_line_len (take n (c # s)) else col + n)"
      using mid m nl len "2.IH" [OF wf, of m] b unfolding pre
      by (simp add: last_line_len_append [of "c # ?mid", simplified]
          last_line_len_no_newline count_list_0)
    finally show ?thesis .
  qed
qed

lemma offset_to_line_col_correct:
  assumes "utf8_wf s" "boundary s n"
  shows "offset_to_line_col s n =
     (1 + count_list (take n s) (CHR 0x0A), last_line_len (take n s))"
  using line_col_loop_correct [OF assms, of 0 1 0] boundary_le [OF assms]
  by (simp add: offset_to_line_col_def last_line_len_no_newline)

section \<open>Properties\<close>



text \<open>The table from program counters to instruction indices is the instruction numbering
  of the disassembly: every byte of the code, the data bytes of a PUSH included, is mapped to
  the position of the instruction it belongs to, and the table has one entry per byte.\<close>

theorem build_pc_to_instruction_index_numbers:
  "build_pc_to_instruction_index bc = number_instrs 0 (disassemble bc) \<and>
   length (build_pc_to_instruction_index bc) = length bc \<and>
   sorted (build_pc_to_instruction_index bc) \<and>
   set (build_pc_to_instruction_index bc) \<subseteq> {0..<length (disassemble bc)}"
proof -
  have "build_pc_to_instruction_index bc = number_instrs 0 (disassemble bc)"
    by (simp add: build_pc_to_instruction_index_def pc_to_idx_loop_correct)
  then show ?thesis
    using set_number_instrs [of _ 0 "disassemble bc"]
    by (auto simp: concat_disassemble sorted_number_instrs)
qed

text \<open>The loop that fills the table, as a program: its state is the table, the program counter and
  the instruction number, and one iteration is the body of the loop.\<close>

definition table_step :: "byte list \<Rightarrow> nat list \<times> nat \<times> nat \<Rightarrow> nat list \<times> nat \<times> nat" where
  "table_step bc s =
     (case s of (v, pc, idx) \<Rightarrow>
        (let v1 = v[pc := idx]; op = bc ! pc in
         if is_push_data_opcode op
         then (fill_push_data v1 pc [1..<Suc (push_bytes op)] (length bc) idx, pc + 1 + push_bytes op, idx + 1)
         else (v1, pc + 1, idx + 1)))"

definition table_todo :: "byte list \<Rightarrow> nat list \<times> nat \<times> nat \<Rightarrow> bool" where
  "table_todo bc s = (fst (snd s) < length bc)"

lemma table_step_code:
  "table_step bc (v, pc, idx) = (write_instr bc v pc idx, pc + instr_size (bc ! pc), idx + 1)"
  by (simp add: table_step_def write_instr_def instr_size_code Let_def)

lemma table_loop:
  "\<exists>pc' idx'. while_option (table_todo bc) (table_step bc) (v, pc, idx) = Some (pc_to_idx_loop bc v pc idx, pc', idx') \<and>
     idx' \<le> idx + (length bc - pc)"
proof (induction "length bc - pc" arbitrary: v pc idx rule: less_induct)
  case less
  show ?case
  proof (cases "pc < length bc")
    case False
    then show ?thesis by (subst while_option_unfold) (simp add: table_todo_def pc_to_idx_loop_done)
  next
    case True
    then have dec: "length bc - (pc + instr_size (bc ! pc)) < length bc - pc"
      using instr_size_pos [of "bc ! pc"] by linarith
    from less.hyps [OF dec] True dec show ?thesis
      by (subst while_option_unfold)
        (fastforce simp: table_todo_def table_step_code pc_to_idx_loop_step)
  qed
qed

text \<open>C21: The loop that numbers the bytes of the code terminates for every byte string, after at
  most as many iterations as there are bytes, even when the code ends inside the data of a PUSH, and
  leaves the table the recorder uses.\<close>

theorem pc_table_loop_terminates:
  "\<exists>pc idx. while_option (table_todo bc) (table_step bc) (replicate (length bc) 0, 0, 0) =
       Some (build_pc_to_instruction_index bc, pc, idx) \<and> idx \<le> length bc"
  using table_loop [of bc "replicate (length bc) 0" 0 0] by (simp add: build_pc_to_instruction_index_def)

end
