(* ===== verification/Json_Value.thy ===== *)
theory Json_Value
  imports Rust_Text
begin

text \<open>
  The JSON document type the recorder reads solc's output through (\<open>serde_json::Value\<close>: null,
  boolean, number, string, array, object) with the accessors the sources call (\<open>get\<close>,
  \<open>as_str\<close>, \<open>as_array\<close>, \<open>as_object\<close>, \<open>as_i64\<close>, \<open>is_null\<close>), as serde's
  documentation describes them. Turning text into a document is serde's work and a parameter
  wherever a definition needs it. An object lists its entries in the order the library iterates
  over them.
\<close>

datatype json =
    JNull
  | JBool bool
  | JInt int
  | JFloat string
  | JStr string
  | JArr "json list"
  | JObj "(string \<times> json) list"

definition json_get :: "json \<Rightarrow> string \<Rightarrow> json option" where
  "json_get j k = (case j of JObj kvs \<Rightarrow> map_of kvs k | _ \<Rightarrow> None)"

definition as_str :: "json \<Rightarrow> string option" where
  "as_str j = (case j of JStr s \<Rightarrow> Some s | _ \<Rightarrow> None)"

definition as_array :: "json \<Rightarrow> json list option" where
  "as_array j = (case j of JArr xs \<Rightarrow> Some xs | _ \<Rightarrow> None)"

definition as_object :: "json \<Rightarrow> (string \<times> json) list option" where
  "as_object j = (case j of JObj kvs \<Rightarrow> Some kvs | _ \<Rightarrow> None)"

definition as_i64 :: "json \<Rightarrow> int option" where
  "as_i64 j =
     (case j of JInt i \<Rightarrow> if - (2 ^ 63) \<le> i \<and> i < 2 ^ 63 then Some i else None | _ \<Rightarrow> None)"

definition is_null :: "json \<Rightarrow> bool" where
  "is_null j = (j = JNull)"

text \<open>The chains \<open>node.get(k).and_then(|v| v.as_str())\<close> and \<open>...as_array()\<close>.\<close>

definition get_str :: "json \<Rightarrow> string \<Rightarrow> string option" where
  "get_str j k = (case json_get j k of None \<Rightarrow> None | Some v \<Rightarrow> as_str v)"

definition get_array :: "json \<Rightarrow> string \<Rightarrow> json list option" where
  "get_array j k = (case json_get j k of None \<Rightarrow> None | Some v \<Rightarrow> as_array v)"

lemmas json_access = json_get_def as_str_def as_array_def get_str_def get_array_def

text \<open>What an accessor finds is a smaller document: the visitors of the sources terminate.\<close>

lemma size_map_of: "map_of kvs k = Some v \<Longrightarrow> size v < Suc (size_list (size_prod (\<lambda>_. 0) size) kvs)"
  by (induction kvs) (auto split: if_splits)

lemma size_json_get: "json_get j k = Some v \<Longrightarrow> size v < size j"
  by (auto simp: json_get_def dest!: size_map_of split: json.splits)

lemma size_as_array: "as_array j = Some xs \<Longrightarrow> x \<in> set xs \<Longrightarrow> size x < size j"
  by (auto simp: as_array_def less_Suc_eq_le size_list_estimation' split: json.splits)

lemma size_get_array: "get_array j k = Some xs \<Longrightarrow> x \<in> set xs \<Longrightarrow> size x < size j"
  by (auto simp: get_array_def split: option.splits)
     (meson less_trans size_as_array size_json_get)

lemma size_get_as_array:
  "json_get j k = Some c \<Longrightarrow> as_array c = Some xs \<Longrightarrow> x \<in> set xs \<Longrightarrow> size x < size j"
  by (meson less_trans size_as_array size_json_get)

end
