(* ===== verification/Solidity_Ast.thy ===== *)
theory Solidity_Ast
  imports Json_Value
begin

text \<open>
  \<^verbatim>\<open>src/solidity_ast.rs\<close>: extraction of the function definitions and their variables from
  solc's AST (\<open>visit_node\<close>, \<open>parse_function\<close>, \<open>collect_local_vars\<close>,
  \<open>parse_var_decl_node\<close>), the classification of a variable as stack or memory resident, the
  function enclosing an offset and the display name of a function. The lemmas show that the
  enclosing function is the innermost one, which variables are in scope, which names are
  qualified, and that the visitor finds every function of every contract.
\<close>

section \<open>Data\<close>

record source_range =
  sr_offset :: int
  sr_length :: int
  sr_file_index :: int

datatype var_storage_kind = StackKind | MemoryKind

record var_decl =
  vd_name :: string
  vd_type_name :: string
  vd_src :: source_range
  vd_declaration_offset :: int
  vd_statement_range :: "source_range option"

record function_def =
  fd_name :: string
  fd_src :: source_range
  fd_parameters :: "var_decl list"
  fd_local_variables :: "var_decl list"
  fd_contract_name :: "string option"
  fd_contract_kind :: "string option"

record solidity_ast =
  ast_functions :: "function_def list"

section \<open>Ranges and types\<close>

text \<open>\<open>SourceRange::parse\<close>: \<open>splitn(4, ':')\<close> leaves the first three fields as \<open>split\<close> does.\<close>

definition source_range_parse :: "string \<Rightarrow> source_range option" where
  "source_range_parse src =
     (let parts = split_on CHR '':'' src in
      case Option.bind (vec_get parts 0) parse_i32 of
        None \<Rightarrow> None
      | Some offset \<Rightarrow>
          (case Option.bind (vec_get parts 1) parse_i32 of
             None \<Rightarrow> None
           | Some len \<Rightarrow>
               Some \<lparr>sr_offset = offset, sr_length = len,
                     sr_file_index =
                       (case Option.bind (vec_get parts 2) parse_i32 of
                          None \<Rightarrow> 0 | Some f \<Rightarrow> f)\<rparr>))"

definition contains_offset :: "source_range \<Rightarrow> int \<Rightarrow> bool" where
  "contains_offset r offset \<longleftrightarrow>
     sr_offset r \<le> offset \<and> offset < wrap_i32 (sr_offset r + sr_length r)"

definition classify_type_name :: "string \<Rightarrow> var_storage_kind" where
  "classify_type_name type_name =
     (let t = trim type_name in
      if t = [] then StackKind
      else if str_contains t '' memory'' then MemoryKind
      else if str_contains t '' storage'' \<or> str_contains t '' calldata'' then StackKind
      else if starts_with t ''struct '' \<or> starts_with t ''mapping'' \<or> t = ''bytes''
              \<or> t = ''string'' \<or> ends_with t ''[]''
              \<or> (CHR ''['' \<in> set t \<and> ends_with t '']'') then MemoryKind
      else StackKind)"

definition storage_kind :: "var_decl \<Rightarrow> var_storage_kind" where
  "storage_kind v = classify_type_name (vd_type_name v)"

definition is_stack_resident :: "var_decl \<Rightarrow> bool" where
  "is_stack_resident v \<longleftrightarrow> storage_kind v = StackKind"

definition is_memory_resident :: "var_decl \<Rightarrow> bool" where
  "is_memory_resident v \<longleftrightarrow> storage_kind v = MemoryKind"

section \<open>Queries on functions\<close>

definition vars_in_scope_at :: "function_def \<Rightarrow> int \<Rightarrow> var_decl list" where
  "vars_in_scope_at f offset =
     fd_parameters f @ filter (\<lambda>lv. vd_declaration_offset lv \<le> offset) (fd_local_variables f)"

definition function_at :: "solidity_ast \<Rightarrow> int \<Rightarrow> int \<Rightarrow> function_def option" where
  "function_at ast offset file_index =
     min_by_key (\<lambda>f. sr_length (fd_src f))
       (filter (\<lambda>f. sr_file_index (fd_src f) = file_index \<and> contains_offset (fd_src f) offset)
         (ast_functions ast))"

text \<open>
  \<open>qualified_function_name\<close>. The test that \<open>other\<close> is not the very object \<open>func\<close> is implied
  by the third conjunct: \<open>func\<close>'s own contract name is \<open>parent\<close>.
\<close>

definition name_collides :: "solidity_ast \<Rightarrow> function_def \<Rightarrow> string \<Rightarrow> bool" where
  "name_collides ast func parent \<longleftrightarrow>
     list_ex (\<lambda>other. fd_name other = fd_name func \<and> fd_contract_name other \<noteq> Some parent \<and>
        fd_contract_name other \<noteq> None) (ast_functions ast)"

definition qualified_function_name :: "solidity_ast \<Rightarrow> function_def \<Rightarrow> string" where
  "qualified_function_name ast func =
     (case fd_contract_name func of
        Some parent \<Rightarrow>
          (if fd_contract_kind func = Some ''library'' then parent @ ''.'' @ fd_name func
           else if name_collides ast func parent then parent @ ''.'' @ fd_name func
           else fd_name func)
      | None \<Rightarrow> fd_name func)"

section \<open>Reading declarations\<close>

text \<open>The type of a declaration: \<open>typeName.name\<close>, else \<open>typeName.pathNode.name\<close>, else
  \<open>typeDescriptions.typeString\<close>, else \<open>uint256\<close>.\<close>

definition type_name_of_node :: "json \<Rightarrow> string option" where
  "type_name_of_node tn =
     (case get_str tn ''name'' of
        Some s \<Rightarrow> Some s
      | None \<Rightarrow>
          (case Option.bind (json_get tn ''pathNode'') (\<lambda>pn. get_str pn ''name'') of
             Some s \<Rightarrow> Some s
           | None \<Rightarrow> get_str tn ''name''))"

definition decl_type_name :: "json \<Rightarrow> string" where
  "decl_type_name node =
     (case Option.bind (json_get node ''typeName'') type_name_of_node of
        Some s \<Rightarrow> s
      | None \<Rightarrow>
          (case Option.bind (json_get node ''typeDescriptions'') (\<lambda>td. get_str td ''typeString'') of
             Some s \<Rightarrow> s
           | None \<Rightarrow> ''uint256''))"

definition parse_var_decl_node :: "json \<Rightarrow> var_decl option" where
  "parse_var_decl_node node =
     (case get_str node ''name'' of None \<Rightarrow> None | Some name \<Rightarrow>
      (case get_str node ''src'' of None \<Rightarrow> None | Some src_str \<Rightarrow>
       (case source_range_parse src_str of None \<Rightarrow> None | Some src \<Rightarrow>
          Some \<lparr>vd_name = name, vd_type_name = decl_type_name node, vd_src = src,
                vd_declaration_offset = sr_offset src, vd_statement_range = None\<rparr>)))"

text \<open>The chain \<open>node.get(k).and_then(|p| p.get("parameters")).and_then(as_array)\<close>.\<close>

definition param_nodes :: "json \<Rightarrow> string \<Rightarrow> json list option" where
  "param_nodes node k = Option.bind (json_get node k) (\<lambda>p. get_array p ''parameters'')"

definition statement_vars :: "json \<Rightarrow> var_decl list" where
  "statement_vars node =
     (let stmt_range = Option.bind (get_str node ''src'') source_range_parse in
      case get_array node ''declarations'' of
        None \<Rightarrow> []
      | Some decls \<Rightarrow>
          concat (map (\<lambda>decl.
            if is_null decl then []
            else (case parse_var_decl_node decl of
                    None \<Rightarrow> []
                  | Some v \<Rightarrow> [v\<lparr>vd_statement_range := stmt_range\<rparr>])) decls))"

definition named_vars :: "json list \<Rightarrow> var_decl list" where
  "named_vars ps =
     concat (map (\<lambda>p. case parse_var_decl_node p of
                        None \<Rightarrow> []
                      | Some v \<Rightarrow> if vd_name v = [] then [] else [v]) ps)"

definition local_var_keys :: "string list" where
  "local_var_keys = [''statements'', ''body'', ''trueBody'', ''falseBody'',
     ''initializationExpression'', ''loopExpression'', ''clauses'', ''block'']"

definition node_type :: "json \<Rightarrow> string" where
  "node_type node = (case get_str node ''nodeType'' of Some t \<Rightarrow> t | None \<Rightarrow> [])"

text \<open>The variables \<open>collect_local_vars\<close> pushes, in order.\<close>

function collect_local_vars :: "json \<Rightarrow> var_decl list" where
  "collect_local_vars node =
     (if node_type node = ''VariableDeclarationStatement'' then statement_vars node else []) @
     concat (map (\<lambda>key.
        case json_get node key of
          None \<Rightarrow> []
        | Some child \<Rightarrow>
            (case as_array child of
               Some arr \<Rightarrow> concat (map collect_local_vars arr)
             | None \<Rightarrow> collect_local_vars child)) local_var_keys) @
     (if node_type node = ''TryCatchClause''
      then (case param_nodes node ''parameters'' of None \<Rightarrow> [] | Some ps \<Rightarrow> named_vars ps)
      else [])"
  by pat_completeness auto
termination
  by (relation "measure size") (auto dest: size_json_get size_get_as_array)

declare collect_local_vars.simps [simp del]

definition function_name_of :: "json \<Rightarrow> string" where
  "function_name_of node =
     (let k = get_str node ''kind'' in
      if k = Some ''constructor'' then ''constructor''
      else if k = Some ''fallback'' then ''fallback''
      else if k = Some ''receive'' then ''receive''
      else (case get_str node ''name'' of Some n \<Rightarrow> n | None \<Rightarrow> ''<unknown>''))"

definition parse_function :: "json \<Rightarrow> function_def option" where
  "parse_function node =
     (case get_str node ''src'' of None \<Rightarrow> None | Some src_str \<Rightarrow>
      (case source_range_parse src_str of None \<Rightarrow> None | Some src \<Rightarrow>
         Some \<lparr>fd_name = function_name_of node, fd_src = src,
               fd_parameters =
                 (case param_nodes node ''parameters'' of
                    None \<Rightarrow> [] | Some arr \<Rightarrow> List.map_filter parse_var_decl_node arr),
               fd_local_variables =
                 (case param_nodes node ''returnParameters'' of
                    None \<Rightarrow> [] | Some ps \<Rightarrow> named_vars ps) @
                 (case json_get node ''body'' of
                    None \<Rightarrow> [] | Some body \<Rightarrow> collect_local_vars body),
               fd_contract_name = None, fd_contract_kind = None\<rparr>))"

section \<open>The visitor\<close>

text \<open>The functions \<open>visit_node\<close> pushes onto \<open>self.functions\<close>, in order.\<close>

function visit_node :: "json \<Rightarrow> string option \<Rightarrow> string option \<Rightarrow> function_def list"
  and visit_children :: "json \<Rightarrow> string option \<Rightarrow> string option \<Rightarrow> function_def list" where
  "visit_node node contract_name contract_kind =
     (case get_str node ''nodeType'' of
        None \<Rightarrow> []
      | Some t \<Rightarrow>
          if t = ''SourceUnit'' then visit_children node contract_name contract_kind
          else if t = ''ContractDefinition'' then
            visit_children node
              (case get_str node ''name'' of Some n \<Rightarrow> Some n | None \<Rightarrow> contract_name)
              (case get_str node ''contractKind'' of Some k \<Rightarrow> Some k | None \<Rightarrow> contract_kind)
          else if t = ''FunctionDefinition'' then
            (case parse_function node of
               None \<Rightarrow> []
             | Some fdef \<Rightarrow> [fdef\<lparr>fd_contract_name := contract_name,
                                   fd_contract_kind := contract_kind\<rparr>])
          else visit_children node contract_name contract_kind)"
| "visit_children node contract_name contract_kind =
     (case get_array node ''nodes'' of
        None \<Rightarrow> []
      | Some nodes \<Rightarrow> concat (map (\<lambda>c. visit_node c contract_name contract_kind) nodes)) @
     (case json_get node ''body'' of
        None \<Rightarrow> []
      | Some body \<Rightarrow> visit_node body contract_name contract_kind) @
     (case get_array node ''statements'' of
        None \<Rightarrow> []
      | Some stmts \<Rightarrow> concat (map (\<lambda>s. visit_node s contract_name contract_kind) stmts))"
  by pat_completeness auto
termination
  by (relation "measure (case_sum (\<lambda>(j, _, _). 2 * size j + 1) (\<lambda>(j, _, _). 2 * size j))")
     (auto dest: size_get_array size_json_get)

declare visit_node.simps [simp del] visit_children.simps [simp del]

definition ast_of_json :: "json \<Rightarrow> solidity_ast" where
  "ast_of_json root =
     \<lparr>ast_functions =
        (case Option.bind (json_get root ''sources'') as_object of
           None \<Rightarrow> []
         | Some sources \<Rightarrow>
             concat (map (\<lambda>(_, src_obj).
               case json_get src_obj ''AST'' of
                 None \<Rightarrow> []
               | Some ast_node \<Rightarrow> visit_node ast_node None None) sources)) @
        (if json_get root ''nodeType'' \<noteq> None then visit_node root None None else [])\<rparr>"

text \<open>\<open>from_combined_json\<close>: \<open>from_str\<close> is \<open>serde_json::from_str\<close>.\<close>

definition from_combined_json :: "(string \<Rightarrow> json option) \<Rightarrow> string \<Rightarrow> solidity_ast option" where
  "from_combined_json from_str json = map_option ast_of_json (from_str json)"

section \<open>Lemmas\<close>

text \<open>A range printed as solc prints it (\<open>s:l:f\<close>) is read back.\<close>

definition print_range :: "source_range \<Rightarrow> string" where
  "print_range r = join_with '':''
     [show_int (sr_offset r), show_int (sr_length r), show_int (sr_file_index r)]"

definition range_ok :: "source_range \<Rightarrow> bool" where
  "range_ok r \<longleftrightarrow>
     i32_range (sr_offset r) \<and> i32_range (sr_length r) \<and> i32_range (sr_file_index r)"

lemma split_print_range:
  "split_on CHR '':'' (print_range r) =
     [show_int (sr_offset r), show_int (sr_length r), show_int (sr_file_index r)]"
  unfolding print_range_def
  by (rule split_on_join) (auto simp: show_int_avoids digit_val_def)

lemma source_range_parse_print: "range_ok r \<Longrightarrow> source_range_parse (print_range r) = Some r"
  by (simp add: source_range_parse_def split_print_range vec_get_def parse_i32_show_int range_ok_def)

text \<open>Without overflow a range is the half-open interval its doc comment states.\<close>

lemma contains_offset_interval:
  "i32_range (sr_offset r + sr_length r) \<Longrightarrow>
     contains_offset r off \<longleftrightarrow> off \<in> {sr_offset r..<sr_offset r + sr_length r}"
  by (auto simp: contains_offset_def wrap_i32_id)

lemma vars_in_scope_iff:
  "v \<in> set (vars_in_scope_at f off) \<longleftrightarrow>
     v \<in> set (fd_parameters f) \<or> (v \<in> set (fd_local_variables f) \<and> vd_declaration_offset v \<le> off)"
  by (auto simp: vars_in_scope_at_def)

lemma vars_in_scope_mono:
  "off \<le> off' \<Longrightarrow> set (vars_in_scope_at f off) \<subseteq> set (vars_in_scope_at f off')"
  by (auto simp: vars_in_scope_iff)

lemma function_at_Some:
  "function_at ast off fi = Some f \<Longrightarrow>
     f \<in> set (ast_functions ast) \<and> sr_file_index (fd_src f) = fi \<and> contains_offset (fd_src f) off"
  by (auto simp: function_at_def dest: min_by_key_Some)

lemma str_contains_subset: "str_contains s p \<Longrightarrow> set p \<subseteq> set s"
proof (induction s)
  case Nil
  then show ?case by simp
next
  case (Cons c s)
  then show ?case by (auto simp: starts_with_iff) (metis UnI1 set_ConsD set_append)
qed

lemma starts_with_subset: "starts_with s p \<Longrightarrow> set p \<subseteq> set s"
  by (auto simp: starts_with_iff)

lemma ends_with_subset: "ends_with s p \<Longrightarrow> set p \<subseteq> set s"
  by (metis ends_with_def set_drop_subset)

lemma missing_char:
  assumes "c \<in> set p" "c \<notin> set s"
  shows "\<not> str_contains s p" "\<not> starts_with s p" "\<not> ends_with s p"
  using assms str_contains_subset starts_with_subset ends_with_subset by (meson subsetD)+

text \<open>A statement node reached from a body through the keys the collector follows.\<close>

inductive reaches :: "json \<Rightarrow> json \<Rightarrow> bool" where
  here: "reaches node node"
| array_child: "key \<in> set local_var_keys \<Longrightarrow> json_get node key = Some child \<Longrightarrow>
     as_array child = Some arr \<Longrightarrow> item \<in> set arr \<Longrightarrow> reaches item d \<Longrightarrow> reaches node d"
| single_child: "key \<in> set local_var_keys \<Longrightarrow> json_get node key = Some child \<Longrightarrow>
     as_array child = None \<Longrightarrow> reaches child d \<Longrightarrow> reaches node d"

definition collect_key :: "json \<Rightarrow> string \<Rightarrow> var_decl list" where
  "collect_key node = (\<lambda>key.
     case json_get node key of
        None \<Rightarrow> []
      | Some child \<Rightarrow>
          (case as_array child of
             Some arr \<Rightarrow> concat (map collect_local_vars arr)
           | None \<Rightarrow> collect_local_vars child))"

lemma collect_key_subset:
  "key \<in> set local_var_keys \<Longrightarrow> set (collect_key node key) \<subseteq> set (collect_local_vars node)"
proof -
  assume "key \<in> set local_var_keys"
  then have "set (collect_key node key) \<subseteq> set (concat (map (collect_key node) local_var_keys))"
    unfolding set_concat set_map by blast
  moreover have "collect_local_vars node =
     (if node_type node = ''VariableDeclarationStatement'' then statement_vars node else []) @
     concat (map (collect_key node) local_var_keys) @
     (if node_type node = ''TryCatchClause''
      then (case param_nodes node ''parameters'' of None \<Rightarrow> [] | Some ps \<Rightarrow> named_vars ps)
      else [])"
    unfolding collect_key_def by (rule collect_local_vars.simps)
  then have "set (concat (map (collect_key node) local_var_keys)) \<subseteq> set (collect_local_vars node)"
    by (elim ssubst) (simp only: set_append, intro le_supI2 le_supI1 subset_refl)
  ultimately show ?thesis by (rule subset_trans)
qed

lemma collect_array_child:
  assumes "key \<in> set local_var_keys" "json_get node key = Some child" "as_array child = Some arr"
    "item \<in> set arr"
  shows "set (collect_local_vars item) \<subseteq> set (collect_local_vars node)"
  using collect_key_subset [OF assms(1), of node] assms(2-) by (auto simp: collect_key_def)

lemma collect_single_child:
  assumes "key \<in> set local_var_keys" "json_get node key = Some child" "as_array child = None"
  shows "set (collect_local_vars child) \<subseteq> set (collect_local_vars node)"
  using collect_key_subset [OF assms(1), of node] assms(2-) by (auto simp: collect_key_def)

lemma reaches_collect:
  "reaches node d \<Longrightarrow> set (collect_local_vars d) \<subseteq> set (collect_local_vars node)"
  by (induction rule: reaches.induct) (use collect_array_child collect_single_child in blast)+

lemma catch_vars_collected:
  "node_type d = ''TryCatchClause'' \<Longrightarrow> param_nodes d ''parameters'' = Some ps \<Longrightarrow>
     set (named_vars ps) \<subseteq> set (collect_local_vars d)"
  by (subst collect_local_vars.simps) auto

text \<open>
  The statements inside a statement, as solc lays them out: the node types that have statements
  below them and the fields that hold these.
\<close>

inductive in_statement :: "json \<Rightarrow> json \<Rightarrow> bool" where
  itself: "in_statement s s"
| in_block: "node_type s \<in> {''Block'', ''UncheckedBlock''} \<Longrightarrow> json_get s ''statements'' = Some (JArr ss) \<Longrightarrow>
     x \<in> set ss \<Longrightarrow> in_statement x d \<Longrightarrow> in_statement s d"
| in_branch: "node_type s = ''IfStatement'' \<Longrightarrow> field \<in> {''trueBody'', ''falseBody''} \<Longrightarrow>
     json_get s field = Some c \<Longrightarrow> as_object c \<noteq> None \<Longrightarrow> in_statement c d \<Longrightarrow> in_statement s d"
| in_for: "node_type s = ''ForStatement'' \<Longrightarrow> field \<in> {''initializationExpression'', ''loopExpression'', ''body''} \<Longrightarrow>
     json_get s field = Some c \<Longrightarrow> as_object c \<noteq> None \<Longrightarrow> in_statement c d \<Longrightarrow> in_statement s d"
| in_while: "node_type s \<in> {''WhileStatement'', ''DoWhileStatement''} \<Longrightarrow>
     json_get s ''body'' = Some c \<Longrightarrow> as_object c \<noteq> None \<Longrightarrow> in_statement c d \<Longrightarrow> in_statement s d"
| in_try: "node_type s = ''TryStatement'' \<Longrightarrow> json_get s ''clauses'' = Some (JArr cs) \<Longrightarrow>
     x \<in> set cs \<Longrightarrow> in_statement x d \<Longrightarrow> in_statement s d"
| in_clause: "node_type s = ''TryCatchClause'' \<Longrightarrow>
     json_get s ''block'' = Some c \<Longrightarrow> as_object c \<noteq> None \<Longrightarrow> in_statement c d \<Longrightarrow> in_statement s d"

lemma object_no_array: "as_object c \<noteq> None \<Longrightarrow> as_array c = None"
  by (cases c) (simp_all add: as_object_def as_array_def)

lemma in_statement_reaches: "in_statement s d \<Longrightarrow> reaches s d"
proof (induction rule: in_statement.induct)
  case (itself s)
  show ?case by (rule reaches.here)
next
  case (in_block s ss x d)
  then show ?case by (intro array_child [of "''statements''" s "JArr ss" ss x d]) (simp_all add: local_var_keys_def as_array_def)
next
  case (in_branch s field c d)
  then show ?case by (intro single_child [of field s c d]) (auto simp: local_var_keys_def object_no_array)
next
  case (in_for s field c d)
  then show ?case by (intro single_child [of field s c d]) (auto simp: local_var_keys_def object_no_array)
next
  case (in_while s c d)
  then show ?case by (intro single_child [of "''body''" s c d]) (simp_all add: local_var_keys_def object_no_array)
next
  case (in_try s cs x d)
  then show ?case by (intro array_child [of "''clauses''" s "JArr cs" cs x d]) (simp_all add: local_var_keys_def as_array_def)
next
  case (in_clause s c d)
  then show ?case by (intro single_child [of "''block''" s c d]) (simp_all add: local_var_keys_def object_no_array)
qed

lemma statement_vars_collected:
  "node_type d = ''VariableDeclarationStatement'' \<Longrightarrow>
     set (statement_vars d) \<subseteq> set (collect_local_vars d)"
  by (subst collect_local_vars.simps) auto

text \<open>The documents solc emits for a compilation unit: contracts holding function nodes.\<close>

definition contract_node :: "string \<times> string \<times> json list \<Rightarrow> json" where
  "contract_node = (\<lambda>(name, kind, fs).
     JObj [(''nodeType'', JStr ''ContractDefinition''), (''name'', JStr name),
           (''contractKind'', JStr kind), (''nodes'', JArr fs)])"

definition source_unit :: "(string \<times> string \<times> json list) list \<Rightarrow> json" where
  "source_unit cs =
     JObj [(''nodeType'', JStr ''SourceUnit''), (''nodes'', JArr (map contract_node cs))]"

definition contract_functions :: "string \<times> string \<times> json list \<Rightarrow> function_def list" where
  "contract_functions = (\<lambda>(name, kind, fs).
     concat (map (\<lambda>n. case parse_function n of
        None \<Rightarrow> []
      | Some f \<Rightarrow> [f\<lparr>fd_contract_name := Some name, fd_contract_kind := Some kind\<rparr>]) fs))"

definition function_node :: "json \<Rightarrow> bool" where
  "function_node n \<longleftrightarrow> get_str n ''nodeType'' = Some ''FunctionDefinition''"

lemma visit_function_node:
  "function_node n \<Longrightarrow> visit_node n cn ck =
     (case parse_function n of
        None \<Rightarrow> []
      | Some f \<Rightarrow> [f\<lparr>fd_contract_name := cn, fd_contract_kind := ck\<rparr>])"
  by (subst visit_node.simps) (simp add: function_node_def split: option.split)

lemma visit_contract_node:
  "\<forall>n\<in>set fs. function_node n \<Longrightarrow>
     visit_node (contract_node (name, kind, fs)) cn ck = contract_functions (name, kind, fs)"
  by (subst visit_node.simps, subst visit_children.simps)
     (auto simp: contract_node_def contract_functions_def json_access visit_function_node
        intro!: arg_cong [where f = concat] map_cong)

section \<open>Properties\<close>



text \<open>Overrides stay apart in the trace: two functions of the same bare name that belong to
  contracts of different names are displayed under different names, each qualified by its
  contract.\<close>

theorem qualified_names_distinct:
  assumes "f \<in> set (ast_functions ast)" "g \<in> set (ast_functions ast)"
    and "fd_name f = fd_name g"
    and "fd_contract_name f = Some p" "fd_contract_name g = Some q" "p \<noteq> q"
  shows "qualified_function_name ast f = p @ ''.'' @ fd_name f \<and>
         qualified_function_name ast g = q @ ''.'' @ fd_name g \<and>
         qualified_function_name ast f \<noteq> qualified_function_name ast g"
proof -
  have "name_collides ast f p" "name_collides ast g q"
    using assms by (auto simp: name_collides_def list_ex_iff)
  with assms show ?thesis by (simp add: qualified_function_name_def)
qed

definition foo_of :: "string \<Rightarrow> int \<Rightarrow> function_def" where
  "foo_of c off = \<lparr>fd_name = ''foo'', fd_src = \<lparr>sr_offset = off, sr_length = 20, sr_file_index = 0\<rparr>,
     fd_parameters = [], fd_local_variables = [], fd_contract_name = Some c,
     fd_contract_kind = Some ''contract''\<rparr>"

theorem qualified_names_distinct_witness:
  "qualified_function_name \<lparr>ast_functions = [foo_of ''Base'' 10, foo_of ''Leaf'' 50]\<rparr> (foo_of ''Base'' 10)
     = ''Base.foo''"
  using qualified_names_distinct
    [of "foo_of ''Base'' 10" "\<lparr>ast_functions = [foo_of ''Base'' 10, foo_of ''Leaf'' 50]\<rparr>"
        "foo_of ''Leaf'' 50" "''Base''" "''Leaf''"]
  by (simp add: foo_of_def)

text \<open>The visitor loses no function: from a source unit made of contracts that hold function
  nodes it extracts, contract by contract and in source order, exactly the functions that
  \<open>parse_function\<close> reads, each stamped with the name and the kind of its own contract.\<close>

theorem visit_source_unit:
  assumes "\<forall>c\<in>set cs. \<forall>n\<in>set (snd (snd c)). function_node n"
  shows "visit_node (source_unit cs) None None = concat (map contract_functions cs)"
proof -
  have "visit_node (contract_node c) None None = contract_functions c" if "c \<in> set cs" for c
    using assms that by (cases c) (auto simp: visit_contract_node)
  then have "concat (map (\<lambda>c. visit_node (contract_node c) None None) cs) =
      concat (map contract_functions cs)"
    by (intro arg_cong [where f = concat] map_cong) auto
  then show ?thesis
    by (subst visit_node.simps, subst visit_children.simps)
       (simp add: source_unit_def json_access comp_def)
qed

definition fun_json :: "string \<Rightarrow> string \<Rightarrow> json" where
  "fun_json name src = JObj [(''nodeType'', JStr ''FunctionDefinition''), (''src'', JStr src),
     (''name'', JStr name)]"

theorem visit_source_unit_witness:
  "map (\<lambda>f. (fd_name f, fd_contract_name f, fd_contract_kind f))
     (visit_node (source_unit [(''Math'', ''library'', [fun_json ''add'' ''0:9:0'']),
                               (''C'', ''contract'', [fun_json ''run'' ''20:9:0''])]) None None)
   = [(''add'', Some ''Math'', Some ''library''), (''run'', Some ''C'', Some ''contract'')]"
  by (subst visit_source_unit)
     (simp_all add: function_node_def fun_json_def json_access contract_functions_def
        parse_function_def source_range_parse_def vec_get_def function_name_of_def
        parse_i32_def parse_unsigned_def digit_val_def)

text \<open>C39: The parsed function loses no local variable. Every variable that solc's syntax tree
  declares in a statement of the body (in blocks, branches, loops and loop headers, try and catch
  clauses, at any depth) is one of its local variables, and carries the range of its declaration
  statement; so is every parameter of a catch clause.\<close>

theorem parse_function_collects_locals:
  assumes "parse_function node = Some f" and "json_get node ''body'' = Some body" and "in_statement body d"
  shows "(node_type d = ''VariableDeclarationStatement'' \<and> v \<in> set (statement_vars d) \<longrightarrow>
      v \<in> set (fd_local_variables f) \<and>
      vd_statement_range v = Option.bind (get_str d ''src'') source_range_parse) \<and>
    (node_type d = ''TryCatchClause'' \<and> param_nodes d ''parameters'' = Some ps \<and> v \<in> set (named_vars ps) \<longrightarrow>
      v \<in> set (fd_local_variables f))"
proof -
  have local: "v \<in> set (fd_local_variables f)" if "v \<in> set (collect_local_vars d)"
    using that reaches_collect [OF in_statement_reaches [OF assms(3)]] assms(1,2)
    by (auto simp: parse_function_def split: option.splits)
  have "vd_statement_range v = Option.bind (get_str d ''src'') source_range_parse" if "v \<in> set (statement_vars d)"
    using that by (auto simp: statement_vars_def Let_def split: option.splits if_splits)
  with local statement_vars_collected [of d] catch_vars_collected [of d ps] show ?thesis by blast
qed

text \<open>An example: a loop header in the else branch of a catch clause.\<close>

definition node_json :: "string \<Rightarrow> (string \<times> json) list \<Rightarrow> json" where
  "node_json t fs = JObj ((''nodeType'', JStr t) # fs)"

definition decl_stmt_json :: json where
  "decl_stmt_json = node_json ''VariableDeclarationStatement'' [(''src'', JStr ''30:9:0''),
     (''declarations'', JArr [JNull, JObj [(''name'', JStr ''i''), (''src'', JStr ''30:6:0'')]])]"

definition clause_json :: json where
  "clause_json = node_json ''TryCatchClause''
     [(''block'', node_json ''Block'' [(''statements'', JArr
        [node_json ''IfStatement'' [(''falseBody'', node_json ''ForStatement''
           [(''initializationExpression'', decl_stmt_json)])]])])]"

definition body_json :: json where
  "body_json = node_json ''Block'' [(''statements'', JArr [node_json ''TryStatement'' [(''clauses'', JArr [clause_json])]])]"

definition loop_fun_json :: json where
  "loop_fun_json = node_json ''FunctionDefinition'' [(''src'', JStr ''0:90:0''), (''body'', body_json)]"

lemma node_type_json [simp]: "node_type (node_json t fs) = t"
  by (simp add: node_type_def node_json_def json_access)

lemma node_json_field [simp]: "k \<noteq> ''nodeType'' \<Longrightarrow> json_get (node_json t ((k, c) # fs)) k = Some c"
  by (simp add: node_json_def json_get_def)

lemma node_json_object [simp]: "as_object (node_json t fs) \<noteq> None"
  by (simp add: node_json_def as_object_def)

lemma example_in_statement: "in_statement body_json decl_stmt_json"
proof -
  let ?for = "node_json ''ForStatement'' [(''initializationExpression'', decl_stmt_json)]"
  let ?if = "node_json ''IfStatement'' [(''falseBody'', ?for)]"
  let ?outer = "node_json ''TryStatement'' [(''clauses'', JArr [clause_json])]"
  let ?block = "node_json ''Block'' [(''statements'', JArr [?if])]"
  have "as_object decl_stmt_json \<noteq> None" unfolding decl_stmt_json_def by (rule node_json_object)
  then have "in_statement ?for decl_stmt_json"
    by (intro in_for [of ?for "''initializationExpression''" decl_stmt_json] in_statement.itself) simp_all
  then have "in_statement ?if decl_stmt_json"
    by (intro in_branch [of ?if "''falseBody''" ?for]) simp_all
  then have "in_statement ?block decl_stmt_json"
    by (intro in_block [of ?block "[?if]" ?if]) simp_all
  then have "in_statement clause_json decl_stmt_json"
    by (intro in_clause [of clause_json ?block]) (simp_all add: clause_json_def)
  then have "in_statement ?outer decl_stmt_json"
    by (intro in_try [of ?outer "[clause_json]" clause_json]) simp_all
  then show ?thesis
    by (intro in_block [of body_json "[?outer]" ?outer]) (simp_all add: body_json_def)
qed

theorem parse_function_collects_locals_witness:
  "\<exists>f v. parse_function loop_fun_json = Some f \<and> v \<in> set (fd_local_variables f) \<and> vd_name v = ''i''"
proof -
  obtain f where f: "parse_function loop_fun_json = Some f"
    by (simp add: loop_fun_json_def node_json_def parse_function_def json_access source_range_parse_def
        vec_get_def parse_i32_def parse_unsigned_def digit_val_def)
  have b: "json_get loop_fun_json ''body'' = Some body_json"
    by (simp add: loop_fun_json_def node_json_def json_get_def)
  have v: "\<lparr>vd_name = ''i'', vd_type_name = ''uint256'',
       vd_src = \<lparr>sr_offset = 30, sr_length = 6, sr_file_index = 0\<rparr>, vd_declaration_offset = 30,
       vd_statement_range = Some \<lparr>sr_offset = 30, sr_length = 9, sr_file_index = 0\<rparr>\<rparr>
      \<in> set (statement_vars decl_stmt_json)" (is "?v \<in> _")
    by (simp add: decl_stmt_json_def node_json_def statement_vars_def json_access source_range_parse_def is_null_def
        vec_get_def parse_i32_def parse_unsigned_def digit_val_def parse_var_decl_node_def
        decl_type_name_def)
  have "node_type decl_stmt_json = ''VariableDeclarationStatement''" by (simp add: decl_stmt_json_def)
  with parse_function_collects_locals [OF f b example_in_statement] v
  have "?v \<in> set (fd_local_variables f)" by blast
  with f show ?thesis by (intro exI [of _ f] exI [of _ ?v]) simp
qed

text \<open>A struct-typed memory local is never memory resident for the recorder: solc names its
  type through \<open>typeName.pathNode.name\<close>, which \<open>parse_var_decl_node\<close> prefers to the
  \<open>typeString\<close>, so the declaration is classified as a stack value although the type string
  \<open>struct S memory\<close> itself is classified as memory.\<close>

definition is_ident :: "string \<Rightarrow> bool" where
  "is_ident s \<longleftrightarrow> s \<noteq> [] \<and> (\<forall>c\<in>set s. \<not> is_ws c \<and> c \<noteq> CHR '']'') \<and>
     \<not> starts_with s ''mapping'' \<and> s \<noteq> ''bytes'' \<and> s \<noteq> ''string''"

lemma identifier_is_stack: "is_ident s \<Longrightarrow> classify_type_name s = StackKind"
proof -
  assume a: "is_ident s"
  have "is_ws CHR '' ''" by (simp add: is_ws_def)
  with a have "CHR '' '' \<notin> set s" "CHR '']'' \<notin> set s" unfolding is_ident_def by blast+
  then have "\<not> str_contains s '' memory''" "\<not> starts_with s ''struct ''"
      "\<not> ends_with s ''[]''" "\<not> ends_with s '']''"
    by (intro missing_char(1) [where c = "CHR '' ''"] missing_char(2) [where c = "CHR '' ''"]
          missing_char(3) [where c = "CHR '']''"]; simp)+
  moreover have "trim s = s" using a by (intro trim_no_ws) (simp add: is_ident_def)
  moreover have "s \<noteq> []" "\<not> starts_with s ''mapping''" "s \<noteq> ''bytes''" "s \<noteq> ''string''"
    using a by (simp_all only: is_ident_def simp_thms)
  ultimately show ?thesis by (simp only: classify_type_name_def Let_def simp_thms if_True if_False)
      (simp split: if_splits)
qed

theorem struct_local_not_memory_resident:
  assumes "is_ident s" "parse_var_decl_node node = Some v"
    and "json_get node ''typeName'' = Some tn" "get_str tn ''name'' = None"
    and "json_get tn ''pathNode'' = Some pn" "get_str pn ''name'' = Some s"
  shows "\<not> is_memory_resident v \<and> vd_type_name v = s \<and>
         classify_type_name (''struct '' @ s @ '' memory'') = MemoryKind"
proof -
  have t: "vd_type_name v = s"
    using assms by (auto simp: parse_var_decl_node_def decl_type_name_def type_name_of_node_def
        split: option.splits)
  have "trim (''struct '' @ s @ '' memory'') = ''struct '' @ s @ '' memory''"
    by (simp add: trim_def trim_start_def is_ws_def)
  moreover have "str_contains (''struct '' @ s @ '' memory'') '' memory''"
    using str_contains_append [of "''struct '' @ s" "'' memory''" "[]"] by simp
  ultimately have "classify_type_name (''struct '' @ s @ '' memory'') = MemoryKind"
    unfolding classify_type_name_def by (simp only: Let_def) simp
  with t identifier_is_stack [OF assms(1)] show ?thesis
    by (simp add: is_memory_resident_def storage_kind_def)
qed

definition pair_decl_json :: json where
  "pair_decl_json = JObj [(''name'', JStr ''p''), (''src'', JStr ''10:13:0''),
     (''typeName'', JObj [(''pathNode'', JObj [(''name'', JStr ''Pair'')])]),
     (''typeDescriptions'', JObj [(''typeString'', JStr ''struct Pair memory'')])]"

theorem struct_local_not_memory_resident_witness:
  "\<exists>v. parse_var_decl_node pair_decl_json = Some v \<and> \<not> is_memory_resident v"
proof -
  obtain v where v: "parse_var_decl_node pair_decl_json = Some v"
    by (simp add: pair_decl_json_def parse_var_decl_node_def json_access source_range_parse_def
        vec_get_def parse_i32_def parse_unsigned_def digit_val_def)
  then show ?thesis
    using struct_local_not_memory_resident [of "''Pair''" pair_decl_json v
        "JObj [(''pathNode'', JObj [(''name'', JStr ''Pair'')])]" "JObj [(''name'', JStr ''Pair'')]"]
    by (auto simp: pair_decl_json_def json_access is_ident_def is_ws_def starts_with_def)
qed

end
