(* ===== verification/Frame_Stack.thy ===== *)
theory Frame_Stack
  imports Rust_Text
begin

text \<open>
  The contract of everything in the recorder that follows the EVM's call depth: a state with a
  stack of open frames, an operation that opens a frame and one that closes the innermost one
  (and does nothing at the outermost). \<open>frame_stack\<close> states the contract over the list of open
  frames, \<open>call_depth\<close> over its length only; the first gives the second. The call tree and the
  revm inspector interpret it.
\<close>

datatype ('e, 'x) frame_event = Enter 'e | Leave 'x

fun run_frames ::
  "('e \<Rightarrow> 's \<Rightarrow> 's option) \<Rightarrow> ('x \<Rightarrow> 's \<Rightarrow> 's option) \<Rightarrow> ('e, 'x) frame_event list \<Rightarrow> 's \<Rightarrow> 's option"
where
  "run_frames enter leave [] s = Some s"
| "run_frames enter leave (Enter e # evs) s =
     (case enter e s of None \<Rightarrow> None | Some s' \<Rightarrow> run_frames enter leave evs s')"
| "run_frames enter leave (Leave x # evs) s =
     (case leave x s of None \<Rightarrow> None | Some s' \<Rightarrow> run_frames enter leave evs s')"

lemma run_frames_append:
  "run_frames en le (xs @ ys) s =
     (case run_frames en le xs s of None \<Rightarrow> None | Some s' \<Rightarrow> run_frames en le ys s')"
  by (induction en le xs s rule: run_frames.induct) (simp_all split: option.split)

text \<open>The depth a sequence of events leads to; leaving at depth 0 stays there.\<close>

fun depth_after :: "('e, 'x) frame_event list \<Rightarrow> nat \<Rightarrow> nat" where
  "depth_after [] d = d"
| "depth_after (Enter e # evs) d = depth_after evs (Suc d)"
| "depth_after (Leave x # evs) d = depth_after evs (d - 1)"

lemma depth_after_append: "depth_after (xs @ ys) d = depth_after ys (depth_after xs d)"
  by (induction xs d rule: depth_after.induct) simp_all

text \<open>Well-bracketed sequences: every entered frame is left.\<close>

inductive bracketed :: "('e, 'x) frame_event list \<Rightarrow> bool" where
  bracketed_Nil: "bracketed []"
| bracketed_call: "bracketed xs \<Longrightarrow> bracketed ys \<Longrightarrow> bracketed (Enter e # xs @ Leave x # ys)"

lemma bracketed_depth: "bracketed evs \<Longrightarrow> depth_after evs d = d"
  by (induction arbitrary: d rule: bracketed.induct) (simp_all add: depth_after_append)

locale call_depth =
  fixes enter :: "'e \<Rightarrow> 's \<Rightarrow> 's option"
    and leave :: "'x \<Rightarrow> 's \<Rightarrow> 's option"
    and ok :: "'s \<Rightarrow> bool"
    and depth :: "'s \<Rightarrow> nat"
  assumes enter_depth:
      "ok s \<Longrightarrow> \<exists>s'. enter e s = Some s' \<and> ok s' \<and> depth s' = Suc (depth s)"
    and leave_depth:
      "ok s \<Longrightarrow> \<exists>s'. leave x s = Some s' \<and> ok s' \<and> depth s' = depth s - 1"
begin

lemma run_depth:
  "ok s \<Longrightarrow> \<exists>s'. run_frames enter leave evs s = Some s' \<and> ok s' \<and> depth s' = depth_after evs (depth s)"
proof (induction evs arbitrary: s)
  case Nil
  then show ?case by simp
next
  case (Cons ev evs)
  show ?case
  proof (cases ev)
    case (Enter e)
    from enter_depth [OF Cons.prems, of e] obtain s' where
      "enter e s = Some s'" "ok s'" "depth s' = Suc (depth s)" by blast
    with Cons.IH [of s'] Enter show ?thesis by simp
  next
    case (Leave x)
    from leave_depth [OF Cons.prems, of x] obtain s' where
      "leave x s = Some s'" "ok s'" "depth s' = depth s - 1" by blast
    with Cons.IH [of s'] Leave show ?thesis by simp
  qed
qed

lemma run_bracketed:
  "ok s \<Longrightarrow> bracketed evs \<Longrightarrow>
     \<exists>s'. run_frames enter leave evs s = Some s' \<and> ok s' \<and> depth s' = depth s"
  using run_depth [of s evs] by (simp add: bracketed_depth)

end

locale frame_stack =
  fixes enter :: "'e \<Rightarrow> 's \<Rightarrow> 's option"
    and leave :: "'x \<Rightarrow> 's \<Rightarrow> 's option"
    and ok :: "'s \<Rightarrow> bool"
    and frames :: "'s \<Rightarrow> 'f list"
  assumes enter_frames:
      "ok s \<Longrightarrow> \<exists>s' f. enter e s = Some s' \<and> ok s' \<and> frames s' = frames s @ [f]"
    and leave_frames:
      "ok s \<Longrightarrow> \<exists>s'. leave x s = Some s' \<and> ok s' \<and> frames s' = butlast (frames s)"

sublocale frame_stack \<subseteq> call_depth enter leave ok "\<lambda>s. length (frames s)"
proof unfold_locales
  fix s e
  assume "ok s"
  from enter_frames [OF this, of e]
  show "\<exists>s'. enter e s = Some s' \<and> ok s' \<and> length (frames s') = Suc (length (frames s))" by auto
next
  fix s x
  assume "ok s"
  from leave_frames [OF this, of x]
  show "\<exists>s'. leave x s = Some s' \<and> ok s' \<and> length (frames s') = length (frames s) - 1" by auto
qed

context frame_stack
begin

lemma run_restores:
  "bracketed evs \<Longrightarrow> ok s \<Longrightarrow>
     \<exists>s'. run_frames enter leave evs s = Some s' \<and> ok s' \<and> frames s' = frames s"
proof (induction evs arbitrary: s rule: bracketed.induct)
  case bracketed_Nil
  then show ?case by simp
next
  case (bracketed_call xs ys e x)
  obtain s1 f where 1: "enter e s = Some s1" "ok s1" "frames s1 = frames s @ [f]"
    using enter_frames [OF bracketed_call.prems] by blast
  obtain s2 where 2: "run_frames enter leave xs s1 = Some s2" "ok s2" "frames s2 = frames s1"
    using bracketed_call.IH(1) [OF 1(2)] by blast
  obtain s3 where 3: "leave x s2 = Some s3" "ok s3" "frames s3 = butlast (frames s2)"
    using leave_frames [OF 2(2)] by blast
  from 1 2 3 bracketed_call.IH(2) [OF 3(2)] show ?case by (simp add: run_frames_append)
qed

end

end
