(* ===== verification/Call_Tree.thy ===== *)
theory Call_Tree
  imports Frame_Stack
begin

text \<open>
  \<^verbatim>\<open>src/call_tree.rs\<close>: the tree of call frames of a multi-contract trace, built by
  \<open>enter_call\<close> and \<open>exit_call\<close> along a path from the root to the current node. Indexing a
  missing child panics in the source, so the operations answer \<open>None\<close> there; the invariant
  \<open>path_ok\<close> excludes it. The lemmas show that a recorded tree is exactly the tree of the calls
  that were executed.
\<close>

section \<open>Data\<close>

datatype call_type = Call | DelegateCall | StaticCall | Create | Create2 | Transaction

datatype call_node =
  CallNode (cn_address: address) (cn_function_name: string) (cn_call_type: call_type)
    (cn_children: "call_node list") (cn_step_range: "nat \<times> nat")

record call_tree =
  ct_root :: call_node
  ct_path :: "nat list"

definition call_node_new :: "address \<Rightarrow> call_type \<Rightarrow> nat \<Rightarrow> call_node" where
  "call_node_new address ty start_step = CallNode address [] ty [] (start_step, 0)"

section \<open>Operations\<close>

definition call_tree_new :: "address \<Rightarrow> call_tree" where
  "call_tree_new root_address = \<lparr>ct_root = call_node_new root_address Transaction 0, ct_path = []\<rparr>"

text \<open>Following a path, to read (\<open>current\<close>) and to update (\<open>current_mut\<close>).\<close>

fun node_at :: "call_node \<Rightarrow> nat list \<Rightarrow> call_node option" where
  "node_at n [] = Some n"
| "node_at n (i # is) =
     (if i < length (cn_children n) then node_at (cn_children n ! i) is else None)"

definition set_children :: "call_node list \<Rightarrow> call_node \<Rightarrow> call_node" where
  "set_children cs n =
     CallNode (cn_address n) (cn_function_name n) (cn_call_type n) cs (cn_step_range n)"

fun update_at :: "(call_node \<Rightarrow> call_node) \<Rightarrow> nat list \<Rightarrow> call_node \<Rightarrow> call_node option" where
  "update_at f [] n = Some (f n)"
| "update_at f (i # is) n =
     (if i < length (cn_children n)
      then (case update_at f is (cn_children n ! i) of
              None \<Rightarrow> None
            | Some c \<Rightarrow> Some (set_children ((cn_children n)[i := c]) n))
      else None)"

definition push_child :: "call_node \<Rightarrow> call_node \<Rightarrow> call_node" where
  "push_child c n = set_children (cn_children n @ [c]) n"

definition set_end_step :: "nat \<Rightarrow> call_node \<Rightarrow> call_node" where
  "set_end_step step n =
     CallNode (cn_address n) (cn_function_name n) (cn_call_type n) (cn_children n)
       (fst (cn_step_range n), step)"

definition enter_call :: "address \<Rightarrow> call_type \<Rightarrow> nat \<Rightarrow> call_tree \<Rightarrow> call_tree option" where
  "enter_call address ty step t =
     (case node_at (ct_root t) (ct_path t) of
        None \<Rightarrow> None
      | Some parent \<Rightarrow>
          (case update_at (push_child (call_node_new address ty step)) (ct_path t) (ct_root t) of
             None \<Rightarrow> None
           | Some root' \<Rightarrow>
               Some \<lparr>ct_root = root', ct_path = ct_path t @ [length (cn_children parent)]\<rparr>))"

definition exit_call :: "nat \<Rightarrow> call_tree \<Rightarrow> call_tree option" where
  "exit_call step t =
     (if ct_path t = [] then Some t
      else (case update_at (set_end_step step) (ct_path t) (ct_root t) of
              None \<Rightarrow> None
            | Some root' \<Rightarrow> Some \<lparr>ct_root = root', ct_path = butlast (ct_path t)\<rparr>))"

definition is_at_root :: "call_tree \<Rightarrow> bool" where
  "is_at_root t = (ct_path t = [])"

definition current_node :: "call_tree \<Rightarrow> call_node option" where
  "current_node t = node_at (ct_root t) (ct_path t)"

section \<open>Paths\<close>

definition path_ok :: "call_tree \<Rightarrow> bool" where
  "path_ok t \<longleftrightarrow> node_at (ct_root t) (ct_path t) \<noteq> None"

lemma set_children_simps [simp]:
  "cn_children (set_children cs n) = cs" "cn_address (set_children cs n) = cn_address n"
  "cn_call_type (set_children cs n) = cn_call_type n"
  "cn_function_name (set_children cs n) = cn_function_name n"
  "cn_step_range (set_children cs n) = cn_step_range n"
  "set_children cs (set_children ds n) = set_children cs n"
  by (simp_all add: set_children_def)

lemma push_child_children [simp]: "cn_children (push_child c n) = cn_children n @ [c]"
  by (simp add: push_child_def)

lemma set_end_step_children [simp]: "cn_children (set_end_step k n) = cn_children n"
  by (simp add: set_end_step_def)

lemma node_at_append:
  "node_at n (p @ q) = (case node_at n p of None \<Rightarrow> None | Some m \<Rightarrow> node_at m q)"
  by (induction n p rule: node_at.induct) (simp_all split: option.split)

lemma node_at_butlast: "node_at n p \<noteq> None \<Longrightarrow> node_at n (butlast p) \<noteq> None"
  by (cases p rule: rev_cases) (auto simp: node_at_append split: option.splits)

lemma update_at_Some:
  "node_at n p = Some m \<Longrightarrow> \<exists>n'. update_at f p n = Some n' \<and> node_at n' p = Some (f m)"
proof (induction n p arbitrary: m rule: node_at.induct)
  case (1 n)
  then show ?case by simp
next
  case (2 n i "is")
  then show ?case by (fastforce split: if_splits)
qed

lemma update_at_None: "node_at n p = None \<Longrightarrow> update_at f p n = None"
  by (induction n p rule: node_at.induct) (simp_all split: if_splits)

lemma node_at_update_at:
  assumes "update_at f p n = Some n'"
  shows "\<exists>m. node_at n p = Some m \<and> node_at n' p = Some (f m)"
  using assms update_at_None [of n p f] update_at_Some [of n p _ f]
  by (cases "node_at n p") auto

lemma update_at_twice:
  "update_at f p n = Some n' \<Longrightarrow> update_at g p n' = update_at (\<lambda>m. g (f m)) p n"
proof (induction p arbitrary: n n')
  case Nil
  then show ?case by auto
next
  case (Cons i p)
  from Cons.prems obtain c where c: "i < length (cn_children n)"
      "update_at f p (cn_children n ! i) = Some c" "n' = set_children ((cn_children n)[i := c]) n"
    by (auto split: if_splits option.splits)
  from Cons.IH [OF c(2)] c show ?case by (simp split: option.split)
qed

lemma update_at_below:
  "node_at n p = Some m \<Longrightarrow> update_at g q m = Some m' \<Longrightarrow>
     update_at g (p @ q) n = update_at (\<lambda>_. m') p n"
  by (induction n p arbitrary: m rule: node_at.induct) (auto split: if_splits)

lemma update_at_cong:
  "node_at n p = Some m \<Longrightarrow> f m = g m \<Longrightarrow> update_at f p n = update_at g p n"
  by (induction n p arbitrary: m rule: node_at.induct) (auto split: if_splits)

section \<open>The tree implements the frame stack\<close>

lemma enter_call_ok:
  assumes "path_ok t"
  shows "\<exists>t'. enter_call a ty step t = Some t' \<and> path_ok t' \<and>
     current_node t' = Some (call_node_new a ty step) \<and> (\<exists>i. ct_path t' = ct_path t @ [i])"
proof -
  obtain m where m: "node_at (ct_root t) (ct_path t) = Some m" using assms by (auto simp: path_ok_def)
  from update_at_Some [OF m, of "push_child (call_node_new a ty step)"] obtain r where
    "update_at (push_child (call_node_new a ty step)) (ct_path t) (ct_root t) = Some r"
    "node_at r (ct_path t) = Some (push_child (call_node_new a ty step) m)" by blast
  with m show ?thesis
    by (simp add: enter_call_def path_ok_def current_node_def node_at_append nth_append)
qed

lemma exit_call_ok:
  assumes "path_ok t"
  shows "\<exists>t'. exit_call step t = Some t' \<and> path_ok t' \<and> ct_path t' = butlast (ct_path t)"
proof (cases "ct_path t = []")
  case True
  with assms show ?thesis by (simp add: exit_call_def)
next
  case False
  obtain m where m: "node_at (ct_root t) (ct_path t) = Some m" using assms by (auto simp: path_ok_def)
  from update_at_Some [OF m, of "set_end_step step"] obtain r where
    "update_at (set_end_step step) (ct_path t) (ct_root t) = Some r"
    "node_at r (ct_path t) = Some (set_end_step step m)" by blast
  with False node_at_butlast [of r "ct_path t"] show ?thesis
    by (simp add: exit_call_def path_ok_def)
qed

lemma path_ok_new: "path_ok (call_tree_new a)"
  by (simp add: path_ok_def call_tree_new_def)

interpretation tree_frames:
  frame_stack "\<lambda>(a, ty, step). enter_call a ty step" exit_call path_ok ct_path
proof unfold_locales
  fix s and e :: "address \<times> call_type \<times> nat"
  assume "path_ok s"
  then show "\<exists>s' f. (case e of (a, ty, step) \<Rightarrow> enter_call a ty step) s = Some s' \<and> path_ok s' \<and>
      ct_path s' = ct_path s @ [f]"
    using enter_call_ok by (cases e) fastforce
next
  fix s x
  assume "path_ok s"
  then show "\<exists>s'. exit_call x s = Some s' \<and> path_ok s' \<and> ct_path s' = butlast (ct_path s)"
    by (rule exit_call_ok)
qed

section \<open>A recorded tree is the tree of the executed calls\<close>

type_synonym tree_event = "(address \<times> call_type \<times> nat, nat) frame_event"

definition run_tree :: "tree_event list \<Rightarrow> call_tree \<Rightarrow> call_tree option" where
  "run_tree = run_frames (\<lambda>(a, ty, step). enter_call a ty step) exit_call"

text \<open>The events a call and the calls it makes give rise to.\<close>

fun tree_events :: "call_node \<Rightarrow> tree_event list" where
  "tree_events (CallNode a fn ty cs rng) =
     Enter (a, ty, fst rng) # concat (map tree_events cs) @ [Leave (snd rng)]"

text \<open>The recorder leaves the function name of every node empty.\<close>

fun unnamed :: "call_node \<Rightarrow> bool" where
  "unnamed (CallNode a fn ty cs rng) \<longleftrightarrow> fn = [] \<and> (\<forall>c\<in>set cs. unnamed c)"

definition append_children :: "call_node list \<Rightarrow> call_node \<Rightarrow> call_node" where
  "append_children ns n = set_children (cn_children n @ ns) n"

lemma set_children_same [simp]: "set_children (cn_children n) n = n"
  by (cases n) (simp add: set_children_def)

lemma append_children_Nil: "append_children [] n = n"
  by (simp add: append_children_def)

lemma append_children_Cons:
  "append_children (c # cs) n = append_children cs (push_child c n)"
  by (simp add: append_children_def push_child_def)

lemma run_tree_append:
  "run_tree (xs @ ys) t = (case run_tree xs t of None \<Rightarrow> None | Some t' \<Rightarrow> run_tree ys t')"
  by (simp add: run_tree_def run_frames_append split: option.split)

text \<open>What recording one complete call does: it appends the call's node to the current one.\<close>

definition records :: "tree_event list \<Rightarrow> (call_node \<Rightarrow> call_node) \<Rightarrow> bool" where
  "records evs f \<longleftrightarrow> (\<forall>t m. current_node t = Some m \<longrightarrow>
     (\<exists>r. run_tree evs t = Some \<lparr>ct_root = r, ct_path = ct_path t\<rparr> \<and>
          update_at f (ct_path t) (ct_root t) = Some r))"

lemma recordsE:
  assumes "records evs f" "node_at r p = Some m"
  obtains r' where "run_tree evs \<lparr>ct_root = r, ct_path = p\<rparr> = Some \<lparr>ct_root = r', ct_path = p\<rparr>"
    "update_at f p r = Some r'"
  using assms(1) [unfolded records_def, rule_format, of "\<lparr>ct_root = r, ct_path = p\<rparr>" m] assms(2)
  by (auto simp: current_node_def)

lemma records_Nil: "records [] (append_children [])"
proof -
  have "update_at (append_children []) p n = Some n" if "node_at n p = Some m" for p n m
    using that by (induction n p rule: node_at.induct) (auto simp: append_children_Nil split: if_splits)
  then show ?thesis by (fastforce simp: records_def run_tree_def current_node_def)
qed

lemma records_append:
  assumes "records xs f" "records ys g"
  shows "records (xs @ ys) (\<lambda>m. g (f m))"
  unfolding records_def
proof (intro allI impI)
  fix t :: call_tree and m
  assume m: "current_node t = Some m"
  with assms(1) obtain r where r: "run_tree xs t = Some \<lparr>ct_root = r, ct_path = ct_path t\<rparr>"
      "update_at f (ct_path t) (ct_root t) = Some r" unfolding records_def by blast
  from node_at_update_at [OF r(2)] have "current_node \<lparr>ct_root = r, ct_path = ct_path t\<rparr> = Some (f m)"
    using m by (auto simp: current_node_def)
  then obtain r' where "run_tree ys \<lparr>ct_root = r, ct_path = ct_path t\<rparr> =
      Some \<lparr>ct_root = r', ct_path = ct_path t\<rparr>" "update_at g (ct_path t) r = Some r'"
    using recordsE [OF assms(2), of r "ct_path t"] by (auto simp: current_node_def)
  with r update_at_twice [OF r(2), of g]
  show "\<exists>r. run_tree (xs @ ys) t = Some \<lparr>ct_root = r, ct_path = ct_path t\<rparr> \<and>
      update_at (\<lambda>m. g (f m)) (ct_path t) (ct_root t) = Some r"
    by (simp add: run_tree_append)
qed

lemma records_forest:
  "\<forall>c\<in>set cs. records (tree_events c) (push_child c) \<Longrightarrow>
     records (concat (map tree_events cs)) (append_children cs)"
proof (induction cs)
  case Nil
  then show ?case by (simp add: records_Nil)
next
  case (Cons c cs)
  then have "records (tree_events c @ concat (map tree_events cs))
      (\<lambda>m. append_children cs (push_child c m))"
    by (intro records_append) auto
  then show ?case by (simp add: append_children_Cons [abs_def])
qed

lemma records_call:
  assumes "records evs (append_children cs)"
  shows "records (Enter (a, ty, s) # evs @ [Leave e]) (push_child (CallNode a [] ty cs (s, e)))"
  unfolding records_def
proof (intro allI impI)
  fix t :: call_tree and m
  assume m: "current_node t = Some m"
  let ?p = "ct_path t" and ?k = "length (cn_children m)" and ?new = "call_node_new a ty s"
  obtain r1 where r1: "update_at (push_child ?new) ?p (ct_root t) = Some r1"
      "node_at r1 ?p = Some (push_child ?new m)"
    using m update_at_Some [of "ct_root t" ?p m "push_child ?new"] by (auto simp: current_node_def)
  have at: "node_at r1 (?p @ [?k]) = Some ?new" using r1(2) by (simp add: node_at_append)
  obtain r2 where r2: "run_tree evs \<lparr>ct_root = r1, ct_path = ?p @ [?k]\<rparr> =
      Some \<lparr>ct_root = r2, ct_path = ?p @ [?k]\<rparr>"
      "update_at (append_children cs) (?p @ [?k]) r1 = Some r2"
    using recordsE [OF assms at] .
  let ?g = "\<lambda>n. set_end_step e (append_children cs n)"
  have new: "?g ?new = CallNode a [] ty cs (s, e)"
    by (simp add: set_end_step_def append_children_def call_node_new_def set_children_def)
  have "update_at ?g [?k] (push_child ?new m) = Some (push_child (?g ?new) m)"
    by (simp add: push_child_def)
  from update_at_below [OF r1(2) this]
  have "update_at ?g (?p @ [?k]) r1 = update_at (\<lambda>_. push_child (?g ?new) m) ?p r1" .
  also have "\<dots> = update_at (\<lambda>_. push_child (?g ?new) m) ?p (ct_root t)"
    by (simp add: update_at_twice [OF r1(1)])
  also have "\<dots> = update_at (push_child (?g ?new)) ?p (ct_root t)"
    using m by (intro update_at_cong [of _ _ m]) (simp_all add: current_node_def)
  finally have "update_at (set_end_step e) (?p @ [?k]) r2 =
      update_at (push_child (CallNode a [] ty cs (s, e))) ?p (ct_root t)"
    unfolding new update_at_twice [OF r2(2), of "set_end_step e", symmetric] .
  moreover obtain r3 where
    "update_at (push_child (CallNode a [] ty cs (s, e))) ?p (ct_root t) = Some r3"
    using m update_at_Some [of "ct_root t" ?p m] unfolding current_node_def by blast
  moreover have "run_tree (Enter (a, ty, s) # evs @ [Leave e]) t =
      exit_call e \<lparr>ct_root = r2, ct_path = ?p @ [?k]\<rparr>"
    using m r1(1) r2(1) run_tree_append [of evs "[Leave e]"]
    by (simp add: run_tree_def enter_call_def current_node_def split: option.split)
  ultimately show "\<exists>r. run_tree (Enter (a, ty, s) # evs @ [Leave e]) t =
      Some \<lparr>ct_root = r, ct_path = ct_path t\<rparr> \<and>
      update_at (push_child (CallNode a [] ty cs (s, e))) (ct_path t) (ct_root t) = Some r"
    by (simp add: exit_call_def)
qed

lemma records_tree: "unnamed n \<Longrightarrow> records (tree_events n) (push_child n)"
proof (induction n)
  case (CallNode a fn ty cs rng)
  then have "records (concat (map tree_events cs)) (append_children cs)"
    by (intro records_forest) auto
  from records_call [OF this, of a ty "fst rng" "snd rng"] CallNode.prems show ?case by simp
qed

section \<open>Properties\<close>

text \<open>C16: Recording the calls of a transaction rebuilds them: for any forest of call frames, each
  with its address, call type, first and last step and nested calls, running the corresponding
  \<open>enter_call\<close> and \<open>exit_call\<close> events on a fresh tree gives the root with exactly this forest
  below it and ends at the root.\<close>

theorem call_tree_records_calls:
  assumes "\<forall>n\<in>set ns. unnamed n"
  shows "run_tree (concat (map tree_events ns)) (call_tree_new a) =
     Some \<lparr>ct_root = CallNode a [] Transaction ns (0, 0), ct_path = []\<rparr>"
proof -
  have "records (concat (map tree_events ns)) (append_children ns)"
    using assms by (intro records_forest) (simp add: records_tree)
  from recordsE [OF this, of "call_node_new a Transaction 0" "[]"] obtain r where
    "run_tree (concat (map tree_events ns)) (call_tree_new a) = Some \<lparr>ct_root = r, ct_path = []\<rparr>"
    "update_at (append_children ns) [] (call_node_new a Transaction 0) = Some r"
    by (auto simp: call_tree_new_def)
  then show ?thesis
    by (auto simp: call_tree_new_def append_children_def set_children_def call_node_new_def)
qed

theorem call_tree_records_calls_witness:
  "run_tree [Enter (2, Call, 5), Enter (3, DelegateCall, 10), Leave 15, Leave 20,
             Enter (4, StaticCall, 30), Leave 35] (call_tree_new 1) =
     Some \<lparr>ct_root = CallNode 1 [] Transaction
       [CallNode 2 [] Call [CallNode 3 [] DelegateCall [] (10, 15)] (5, 20),
        CallNode 4 [] StaticCall [] (30, 35)] (0, 0), ct_path = []\<rparr>"
  using call_tree_records_calls [of
      "[CallNode 2 [] Call [CallNode 3 [] DelegateCall [] (10, 15)] (5, 20),
        CallNode 4 [] StaticCall [] (30, 35)]" 1]
  by simp

text \<open>No sequence of frame events can corrupt the tree: from a fresh tree every sequence,
  unbalanced ones included, runs without a panic, leaves a valid path whose length is the call
  depth, leaving at the root being a no-op.\<close>

theorem call_tree_never_corrupt:
  "\<exists>t. run_tree evs (call_tree_new a) = Some t \<and> path_ok t \<and>
     length (ct_path t) = depth_after evs 0 \<and>
     exit_call k (call_tree_new a) = Some (call_tree_new a)"
  using tree_frames.run_depth [OF path_ok_new, of evs a]
  by (auto simp: run_tree_def call_tree_new_def exit_call_def)

end
