(* ===== verification/Stack_Tracker.thy ===== *)
theory Stack_Tracker
  imports Solidity_Ast
begin

text \<open>
  \<^verbatim>\<open>src/stack_tracker.rs\<close>: the symbolic stack that runs beside the EVM stack and carries
  variable names in its slots. The match on the opcode byte is \<open>opcode_effect\<close> (what each arm
  pops and pushes), \<open>apply_effect\<close> executes an arm and \<open>recover_labels\<close> is the
  post-processing loop. The lemmas show that the symbolic stack keeps the depth of the EVM stack
  for every opcode of the EVM's instruction table, that labels stay attached to the values they
  name, and that the values read back are those of the topmost labelled slots.
\<close>

section \<open>Data\<close>

record var_assignment =
  va_name :: string
  va_stack_position :: nat

record stack_tracker =
  slots :: "string option list"

definition stack_tracker_new :: stack_tracker where
  "stack_tracker_new = \<lparr>slots = []\<rparr>"

definition st_reset :: "stack_tracker \<Rightarrow> stack_tracker" where
  "st_reset t = t\<lparr>slots := []\<rparr>"

definition st_depth :: "stack_tracker \<Rightarrow> nat" where
  "st_depth t = length (slots t)"

text \<open>The loop over \<open>labels.iter().enumerate()\<close> writes the top slots left to right.\<close>

definition seed_top_labels :: "nat \<Rightarrow> string list \<Rightarrow> stack_tracker \<Rightarrow> stack_tracker" where
  "seed_top_labels stack_depth labels t =
     (let blank = replicate stack_depth None in
      if labels = [] \<or> stack_depth < length labels then t\<lparr>slots := blank\<rparr>
      else (let first_labelled_slot = stack_depth - length labels in
            t\<lparr>slots := fold (\<lambda>(idx, label) v. v[first_labelled_slot + idx := Some label])
                         (enumerate 0 labels) blank\<rparr>))"

section \<open>Private helpers\<close>

definition has_label :: "string \<Rightarrow> stack_tracker \<Rightarrow> bool" where
  "has_label name t \<longleftrightarrow> list_ex (\<lambda>s. s = Some name) (slots t)"

definition pop_n :: "nat \<Rightarrow> stack_tracker \<Rightarrow> stack_tracker" where
  "pop_n n t = t\<lparr>slots := take (length (slots t) - n) (slots t)\<rparr>"

definition push_slot :: "string option \<Rightarrow> stack_tracker \<Rightarrow> stack_tracker" where
  "push_slot l t = t\<lparr>slots := slots t @ [l]\<rparr>"

definition push_anon :: "stack_tracker \<Rightarrow> stack_tracker" where
  "push_anon t = push_slot None t"

definition peek_from_top :: "nat \<Rightarrow> stack_tracker \<Rightarrow> string option" where
  "peek_from_top n t =
     (let len = length (slots t) in if n = 0 \<or> len < n then None else slots t ! (len - n))"

definition label_for_push :: "int option \<Rightarrow> var_decl list \<Rightarrow> string option" where
  "label_for_push source_offset vars_in_scope =
     (case source_offset of None \<Rightarrow> None | Some offset \<Rightarrow>
      (case List.find (\<lambda>v. vd_declaration_offset v = offset) vars_in_scope of
         Some v \<Rightarrow> Some (vd_name v)
       | None \<Rightarrow>
      (case List.find (\<lambda>v. contains_offset (vd_src v) offset) vars_in_scope of
         Some v \<Rightarrow> Some (vd_name v)
       | None \<Rightarrow>
      (case List.find (\<lambda>v. case vd_statement_range v of
                             Some stmt \<Rightarrow> contains_offset stmt offset | None \<Rightarrow> False)
              vars_in_scope of
         Some v \<Rightarrow> Some (vd_name v)
       | None \<Rightarrow> None))))"

section \<open>One opcode\<close>

datatype effect =
    NoEffect
  | PopPush nat nat   \<comment> \<open>\<open>pop_n(k)\<close> followed by so many \<open>push_anon\<close>\<close>
  | PushLabel
  | DupN nat
  | SwapN nat

text \<open>The arms of the match, in their order.\<close>

text \<open>The arms from POP on, and the wildcard arm.\<close>

definition opcode_effect_high :: "nat \<Rightarrow> effect" where
  "opcode_effect_high op =
    (if op = 0x50 then PopPush 1 0
     else if op = 0x51 then PopPush 1 1
     else if op = 0x52 \<or> op = 0x53 then PopPush 2 0
     else if op = 0x54 then PopPush 1 1
     else if op = 0x55 then PopPush 2 0
     else if op = 0x56 then PopPush 1 0
     else if op = 0x57 then PopPush 2 0
     else if 0x58 \<le> op \<and> op \<le> 0x5a then PopPush 0 1
     else if op = 0x5b then NoEffect
     else if op = 0x5c then PopPush 1 1
     else if op = 0x5d then PopPush 2 0
     else if op = 0x5e then PopPush 3 0
     else if op = 0x5f then PushLabel
     else if 0x60 \<le> op \<and> op \<le> 0x7f then PushLabel
     else if 0x80 \<le> op \<and> op \<le> 0x8f then DupN (op - 0x80 + 1)
     else if 0x90 \<le> op \<and> op \<le> 0x9f then SwapN (op - 0x90 + 1)
     else if 0xa0 \<le> op \<and> op \<le> 0xa4 then PopPush (2 + (op - 0xa0)) 0
     else if op = 0xf0 then PopPush 3 1
     else if op = 0xf1 \<or> op = 0xf2 then PopPush 7 1
     else if op = 0xf3 \<or> op = 0xfd then PopPush 2 0
     else if op = 0xf4 \<or> op = 0xfa then PopPush 6 1
     else if op = 0xf5 then PopPush 4 1
     else if op = 0xff then PopPush 1 0
     else NoEffect)"

text \<open>The arms before POP; an opcode none of them matches falls through to the later ones.\<close>

definition opcode_effect_nat :: "nat \<Rightarrow> effect" where
  "opcode_effect_nat op =
    (if op = 0x00 then NoEffect
     else if (0x01 \<le> op \<and> op \<le> 0x07) \<or> op = 0x0a \<or> op = 0x0b then PopPush 2 1
     else if op = 0x08 \<or> op = 0x09 then PopPush 3 1
     else if 0x10 \<le> op \<and> op \<le> 0x14 then PopPush 2 1
     else if op = 0x15 then PopPush 1 1
     else if 0x16 \<le> op \<and> op \<le> 0x18 then PopPush 2 1
     else if op = 0x19 then PopPush 1 1
     else if op = 0x1a then PopPush 2 1
     else if 0x1b \<le> op \<and> op \<le> 0x1d then PopPush 2 1
     else if op = 0x20 then PopPush 2 1
     else if op = 0x30 then PopPush 0 1
     else if op = 0x31 then PopPush 1 1
     else if 0x32 \<le> op \<and> op \<le> 0x34 then PopPush 0 1
     else if op = 0x35 then PopPush 1 1
     else if op = 0x36 \<or> op = 0x38 then PopPush 0 1
     else if op = 0x37 \<or> op = 0x39 then PopPush 3 0
     else if op = 0x3a then PopPush 0 1
     else if op = 0x3b then PopPush 1 1
     else if op = 0x3c then PopPush 4 0
     else if op = 0x3d then PopPush 0 1
     else if op = 0x3e then PopPush 3 0
     else if op = 0x3f then PopPush 1 1
     else if op = 0x40 then PopPush 1 1
     else if (0x41 \<le> op \<and> op \<le> 0x48) \<or> op = 0x4a then PopPush 0 1
     else if op = 0x49 then PopPush 1 1
     else opcode_effect_high op)"

definition opcode_effect :: "byte \<Rightarrow> effect" where
  "opcode_effect opcode = opcode_effect_nat (unat opcode)"

definition swap_slots :: "nat \<Rightarrow> 'a list \<Rightarrow> 'a list" where
  "swap_slots n xs =
     (let len = length xs in
      if n < len then xs[len - 1 := xs ! (len - 1 - n), len - 1 - n := xs ! (len - 1)] else xs)"

fun apply_effect ::
  "effect \<Rightarrow> int option \<Rightarrow> var_decl list \<Rightarrow> stack_tracker \<Rightarrow> stack_tracker \<times> var_assignment list"
where
  "apply_effect NoEffect off vars t = (t, [])"
| "apply_effect (PopPush k p) off vars t = ((push_anon ^^ p) (pop_n k t), [])"
| "apply_effect PushLabel off vars t =
     (let label = label_for_push off vars; slot = length (slots t) in
      (push_slot label t,
       case label of
         None \<Rightarrow> []
       | Some name \<Rightarrow> [\<lparr>va_name = name, va_stack_position = slot\<rparr>]))"
| "apply_effect (DupN n) off vars t = (push_slot (peek_from_top n t) t, [])"
| "apply_effect (SwapN n) off vars t = (t\<lparr>slots := swap_slots n (slots t)\<rparr>, [])"

text \<open>The recovery of lost labels: one iteration of the loop over the variables in scope.\<close>

definition recover_label ::
  "int \<Rightarrow> var_decl \<Rightarrow> stack_tracker \<times> var_assignment list \<Rightarrow> stack_tracker \<times> var_assignment list"
where
  "recover_label offset v = (\<lambda>(t, assignments).
     (case vd_statement_range v of
        None \<Rightarrow> (t, assignments)
      | Some stmt \<Rightarrow>
          if contains_offset stmt offset \<and> \<not> has_label (vd_name v) t \<and> slots t \<noteq> [] then
            (t\<lparr>slots := (slots t)[length (slots t) - 1 := Some (vd_name v)]\<rparr>,
             assignments @ [\<lparr>va_name = vd_name v, va_stack_position = length (slots t) - 1\<rparr>])
          else (t, assignments)))"

definition recover_labels ::
  "int option \<Rightarrow> var_decl list \<Rightarrow> stack_tracker \<times> var_assignment list \<Rightarrow>
     stack_tracker \<times> var_assignment list"
where
  "recover_labels source_offset vars_in_scope ta =
     (case source_offset of
        None \<Rightarrow> ta
      | Some offset \<Rightarrow> fold (recover_label offset) vars_in_scope ta)"

definition st_process_step ::
  "byte \<Rightarrow> int option \<Rightarrow> var_decl list \<Rightarrow> stack_tracker \<Rightarrow> stack_tracker \<times> var_assignment list"
where
  "st_process_step opcode source_offset vars_in_scope t =
     recover_labels source_offset vars_in_scope
       (apply_effect (opcode_effect opcode) source_offset vars_in_scope t)"

section \<open>Reading values\<close>

definition st_get_variable_value :: "string \<Rightarrow> u256 list \<Rightarrow> stack_tracker \<Rightarrow> u256 option" where
  "st_get_variable_value name actual_stack t =
     (case rposition (\<lambda>s. s = Some name) (slots t) of
        None \<Rightarrow> None
      | Some pos \<Rightarrow> vec_get actual_stack pos)"

text \<open>The loop of \<open>all_variable_values\<close>, over the positions top to bottom.\<close>

fun collect_values ::
  "(nat \<times> string option) list \<Rightarrow> string list \<Rightarrow> u256 list \<Rightarrow> (string \<times> u256) list"
where
  "collect_values [] seen stk = []"
| "collect_values ((pos, slot) # rest) seen stk =
     (case slot of
        None \<Rightarrow> collect_values rest seen stk
      | Some name \<Rightarrow>
          if name \<in> set seen then collect_values rest seen stk
          else (case vec_get stk pos of
                  None \<Rightarrow> collect_values rest (name # seen) stk
                | Some val \<Rightarrow> (name, val) # collect_values rest (name # seen) stk))"

definition st_all_variable_values :: "u256 list \<Rightarrow> stack_tracker \<Rightarrow> (string \<times> u256) list" where
  "st_all_variable_values actual_stack t =
     collect_values (rev (enumerate 0 (slots t))) [] actual_stack"


section \<open>Specification: the instruction table of the EVM\<close>

text \<open>
  Opcode, items removed, items added, as the Cancun instruction set fixes them: the independent
  reference against which \<open>opcode_effect\<close> is checked.
\<close>

definition evm_arity_nat :: "nat \<Rightarrow> (nat \<times> nat) option" where
  "evm_arity_nat op =
    (if 0x60 \<le> op \<and> op \<le> 0x7f then Some (0, 1)
     else if 0x80 \<le> op \<and> op \<le> 0x8f then Some (op - 0x7f, op - 0x7e)
     else if 0x90 \<le> op \<and> op \<le> 0x9f then Some (op - 0x8e, op - 0x8e)
     else if op \<in> {0x00, 0x5b, 0xfe} then Some (0, 0)
     else if op \<in> {0x01, 0x02, 0x03, 0x04, 0x05, 0x06, 0x07, 0x0a, 0x0b, 0x10, 0x11, 0x12,
                    0x13, 0x14, 0x16, 0x17, 0x18, 0x1a, 0x1b, 0x1c, 0x1d, 0x20} then Some (2, 1)
     else if op \<in> {0x08, 0x09, 0xf0} then Some (3, 1)
     else if op \<in> {0x15, 0x19, 0x31, 0x35, 0x3b, 0x3f, 0x40, 0x49, 0x51, 0x54, 0x5c} then Some (1, 1)
     else if op \<in> {0x30, 0x32, 0x33, 0x34, 0x36, 0x38, 0x3a, 0x3d, 0x41, 0x42, 0x43, 0x44,
                    0x45, 0x46, 0x47, 0x48, 0x4a, 0x58, 0x59, 0x5a, 0x5f} then Some (0, 1)
     else if op \<in> {0x37, 0x39, 0x3e, 0x5e, 0xa1} then Some (3, 0)
     else if op \<in> {0x3c, 0xa2} then Some (4, 0)
     else if op \<in> {0x50, 0x56, 0xff} then Some (1, 0)
     else if op \<in> {0x52, 0x53, 0x55, 0x57, 0x5d, 0xa0, 0xf3, 0xfd} then Some (2, 0)
     else if op \<in> {0xa3} then Some (5, 0)
     else if op \<in> {0xa4} then Some (6, 0)
     else if op \<in> {0xf1, 0xf2} then Some (7, 1)
     else if op \<in> {0xf4, 0xfa} then Some (6, 1)
     else if op \<in> {0xf5} then Some (4, 1)
     else None)"

definition evm_arity :: "byte \<Rightarrow> (nat \<times> nat) option" where
  "evm_arity opcode = evm_arity_nat (unat opcode)"

text \<open>
  One instruction on the concrete stack (top last). The value computed by an instruction other
  than a DUP or a SWAP is arbitrary: only the number of items matters here.
\<close>

inductive evm_step :: "byte \<Rightarrow> 'a list \<Rightarrow> 'a list \<Rightarrow> bool" where
  dup: "0x80 \<le> unat op \<Longrightarrow> unat op \<le> 0x8f \<Longrightarrow> n = unat op - 0x7f \<Longrightarrow> n \<le> length stk \<Longrightarrow>
        evm_step op stk (stk @ [stk ! (length stk - n)])"
| swap: "0x90 \<le> unat op \<Longrightarrow> unat op \<le> 0x9f \<Longrightarrow> n = unat op - 0x8f \<Longrightarrow>
        stk = low @ [a] @ mid @ [b] \<Longrightarrow> length mid = n - 1 \<Longrightarrow>
        evm_step op stk (low @ [b] @ mid @ [a])"
| plain: "\<not> (0x80 \<le> unat op \<and> unat op \<le> 0x9f) \<Longrightarrow> evm_arity op = Some (length popped, length pushed) \<Longrightarrow>
        evm_step op (stk @ popped) (stk @ pushed)"

inductive_cases evm_stepE: "evm_step op stk stk'"

text \<open>A run of the machine, with the tracker fed the same opcodes.\<close>

type_synonym step_input = "byte \<times> int option \<times> var_decl list"

definition track :: "step_input \<Rightarrow> stack_tracker \<Rightarrow> stack_tracker" where
  "track = (\<lambda>(op, off, vars) t. fst (st_process_step op off vars t))"

inductive evm_run :: "step_input list \<Rightarrow> 'a list \<Rightarrow> 'a list \<Rightarrow> bool" where
  evm_run_Nil: "evm_run [] stk stk"
| evm_run_Cons: "evm_step op stk stk1 \<Longrightarrow> evm_run steps stk1 stk2 \<Longrightarrow>
     evm_run ((op, off, vars) # steps) stk stk2"

section \<open>Lemmas\<close>

subsection \<open>Depth\<close>

definition effect_arity :: "effect \<Rightarrow> nat \<times> nat" where
  "effect_arity e = (case e of NoEffect \<Rightarrow> (0, 0) | PopPush k p \<Rightarrow> (k, p) | PushLabel \<Rightarrow> (0, 1)
                     | DupN n \<Rightarrow> (n, n + 1) | SwapN n \<Rightarrow> (n + 1, n + 1))"

definition table_agrees :: "nat \<Rightarrow> bool" where
  "table_agrees i \<longleftrightarrow> (case evm_arity_nat i of None \<Rightarrow> opcode_effect_nat i = NoEffect
                     | Some a \<Rightarrow> effect_arity (opcode_effect_nat i) = a)"

lemmas table_eval = table_agrees_def evm_arity_nat_def opcode_effect_nat_def opcode_effect_high_def effect_arity_def

lemma opcode_table_low: "i < 0x60 \<Longrightarrow> table_agrees i"
proof -
  have "list_all table_agrees [2..<0x60]" by (simp add: upt_rec_numeral) (simp add: table_eval)
  then have "\<forall>x\<in>{2..<0x60}. table_agrees x" unfolding list_all_iff set_upt .
  moreover have "table_agrees 0" "table_agrees 1" by (simp_all add: table_eval)
  ultimately show "i < 0x60 \<Longrightarrow> table_agrees i"
    by (metis atLeastLessThan_iff less_2_cases not_less One_nat_def)
qed

lemma opcode_table_logs: "0xa0 \<le> i \<Longrightarrow> i < 0xa5 \<Longrightarrow> table_agrees i"
proof -
  have "list_all table_agrees [0xa0..<0xa5]" by (simp add: upt_rec_numeral) (simp add: table_eval)
  then have "\<forall>x\<in>{0xa0..<0xa5}. table_agrees x" unfolding list_all_iff set_upt .
  then show "0xa0 \<le> i \<Longrightarrow> i < 0xa5 \<Longrightarrow> table_agrees i" by simp
qed

lemma opcode_table_system: "0xf0 \<le> i \<Longrightarrow> i < 0x100 \<Longrightarrow> table_agrees i"
proof -
  have "list_all table_agrees [0xf0..<0x100]" by (simp add: upt_rec_numeral) (simp add: table_eval)
  then have "\<forall>x\<in>{0xf0..<0x100}. table_agrees x" unfolding list_all_iff set_upt .
  then show "0xf0 \<le> i \<Longrightarrow> i < 0x100 \<Longrightarrow> table_agrees i" by simp
qed

lemma opcode_table_gap: "0xa5 \<le> i \<Longrightarrow> i < 0xf0 \<Longrightarrow> table_agrees i"
  by (simp add: table_eval)

lemma opcode_table_mid: "0x60 \<le> i \<Longrightarrow> i < 0xa0 \<Longrightarrow> table_agrees i"
  by (auto simp: table_agrees_def evm_arity_nat_def opcode_effect_nat_def opcode_effect_high_def effect_arity_def)

lemma opcode_effect_table:
  "(case evm_arity op of None \<Rightarrow> opcode_effect op = NoEffect
    | Some a \<Rightarrow> effect_arity (opcode_effect op) = a)"
proof -
  have "unat op < 0x100" by (rule unat_byte_less)
  then have "table_agrees (unat op)"
    using opcode_table_low opcode_table_mid opcode_table_logs opcode_table_gap opcode_table_system
    by (metis not_less)
  then show ?thesis unfolding table_agrees_def evm_arity_def opcode_effect_def .
qed

lemma opcode_effect_arity:
  "evm_arity op = Some a \<Longrightarrow> effect_arity (opcode_effect op) = a"
  using opcode_effect_table [of op] by simp

lemma opcode_effect_dup:
  "0x80 \<le> unat op \<Longrightarrow> unat op \<le> 0x8f \<Longrightarrow> opcode_effect op = DupN (unat op - 0x7f)"
  by (simp add: opcode_effect_def opcode_effect_nat_def opcode_effect_high_def)

lemma opcode_effect_swap:
  "0x90 \<le> unat op \<Longrightarrow> unat op \<le> 0x9f \<Longrightarrow> opcode_effect op = SwapN (unat op - 0x8f)"
  by (simp add: opcode_effect_def opcode_effect_nat_def opcode_effect_high_def)

lemma slots_push_anon [simp]: "slots ((push_anon ^^ p) t) = slots t @ replicate p None"
  by (induction p) (simp_all add: push_anon_def push_slot_def replicate_append_same)

lemma slots_pop_n [simp]: "slots (pop_n n t) = take (length (slots t) - n) (slots t)"
  by (simp add: pop_n_def)

lemma slots_push_slot [simp]: "slots (push_slot l t) = slots t @ [l]"
  by (simp add: push_slot_def)

lemma length_swap_slots [simp]: "length (swap_slots n xs) = length xs"
  by (simp add: swap_slots_def Let_def)

lemma length_apply_effect:
  assumes "effect_arity e = (d, a)" "d \<le> length (slots t)"
  shows "length (slots (fst (apply_effect e off vars t))) = length (slots t) - d + a"
  using assms by (cases e) (auto simp: effect_arity_def Let_def)

lemma length_recover_label [simp]:
  "length (slots (fst (recover_label off v ta))) = length (slots (fst ta))"
  by (simp add: recover_label_def split: prod.split option.split)

lemma length_recover_labels_fold [simp]:
  "length (slots (fst (fold (recover_label off) vars ta))) = length (slots (fst ta))"
  by (induction vars arbitrary: ta) simp_all

lemma length_recover_labels [simp]:
  "length (slots (fst (recover_labels off vars ta))) = length (slots (fst ta))"
  by (simp add: recover_labels_def split: option.split)

lemma length_process_step:
  assumes "evm_arity op = Some (d, a)" "d \<le> st_depth t"
  shows "st_depth (fst (st_process_step op off vars t)) = st_depth t - d + a"
  using assms length_apply_effect [OF opcode_effect_arity [OF assms(1)]]
  by (simp add: st_depth_def st_process_step_def)

subsection \<open>The tracker beside the machine\<close>

lemma evm_step_length:
  assumes "evm_step op stk stk'"
  shows "\<exists>d a. evm_arity op = Some (d, a) \<and> d \<le> length stk \<and> length stk' = length stk - d + a"
  using assms
proof cases
  case (dup n)
  then have "evm_arity op = Some (n, n + 1)" by (simp add: evm_arity_def evm_arity_nat_def)
  with dup show ?thesis by simp
next
  case (swap n low a mid b)
  then have "evm_arity op = Some (n + 1, n + 1)" by (simp add: evm_arity_def evm_arity_nat_def)
  moreover have "0 < n" using swap by simp
  ultimately show ?thesis using swap(5,6) by (simp add: \<open>stk' = _\<close>)
qed auto

lemma track_step_depth:
  assumes "evm_step op stk stk'" "st_depth t = length stk"
  shows "st_depth (fst (st_process_step op off vars t)) = length stk'"
  using evm_step_length [OF assms(1)] assms(2) length_process_step by fastforce

text \<open>The pairs of a name and a concrete value that the labels of the tracker claim.\<close>

definition claimed :: "stack_tracker \<Rightarrow> 'a list \<Rightarrow> (string \<times> 'a) set" where
  "claimed t stk = {(n, v). \<exists>i. i < length stk \<and> slots t ! i = Some n \<and> stk ! i = v}"

definition reported :: "var_assignment list \<Rightarrow> 'a list \<Rightarrow> (string \<times> 'a) set" where
  "reported asg stk = (\<lambda>a. (va_name a, stk ! va_stack_position a)) ` set asg"

lemma reported_append [simp]: "reported (xs @ ys) stk = reported xs stk \<union> reported ys stk"
  by (simp add: reported_def image_Un)

lemma swap_slots_split:
  assumes "length mid = n - 1" "0 < n"
  shows "swap_slots n (low @ [a] @ mid @ [b]) = low @ [b] @ mid @ [a]"
proof -
  let ?xs = "low @ [a] @ mid @ [b]"
  have len: "length ?xs - 1 = length low + n" "length ?xs - 1 - n = length low" "n < length ?xs"
    using assms by simp_all
  then have "swap_slots n ?xs = ?xs[length low + n := a, length low := b]"
    using assms by (simp add: swap_slots_def Let_def nth_append)
  also have "... = low @ [b] @ mid @ [a]"
    using assms by (simp add: list_update_append split: nat.split)
  finally show ?thesis .
qed

lemma claimedI:
  assumes "\<And>i n. i < length stk' \<Longrightarrow> slots t' ! i = Some n \<Longrightarrow> (n, stk' ! i) \<in> S"
  shows "claimed t' stk' \<subseteq> S"
  using assms by (auto simp: claimed_def)

lemma in_claimed: "i < length stk \<Longrightarrow> slots t ! i = Some n \<Longrightarrow> (n, stk ! i) \<in> claimed t stk"
  by (auto simp: claimed_def)

lemma claimed_pop_push:
  assumes "length (slots t) = length (stk @ popped)" "length popped = k"
  shows "claimed ((push_anon ^^ length pushed) (pop_n k t)) (stk @ pushed) \<subseteq> claimed t (stk @ popped)"
proof (rule claimedI)
  fix i n
  assume i: "i < length (stk @ pushed)"
    and n: "slots ((push_anon ^^ length pushed) (pop_n k t)) ! i = Some n"
  from i n assms have "i < length stk" by (auto simp: nth_append split: if_splits)
  with n assms in_claimed [of i "stk @ popped" t n]
  show "(n, (stk @ pushed) ! i) \<in> claimed t (stk @ popped)" by (simp add: nth_append)
qed

lemma claimed_dup:
  assumes "length (slots t) = length stk" "0 < k" "k \<le> length stk"
  shows "claimed (push_slot (peek_from_top k t) t) (stk @ [stk ! (length stk - k)]) \<subseteq> claimed t stk"
proof (rule claimedI)
  fix i n
  assume i: "i < length (stk @ [stk ! (length stk - k)])"
    and n: "slots (push_slot (peek_from_top k t) t) ! i = Some n"
  show "(n, (stk @ [stk ! (length stk - k)]) ! i) \<in> claimed t stk"
  proof (cases "i < length stk")
    case True
    with n assms in_claimed [of i stk t n] show ?thesis by (simp add: nth_append)
  next
    case False
    with i have "i = length stk" by simp
    with n assms in_claimed [of "length stk - k" stk t n] show ?thesis
      by (simp add: nth_append peek_from_top_def)
  qed
qed

lemma claimed_swap:
  assumes "length (slots t) = length (low @ [a] @ mid @ [b])" "length mid = k - 1" "0 < k"
  shows "claimed (t\<lparr>slots := swap_slots k (slots t)\<rparr>) (low @ [b] @ mid @ [a])
           \<subseteq> claimed t (low @ [a] @ mid @ [b])"
proof (rule claimedI)
  let ?s = "low @ [a] @ mid @ [b]" and ?s' = "low @ [b] @ mid @ [a]"
  fix i n
  assume i: "i < length ?s'" and n: "slots (t\<lparr>slots := swap_slots k (slots t)\<rparr>) ! i = Some n"
  from assms have len: "length (slots t) = length low + k + 1" by simp
  consider (low) "i < length low" | (a) "i = length low" | (mid) "length low < i" "i < length low + k"
    | (b) "i = length low + k" using i assms by fastforce
  then show "(n, ?s' ! i) \<in> claimed t ?s"
  proof cases
    case low
    with n len in_claimed [of i ?s t n] show ?thesis by (simp add: swap_slots_def Let_def nth_append)
  next
    case a
    with n len assms in_claimed [of "length low + k" ?s t n] show ?thesis
      by (simp add: swap_slots_def Let_def nth_append)
  next
    case mid
    then have "i - Suc (length low) < k - 1" by linarith
    with mid n len assms in_claimed [of i ?s t n] show ?thesis
      by (simp add: swap_slots_def Let_def nth_append nth_Cons')
  next
    case b
    with n len assms in_claimed [of "length low" ?s t n] show ?thesis
      by (simp add: swap_slots_def Let_def nth_append)
  qed
qed

lemma claimed_push_label:
  assumes "length (slots t) = length stk"
  shows "claimed (push_slot l t) (stk @ [v]) \<subseteq>
           claimed t stk \<union> (case l of None \<Rightarrow> {} | Some n \<Rightarrow> {(n, v)})"
proof (rule claimedI)
  fix i n
  assume "i < length (stk @ [v])" "slots (push_slot l t) ! i = Some n"
  with assms in_claimed [of i stk t n] show
    "(n, (stk @ [v]) ! i) \<in> claimed t stk \<union> (case l of None \<Rightarrow> {} | Some n \<Rightarrow> {(n, v)})"
    by (cases "i < length stk") (auto simp: nth_append)
qed

lemma opcode_effect_plain:
  assumes "evm_arity op = Some (k, p)" "\<not> (0x80 \<le> unat op \<and> unat op \<le> 0x9f)"
  shows "opcode_effect op = PopPush k p \<or> (k, p) = (0, 1) \<and> opcode_effect op = PushLabel
           \<or> (k, p) = (0, 0) \<and> opcode_effect op = NoEffect"
proof -
  from assms(2) have "opcode_effect op \<noteq> DupN n" "opcode_effect op \<noteq> SwapN n" for n
    by (auto simp: opcode_effect_def opcode_effect_nat_def opcode_effect_high_def)
  with opcode_effect_arity [OF assms(1)] show ?thesis
    by (cases "opcode_effect op") (auto simp: effect_arity_def)
qed

lemma claimed_apply_effect:
  assumes "evm_step op stk stk'" "length (slots t) = length stk"
    and "apply_effect (opcode_effect op) off vars t = (t', asg)"
  shows "claimed t' stk' \<subseteq> claimed t stk \<union> reported asg stk'"
  using assms(1)
proof cases
  case (dup n)
  with assms(2,3) claimed_dup [of t stk n] show ?thesis by (auto simp: opcode_effect_dup)
next
  case (swap n low a mid b)
  then have "0 < n" "t' = t\<lparr>slots := swap_slots n (slots t)\<rparr>"
    using assms(3) by (simp_all add: opcode_effect_swap)
  with claimed_swap [of t low a mid b n] swap assms(2) show ?thesis by auto
next
  case (plain popped pushed low)
  from opcode_effect_plain [OF plain(4) plain(3)] consider
      (pop) "opcode_effect op = PopPush (length popped) (length pushed)"
    | (push) "length popped = 0" "length pushed = 1" "opcode_effect op = PushLabel"
    | (none) "length popped = 0" "length pushed = 0" "opcode_effect op = NoEffect" by auto
  then show ?thesis
  proof cases
    case pop
    with assms(2,3) plain claimed_pop_push [of t low popped "length popped" pushed] show ?thesis by auto
  next
    case push
    then obtain v where v: "popped = []" "pushed = [v]" by (auto simp: length_Suc_conv)
    with assms(2,3) plain push claimed_push_label [of t low "label_for_push off vars" v] show ?thesis
      by (auto simp: Let_def reported_def nth_append split: option.splits)
  next
    case none
    with assms(2,3) plain show ?thesis by auto
  qed
qed

lemma claimed_recover_label:
  assumes "recover_label off v (t, asg) = (t', asg')" "length (slots t) = length stk"
  shows "claimed t' stk \<subseteq> claimed t stk \<union> reported asg' stk \<and> reported asg stk \<subseteq> reported asg' stk"
proof (cases "fst (recover_label off v (t, asg)) = t \<and> snd (recover_label off v (t, asg)) = asg")
  case True
  with assms show ?thesis by auto
next
  case False
  then have t': "t' = t\<lparr>slots := (slots t)[length stk - 1 := Some (vd_name v)]\<rparr>"
    and asg': "asg' = asg @ [\<lparr>va_name = vd_name v, va_stack_position = length stk - 1\<rparr>]"
    using assms by (auto simp: recover_label_def split: option.splits if_splits)
  have "claimed t' stk \<subseteq> claimed t stk \<union> reported asg' stk"
  proof (rule claimedI)
    fix i n
    assume i: "i < length stk" and n: "slots t' ! i = Some n"
    with t' assms(2) in_claimed [of i stk t n] asg'
    show "(n, stk ! i) \<in> claimed t stk \<union> reported asg' stk"
      by (cases "i = length stk - 1") (auto simp: reported_def)
  qed
  with asg' show ?thesis by auto
qed

lemma claimed_recover_fold:
  "fold (recover_label off) vars (t, asg) = (t', asg') \<Longrightarrow> length (slots t) = length stk \<Longrightarrow>
     claimed t' stk \<subseteq> claimed t stk \<union> reported asg' stk \<and> reported asg stk \<subseteq> reported asg' stk"
proof (induction vars arbitrary: t asg)
  case Nil
  then show ?case by simp
next
  case (Cons v vars)
  obtain t1 asg1 where one: "recover_label off v (t, asg) = (t1, asg1)" by fastforce
  with Cons.prems(2) length_recover_label [of off v "(t, asg)"]
  have len: "length (slots t1) = length stk" by simp
  from Cons.prems(1) one have "fold (recover_label off) vars (t1, asg1) = (t', asg')" by simp
  from Cons.IH [OF this len] claimed_recover_label [OF one Cons.prems(2)] show ?case by blast
qed

lemma claimed_process_step:
  assumes "evm_step op stk stk'" "st_depth t = length stk"
    and "st_process_step op off vars t = (t', asg)"
  shows "claimed t' stk' \<subseteq> claimed t stk \<union> reported asg stk'"
proof -
  obtain t1 asg1 where one: "apply_effect (opcode_effect op) off vars t = (t1, asg1)" by fastforce
  have rec: "recover_labels off vars (t1, asg1) = (t', asg)"
    using assms(3) one by (simp add: st_process_step_def)
  have "length (slots t') = length stk'"
    using track_step_depth [OF assms(1,2), of off vars] assms(3) by (simp add: st_depth_def)
  with rec length_recover_labels [of off vars "(t1, asg1)"]
  have len: "length (slots t1) = length stk'" by simp
  have "claimed t1 stk' \<subseteq> claimed t stk \<union> reported asg1 stk'"
    using claimed_apply_effect [OF assms(1) _ one] assms(2) by (simp add: st_depth_def)
  moreover have "claimed t' stk' \<subseteq> claimed t1 stk' \<union> reported asg stk' \<and> reported asg1 stk' \<subseteq> reported asg stk'"
  proof (cases off)
    case None
    with rec show ?thesis by (simp add: recover_labels_def)
  next
    case (Some offset)
    with rec have "fold (recover_label offset) vars (t1, asg1) = (t', asg)"
      by (simp add: recover_labels_def)
    from claimed_recover_fold [OF this len] show ?thesis .
  qed
  ultimately show ?thesis by blast
qed

lemma track_run_depth:
  "evm_run steps stk stk' \<Longrightarrow> st_depth t = length stk \<Longrightarrow> st_depth (fold track steps t) = length stk'"
proof (induction arbitrary: t rule: evm_run.induct)
  case (evm_run_Nil stk)
  then show ?case by simp
next
  case (evm_run_Cons op stk stk1 steps stk2 off vars)
  then show ?case using track_step_depth [of op stk stk1 t off vars] by (simp add: track_def)
qed

subsection \<open>Seeded labels and reading values\<close>

lemma fold_update_enumerate:
  "length pre = k \<Longrightarrow>
     fold (\<lambda>(idx, l) v. v[k + idx := Some l]) (enumerate i ls) (pre @ vs)
       = pre @ fold (\<lambda>(idx, l) v. v[idx := Some l]) (enumerate i ls) vs"
proof (induction ls arbitrary: i vs)
  case (Cons l ls)
  then have "(pre @ vs)[k + i := Some l] = pre @ vs[i := Some l]" by (simp add: list_update_append)
  with Cons show ?case by simp
qed simp

lemma fold_update_all:
  "length done = i \<Longrightarrow> length vs = length ls \<Longrightarrow>
     fold (\<lambda>(idx, l) v. v[idx := Some l]) (enumerate i ls) (done @ vs) = done @ map Some ls"
proof (induction ls arbitrary: i vs "done")
  case Nil
  then show ?case by simp
next
  case (Cons l ls)
  then obtain w ws where vs: "vs = w # ws" "length ws = length ls" by (cases vs) auto
  with Cons.prems have "(done @ vs)[i := Some l] = (done @ [Some l]) @ ws"
    by (simp add: list_update_append)
  with Cons.IH [of "done @ [Some l]" "Suc i" ws] Cons.prems vs show ?case by simp
qed

lemma slots_seed_top_labels:
  assumes "length labels \<le> depth"
  shows "slots (seed_top_labels depth labels t) = replicate (depth - length labels) None @ map Some labels"
proof (cases "labels = []")
  case True
  then show ?thesis by (simp add: seed_top_labels_def)
next
  case False
  let ?k = "depth - length labels"
  have "replicate depth (None :: string option) = replicate ?k None @ replicate (length labels) None"
    using assms by (simp flip: replicate_add)
  moreover have "fold (\<lambda>(idx, l) v. v[?k + idx := Some l]) (enumerate 0 labels)
      (replicate ?k None @ replicate (length labels) None) = replicate ?k None @ map Some labels"
    using fold_update_enumerate [of "replicate ?k None" ?k 0 labels "replicate (length labels) None"]
      fold_update_all [of "[]" 0 "replicate (length labels) None" labels] by simp
  ultimately show ?thesis using False assms by (simp add: seed_top_labels_def Let_def)
qed

lemma st_depth_seed_top_labels [tracker_simps]: "st_depth (seed_top_labels depth labels t) = depth"
proof (cases "length labels \<le> depth")
  case True
  then show ?thesis by (simp add: slots_seed_top_labels st_depth_def)
next
  case False
  then show ?thesis by (simp add: seed_top_labels_def st_depth_def)
qed

lemma collect_values_map_of:
  "map_of (collect_values ps seen stk) n =
     (if n \<in> set seen then None
      else case List.find (\<lambda>(p, s). s = Some n) ps of None \<Rightarrow> None | Some (p, _) \<Rightarrow> vec_get stk p)"
proof (induction ps seen stk rule: collect_values.induct)
  case (1 seen stk)
  then show ?case by simp
next
  case (2 pos slot rest seen stk)
  show ?case
  proof (cases slot)
    case None
    with 2 show ?thesis by simp
  next
    case (Some name)
    show ?thesis
    proof (cases "name \<in> set seen")
      case True
      with 2(2) [OF Some True] Some show ?thesis by auto
    next
      case False
      with 2(3,4) [OF Some False] Some show ?thesis
        by (cases "vec_get stk pos") (auto simp del: vec_get_None vec_get_Some)
    qed
  qed
qed

lemma collect_values_distinct:
  "distinct (map fst (collect_values ps seen stk)) \<and>
     set (map fst (collect_values ps seen stk)) \<inter> set seen = {}"
  by (induction ps seen stk rule: collect_values.induct) (auto split: option.splits)

lemma find_rev_enumerate:
  "List.find (\<lambda>(p, s). P s) (rev (enumerate i xs)) =
     (case rposition P xs of None \<Rightarrow> None | Some k \<Rightarrow> Some (i + k, xs ! k))"
proof (induction xs arbitrary: i)
  case Nil
  then show ?case by simp
next
  case (Cons x xs)
  have app: "List.find Q (ys @ zs) = (case List.find Q ys of None \<Rightarrow> List.find Q zs | Some y \<Rightarrow> Some y)"
    for Q :: "nat \<times> 'a \<Rightarrow> bool" and ys zs
    by (induction ys) auto
  show ?case by (simp add: app Cons.IH split: option.split)
qed

lemma all_variable_values_map_of:
  "map_of (st_all_variable_values stk t) n = st_get_variable_value n stk t"
proof -
  have "map_of (st_all_variable_values stk t) n =
      (case List.find (\<lambda>(p, s). s = Some n) (rev (enumerate 0 (slots t))) of
         None \<Rightarrow> None | Some (p, _) \<Rightarrow> vec_get stk p)"
    by (simp add: st_all_variable_values_def collect_values_map_of)
  then show ?thesis
    unfolding find_rev_enumerate st_get_variable_value_def by (simp split: option.split)
qed

lemma get_variable_value_claimed:
  "st_get_variable_value n stk t = Some v \<Longrightarrow> st_depth t = length stk \<Longrightarrow> (n, v) \<in> claimed t stk"
  by (auto simp: st_get_variable_value_def claimed_def st_depth_def
      split: option.splits dest!: rposition_SomeD)

lemma rposition_map_Some:
  assumes "distinct ls" "k < length ls"
  shows "rposition (\<lambda>s. s = Some (ls ! k)) (replicate m None @ map Some ls) = Some (m + k)"
  using assms by (intro rposition_eqI) (auto simp: nth_append nth_eq_iff_index_eq)

lemma seeded_argument_value:
  assumes "distinct labels" "length labels \<le> length stk" "k < length labels"
  shows "st_get_variable_value (labels ! k) stk (seed_top_labels (length stk) labels t)
           = Some (stk ! (length stk - length labels + k))"
  using assms by (simp add: st_get_variable_value_def slots_seed_top_labels rposition_map_Some)

lemma recover_label_missing:
  assumes "vd_statement_range v = Some stmt" "contains_offset stmt off" "\<not> has_label (vd_name v) t"
    "slots t \<noteq> []"
  shows "recover_label off v (t, asg) =
     (t\<lparr>slots := butlast (slots t) @ [Some (vd_name v)]\<rparr>,
      asg @ [\<lparr>va_name = vd_name v, va_stack_position = length (slots t) - 1\<rparr>])"
proof -
  from assms(4) obtain ys y where "slots t = ys @ [y]" by (cases "slots t" rule: rev_cases) auto
  with assms(1-3) show ?thesis by (simp add: recover_label_def)
qed

lemma has_label_iff: "has_label n t \<longleftrightarrow> Some n \<in> set (slots t)"
  by (auto simp: has_label_def list_ex_iff)

section \<open>Properties\<close>

text \<open>
  C17: whatever sequence of instructions of the EVM's table runs, and whatever source offsets and
  scopes the tracker is given, a tracker fed the same opcodes keeps exactly as many slots as the
  concrete stack has items.
\<close>

theorem tracker_mirrors_evm_depth:
  assumes "evm_run steps stk stk'" and "st_depth t = length stk"
  shows "st_depth (fold track steps t) = length stk'"
  using assms by (rule track_run_depth)

theorem tracker_mirrors_evm_depth_witness:
  "st_depth (fold track [(0x60, None, []), (0x80, None, []), (0x01, None, [])] stack_tracker_new) = 1"
proof -
  have push: "evm_step (0x60 :: byte) ([] @ [] :: nat list) ([] @ [7])"
    by (rule plain) (simp_all add: evm_arity_def evm_arity_nat_def)
  have dup: "evm_step (0x80 :: byte) [7 :: nat] ([7] @ [[7 :: nat] ! (length [7 :: nat] - 1)])"
    by (rule evm_step.dup [where n = 1]) simp_all
  have add: "evm_step (0x01 :: byte) ([] @ [7, 7 :: nat]) ([] @ [14])"
    by (rule plain) (simp_all add: evm_arity_def evm_arity_nat_def)
  have "evm_run [(0x60, None, []), (0x80, None, []), (0x01, None, [])] ([] :: nat list) [14]"
    using push dup add by (auto intro!: evm_run_Cons evm_run_Nil)
  from tracker_mirrors_evm_depth [OF this, of stack_tracker_new] show ?thesis
    by (simp add: stack_tracker_new_def st_depth_def)
qed

text \<open>
  C18: labels follow the values they name. After any instruction, every name the tracker attaches
  to a concrete value was already attached to that value before the instruction, or is one of the
  assignments \<open>process_step\<close> reports for it: DUP and SWAP carry labels with the values, and no
  arm moves a label to a value it did not name.
\<close>

theorem labels_follow_values:
  assumes "evm_step op stk stk'" and "st_depth t = length stk"
    and "st_process_step op off vars t = (t', asg)"
  shows "claimed t' stk' \<subseteq> claimed t stk \<union> reported asg stk'"
  using assms by (rule claimed_process_step)

theorem labels_follow_values_witness:
  "claimed \<lparr>slots = [None, Some ''x'']\<rparr> [20 :: nat, 10] \<subseteq> {(''x'', 10)}"
proof -
  have "evm_step (0x90 :: byte) ([] @ [10 :: nat] @ [] @ [20]) ([] @ [20] @ [] @ [10])"
    by (rule evm_step.swap [where low = "[]" and mid = "[]" and n = 1]) simp_all
  from labels_follow_values [OF this, of "\<lparr>slots = [Some ''x'', None]\<rparr>" None "[]"
      "\<lparr>slots = [None, Some ''x'']\<rparr>" "[]"]
  have "claimed \<lparr>slots = [None, Some ''x'']\<rparr> [20 :: nat, 10]
      \<subseteq> claimed \<lparr>slots = [Some ''x'', None]\<rparr> [10, 20]"
    by (simp add: st_depth_def st_process_step_def opcode_effect_def opcode_effect_nat_def opcode_effect_high_def
        swap_slots_def recover_labels_def reported_def)
  also have "... \<subseteq> {(''x'', 10)}" by (auto simp: claimed_def nth_Cons' split: if_splits)
  finally show ?thesis .
qed

text \<open>
  At a jump into an internal function the recorder seeds one label per parameter; the value
  then read for the \<open>k\<close>-th parameter is the \<open>k\<close>-th of the topmost stack items, counted from the
  deepest.
\<close>

theorem seeded_parameters_read_back:
  assumes "distinct labels" and "length labels \<le> length stk" and "k < length labels"
  shows "st_get_variable_value (labels ! k) stk (seed_top_labels (length stk) labels t)
           = Some (stk ! (length stk - length labels + k))"
  using assms by (rule seeded_argument_value)

theorem seeded_parameters_read_back_witness:
  "st_get_variable_value ''y'' [1, 5, 9] (seed_top_labels 3 [''x'', ''y''] stack_tracker_new) = Some 9"
  using seeded_parameters_read_back [of "[''x'', ''y'']" "[1, 5, 9]" 1 stack_tracker_new]
  by (simp add: numeral_eq_Suc)

text \<open>
  \<open>all_variable_values\<close> lists each labelled name at most once, with the value
  \<open>get_variable_value\<close> reads for it, and omits exactly the names for which that is \<open>None\<close>.
\<close>

theorem all_variable_values_agree:
  "distinct (map fst (st_all_variable_values stk t)) \<and>
   map_of (st_all_variable_values stk t) n = st_get_variable_value n stk t"
  by (simp add: all_variable_values_map_of) (simp add: st_all_variable_values_def
      collect_values_distinct [THEN conjunct1, simplified])

text \<open>
  Two variables declared in one statement (\<open>(uint a, uint b) = f();\<close>) that have lost their
  labels are both recovered on the same slot: both assignments name the top of the stack and only
  the last variable keeps its label, so the first one is reported with a value that is not its own
  and is unlabelled again.
\<close>

theorem tuple_declaration_shares_slot:
  assumes "apply_effect (opcode_effect op) (Some off) [a, b] t = (t1, [])" and "slots t1 \<noteq> []"
    and "vd_statement_range a = Some sa" and "contains_offset sa off"
    and "vd_statement_range b = Some sb" and "contains_offset sb off"
    and "vd_name a \<noteq> vd_name b"
    and "\<not> has_label (vd_name a) t1" and "\<not> has_label (vd_name b) t1"
  shows "let (t', asg) = st_process_step op (Some off) [a, b] t; top = length (slots t1) - 1 in
           asg = [\<lparr>va_name = vd_name a, va_stack_position = top\<rparr>,
                  \<lparr>va_name = vd_name b, va_stack_position = top\<rparr>] \<and>
           has_label (vd_name b) t' \<and> \<not> has_label (vd_name a) t'"
proof -
  let ?t2 = "t1\<lparr>slots := butlast (slots t1) @ [Some (vd_name a)]\<rparr>"
  have b2: "\<not> has_label (vd_name b) ?t2" "slots ?t2 \<noteq> []" and a2: "Some (vd_name a) \<notin> set (butlast (slots t1))"
    using assms(7-9) by (auto simp: has_label_iff dest: in_set_butlastD)
  show ?thesis
    using a2 assms(1,2,7) recover_label_missing [OF assms(3,4,8,2)]
      recover_label_missing [OF assms(5,6) b2]
    by (simp add: st_process_step_def recover_labels_def has_label_iff)
qed

theorem tuple_declaration_shares_slot_witness:
  "let range = \<lparr>sr_offset = 10, sr_length = 20, sr_file_index = 0\<rparr>;
       var = (\<lambda>n. \<lparr>vd_name = n, vd_type_name = ''uint256'', vd_src = range,
                   vd_declaration_offset = 12, vd_statement_range = Some range\<rparr>)
   in snd (st_process_step 0x50 (Some 15) [var ''a'', var ''b''] \<lparr>slots = [None, None, None]\<rparr>) =
        [\<lparr>va_name = ''a'', va_stack_position = 1\<rparr>, \<lparr>va_name = ''b'', va_stack_position = 1\<rparr>]"
proof -
  define range where "range = \<lparr>sr_offset = 10, sr_length = 20, sr_file_index = 0\<rparr>"
  define var where "var n = \<lparr>vd_name = n, vd_type_name = ''uint256'', vd_src = range,
      vd_declaration_offset = 12, vd_statement_range = Some range\<rparr>" for n
  have "contains_offset range 15" by (simp add: range_def contains_offset_def wrap_i32_def)
  with tuple_declaration_shares_slot [where op = "0x50" and off = "15" and
        a = "var ''a''" and b = "var ''b''" and t = "\<lparr>slots = [None, None, None]\<rparr>" and
        ?t1.0 = "\<lparr>slots = [None, None]\<rparr>" and sa = range and sb = range]
  show ?thesis
    by (simp add: var_def range_def Let_def opcode_effect_def opcode_effect_nat_def opcode_effect_high_def has_label_def
        pop_n_def split: prod.splits)
qed

end
