(* ===== verification/Memory_Tracker.thy ===== *)
theory Memory_Tracker
  imports Solidity_Ast
begin

text \<open>
  \<^verbatim>\<open>src/memory_tracker.rs\<close>: the tracker of memory resident locals. It watches the
  free memory pointer at address 0x40, registers the region a bump allocates under the variable
  whose source range covers the instruction, and reports the stores that fall inside a region.
  Offsets are \<open>u64\<close> words with the wrapping addition of a release build. The lemmas show that
  regions carry distinct names, stay inside the address space and are disjoint when the snapshots
  are those of a machine, that reported writes lie inside the named region unless the destination
  is within 32 bytes of the end of the address space, and that values read back.
\<close>

section \<open>Data\<close>

record mem_assignment =
  ma_name :: string
  ma_memory_offset :: u64
  ma_size :: nat

record mem_region =
  mr_name :: string
  mr_type_name :: string
  mr_base_offset :: u64
  mr_size_in_bytes :: u64

record memory_tracker =
  mt_regions :: "mem_region list"
  mt_last_fmp :: u64

definition FREE_MEMORY_POINTER_OFFSET :: u64 where "FREE_MEMORY_POINTER_OFFSET = 0x40"

definition INITIAL_FREE_MEMORY_POINTER :: u64 where "INITIAL_FREE_MEMORY_POINTER = 0x80"

definition OP_MSTORE :: byte where "OP_MSTORE = 0x52"

definition OP_MSTORE8 :: byte where "OP_MSTORE8 = 0x53"

definition WORD :: nat where "WORD = 32"

definition memory_tracker_new :: memory_tracker where
  "memory_tracker_new = \<lparr>mt_regions = [], mt_last_fmp = INITIAL_FREE_MEMORY_POINTER\<rparr>"

definition mt_reset :: "memory_tracker \<Rightarrow> memory_tracker" where
  "mt_reset t = t\<lparr>mt_regions := [], mt_last_fmp := INITIAL_FREE_MEMORY_POINTER\<rparr>"

definition region_count :: "memory_tracker \<Rightarrow> nat" where
  "region_count t = length (mt_regions t)"

definition mt_region :: "string \<Rightarrow> memory_tracker \<Rightarrow> mem_region option" where
  "mt_region name t = List.find (\<lambda>r. mr_name r = name) (rev (mt_regions t))"

definition is_already_registered :: "string \<Rightarrow> memory_tracker \<Rightarrow> bool" where
  "is_already_registered name t \<longleftrightarrow> list_ex (\<lambda>r. mr_name r = name) (mt_regions t)"

section \<open>Free helpers\<close>

definition read_word :: "byte list \<Rightarrow> u64 \<Rightarrow> u256 option" where
  "read_word memory offset =
     (if memory = [] \<and> offset \<noteq> 0 then None
      else
        let off = unat offset;
            past = u64_saturating_add off WORD;
            avail_end = min past (length memory) in
        if length memory \<le> off then Some 0
        else let avail = take (avail_end - off) (drop off memory) in
             Some (u256_from_be (avail @ replicate (WORD - length avail) 0)))"

definition u256_to_u64_saturating :: "u256 \<Rightarrow> u64" where
  "u256_to_u64_saturating v = (if drop_bit 64 v \<noteq> 0 then - 1 else ucast v)"

definition pick_var_for_offset :: "int \<Rightarrow> var_decl list \<Rightarrow> var_decl option" where
  "pick_var_for_offset offset vars_in_scope =
     (case List.find (\<lambda>v. is_memory_resident v \<and> vd_declaration_offset v = offset) vars_in_scope of
        Some v \<Rightarrow> Some v
      | None \<Rightarrow>
     (case List.find (\<lambda>v. is_memory_resident v \<and> contains_offset (vd_src v) offset) vars_in_scope of
        Some v \<Rightarrow> Some v
      | None \<Rightarrow>
        List.find (\<lambda>v. is_memory_resident v \<and>
                       (case vd_statement_range v of
                          Some stmt \<Rightarrow> contains_offset stmt offset | None \<Rightarrow> False)) vars_in_scope))"

section \<open>Steps\<close>

definition u64_from_be :: "byte list \<Rightarrow> u64" where
  "u64_from_be bs = of_nat (be_nat bs)"

definition observe_memory :: "byte list \<Rightarrow> memory_tracker \<Rightarrow> memory_tracker" where
  "observe_memory memory t =
     (if length memory < unat FREE_MEMORY_POINTER_OFFSET + WORD then t
      else let start = unat FREE_MEMORY_POINTER_OFFSET;
               word = take WORD (drop start memory) in
           t\<lparr>mt_last_fmp := u64_from_be (drop (WORD - 8) word)\<rparr>)"

definition bump_candidate ::
  "int option \<Rightarrow> var_decl list \<Rightarrow> memory_tracker \<Rightarrow> var_decl option"
where
  "bump_candidate source_offset vars_in_scope t =
     (case (case source_offset of
              None \<Rightarrow> None | Some off \<Rightarrow> pick_var_for_offset off vars_in_scope) of
        Some v \<Rightarrow> Some v
      | None \<Rightarrow> List.find (\<lambda>v. is_memory_resident v \<and> \<not> is_already_registered (vd_name v) t)
                  (rev vars_in_scope))"

definition handle_fmp_bump ::
  "u64 \<Rightarrow> u64 \<Rightarrow> int option \<Rightarrow> var_decl list \<Rightarrow> memory_tracker \<Rightarrow> memory_tracker"
where
  "handle_fmp_bump prev_fmp new_fmp source_offset vars_in_scope t =
     (if new_fmp \<le> prev_fmp then t
      else
        let size = new_fmp - prev_fmp in
        case bump_candidate source_offset vars_in_scope t of
          None \<Rightarrow> t
        | Some v \<Rightarrow>
            if is_already_registered (vd_name v) t then t
            else t\<lparr>mt_regions := mt_regions t @
                     [\<lparr>mr_name = vd_name v, mr_type_name = vd_type_name v,
                       mr_base_offset = prev_fmp, mr_size_in_bytes = size\<rparr>]\<rparr>)"

definition word_in_region :: "u64 \<Rightarrow> mem_region \<Rightarrow> bool" where
  "word_in_region dest r \<longleftrightarrow>
     mr_base_offset r \<le> dest \<and> dest + of_nat WORD \<le> mr_base_offset r + mr_size_in_bytes r"

definition byte_in_region :: "u64 \<Rightarrow> mem_region \<Rightarrow> bool" where
  "byte_in_region dest r \<longleftrightarrow>
     mr_base_offset r \<le> dest \<and> dest < mr_base_offset r + mr_size_in_bytes r"

text \<open>The loops over the regions stop at the first that matches.\<close>

definition report_write ::
  "(mem_region \<Rightarrow> bool) \<Rightarrow> u64 \<Rightarrow> nat \<Rightarrow> memory_tracker \<Rightarrow> mem_assignment list"
where
  "report_write inside dest width t =
     (case List.find inside (mt_regions t) of
        None \<Rightarrow> []
      | Some r \<Rightarrow> [\<lparr>ma_name = mr_name r, ma_memory_offset = dest, ma_size = width\<rparr>])"

definition handle_mstore ::
  "int option \<Rightarrow> var_decl list \<Rightarrow> u256 list \<Rightarrow> u64 \<Rightarrow> memory_tracker \<Rightarrow>
     memory_tracker \<times> mem_assignment list"
where
  "handle_mstore source_offset vars_in_scope pre_stack prev_fmp t =
     (if length pre_stack < 2 then (t, [])
      else
        let dest = u256_to_u64_saturating (pre_stack ! (length pre_stack - 1)) in
        if dest = FREE_MEMORY_POINTER_OFFSET then
          let new_fmp = u256_to_u64_saturating (pre_stack ! (length pre_stack - 2)) in
          (handle_fmp_bump prev_fmp new_fmp source_offset vars_in_scope t, [])
        else (t, report_write (word_in_region dest) dest WORD t))"

definition handle_mstore8 :: "u256 list \<Rightarrow> memory_tracker \<Rightarrow> mem_assignment list" where
  "handle_mstore8 pre_stack t =
     (if length pre_stack < 2 then []
      else let dest = u256_to_u64_saturating (pre_stack ! (length pre_stack - 1)) in
           report_write (byte_in_region dest) dest 1 t)"

definition mt_process_step ::
  "byte \<Rightarrow> int option \<Rightarrow> var_decl list \<Rightarrow> u256 list \<Rightarrow> byte list \<Rightarrow> memory_tracker \<Rightarrow>
     memory_tracker \<times> mem_assignment list"
where
  "mt_process_step opcode source_offset vars_in_scope pre_stack pre_memory t =
     (let prev_fmp = mt_last_fmp t; t1 = observe_memory pre_memory t in
      if opcode = OP_MSTORE then handle_mstore source_offset vars_in_scope pre_stack prev_fmp t1
      else if opcode = OP_MSTORE8 then (t1, handle_mstore8 pre_stack t1)
      else (t1, []))"

section \<open>Reading values\<close>

definition mt_get_variable_value :: "string \<Rightarrow> byte list \<Rightarrow> memory_tracker \<Rightarrow> u256 option" where
  "mt_get_variable_value name memory t =
     (case mt_region name t of None \<Rightarrow> None | Some r \<Rightarrow> read_word memory (mr_base_offset r))"

definition get_field_value :: "string \<Rightarrow> u64 \<Rightarrow> byte list \<Rightarrow> memory_tracker \<Rightarrow> u256 option" where
  "get_field_value name field_offset memory t =
     (case mt_region name t of
        None \<Rightarrow> None
      | Some r \<Rightarrow>
          if mr_size_in_bytes r < field_offset + of_nat WORD then None
          else read_word memory (mr_base_offset r + field_offset))"

definition mt_all_variable_values :: "byte list \<Rightarrow> memory_tracker \<Rightarrow> (string \<times> u256) list" where
  "mt_all_variable_values memory t =
     concat (map (\<lambda>r. case read_word memory (mr_base_offset r) of
                        Some v \<Rightarrow> [(mr_name r, v)] | None \<Rightarrow> []) (mt_regions t))"

section \<open>Lemmas\<close>

subsection \<open>Words in memory\<close>

text \<open>The word an MLOAD reads from a memory that is zero past its end.\<close>

definition memory_byte :: "byte list \<Rightarrow> nat \<Rightarrow> byte" where
  "memory_byte memory i = (if i < length memory then memory ! i else 0)"

definition mload_word :: "byte list \<Rightarrow> nat \<Rightarrow> u256" where
  "mload_word memory off = u256_from_be (map (memory_byte memory) [off..<off + 32])"

text \<open>The memory an MSTORE leaves, extended with zeros as far as needed.\<close>

definition store_bytes :: "byte list \<Rightarrow> nat \<Rightarrow> byte list \<Rightarrow> byte list" where
  "store_bytes memory off bs =
     map (\<lambda>i. if off \<le> i \<and> i < off + length bs then bs ! (i - off) else memory_byte memory i)
       [0..<max (length memory) (off + length bs)]"

lemma be_nat_zeros: "be_nat (replicate n 0) = 0"
  by (induction n) (simp_all add: be_nat_def)

lemma read_word_mload:
  assumes "length memory < 2 ^ 64" and "memory \<noteq> [] \<or> offset = 0"
  shows "read_word memory offset = Some (mload_word memory (unat offset))"
proof (cases "length memory \<le> unat offset")
  case True
  then have "map (memory_byte memory) [unat offset..<unat offset + 32] = replicate 32 0"
    by (intro nth_equalityI) (auto simp: memory_byte_def)
  with True assms show ?thesis
    by (auto simp: read_word_def mload_word_def u256_from_be_def be_nat_zeros)
next
  case False
  let ?o = "unat offset"
  let ?n = "min (min (?o + 32) u64_max) (length memory) - ?o"
  have n: "?n = min 32 (length memory - ?o)"
    using False assms(1) by (auto simp: u64_max_def min_def)
  have "take ?n (drop ?o memory) @ replicate (32 - length (take ?n (drop ?o memory))) 0
          = map (memory_byte memory) [?o..<?o + 32]"
    using False unfolding n by (intro nth_equalityI) (auto simp: memory_byte_def nth_append)
  with False assms show ?thesis
    by (auto simp: read_word_def mload_word_def Let_def WORD_def u64_saturating_add_def)
qed

lemma memory_byte_store_bytes:
  "off \<le> i \<Longrightarrow> i < off + length bs \<Longrightarrow> memory_byte (store_bytes memory off bs) i = bs ! (i - off)"
  by (simp add: memory_byte_def store_bytes_def less_max_iff_disj)

lemma memory_byte_store_bytes_other:
  "i < off \<or> off + length bs \<le> i \<Longrightarrow> memory_byte (store_bytes memory off bs) i = memory_byte memory i"
  by (auto simp: memory_byte_def store_bytes_def)

lemma mload_store_same: "mload_word (store_bytes memory off (u256_to_be v)) off = v"
proof -
  have "map (memory_byte (store_bytes memory off (u256_to_be v))) [off..<off + 32] = u256_to_be v"
    by (intro nth_equalityI) (auto simp: memory_byte_store_bytes)
  then show ?thesis by (simp add: mload_word_def)
qed

lemma mload_store_disjoint:
  assumes "off' + 32 \<le> off \<or> off + length bs \<le> off'"
  shows "mload_word (store_bytes memory off bs) off' = mload_word memory off'"
proof -
  have "map (memory_byte (store_bytes memory off bs)) [off'..<off' + 32]
      = map (memory_byte memory) [off'..<off' + 32]"
    using assms by (auto intro!: memory_byte_store_bytes_other)
  then show ?thesis unfolding mload_word_def by (rule arg_cong)
qed

lemma length_store_bytes [simp]:
  "length (store_bytes memory off bs) = max (length memory) (off + length bs)"
  by (simp add: store_bytes_def)

subsection \<open>Regions\<close>

definition region_end :: "mem_region \<Rightarrow> nat" where
  "region_end r = unat (mr_base_offset r) + unat (mr_size_in_bytes r)"

definition region_ok :: "mem_region \<Rightarrow> bool" where
  "region_ok r \<longleftrightarrow> 0 < unat (mr_size_in_bytes r) \<and> region_end r < 2 ^ 64"

definition mt_ok :: "memory_tracker \<Rightarrow> bool" where
  "mt_ok t \<longleftrightarrow> distinct (map mr_name (mt_regions t)) \<and> list_all region_ok (mt_regions t)"

lemma mt_regions_observe [simp]: "mt_regions (observe_memory memory t) = mt_regions t"
  by (simp add: observe_memory_def Let_def)

lemma already_registered_iff: "is_already_registered n t \<longleftrightarrow> n \<in> mr_name ` set (mt_regions t)"
  by (auto simp: is_already_registered_def list_ex_iff)

lemma handle_fmp_bump_cases:
  "handle_fmp_bump prev new off vars t = t \<or>
   (\<exists>v :: var_decl. prev < new \<and> vd_name v \<notin> mr_name ` set (mt_regions t) \<and>
      handle_fmp_bump prev new off vars t = t\<lparr>mt_regions := mt_regions t @
         [\<lparr>mr_name = vd_name v, mr_type_name = vd_type_name v,
           mr_base_offset = prev, mr_size_in_bytes = new - prev\<rparr>]\<rparr>)"
proof (cases "bump_candidate off vars t")
  case None
  then show ?thesis by (simp add: handle_fmp_bump_def)
next
  case (Some v)
  show ?thesis
  proof (cases "prev < new \<and> vd_name v \<notin> mr_name ` set (mt_regions t)")
    case True
    then have "handle_fmp_bump prev new off vars t = t\<lparr>mt_regions := mt_regions t @
         [\<lparr>mr_name = vd_name v, mr_type_name = vd_type_name v,
           mr_base_offset = prev, mr_size_in_bytes = new - prev\<rparr>]\<rparr>"
      using Some by (simp add: handle_fmp_bump_def already_registered_iff not_le)
    with True show ?thesis by blast
  next
    case False
    then have "handle_fmp_bump prev new off vars t = t"
      using Some by (auto simp: handle_fmp_bump_def already_registered_iff not_le)
    then show ?thesis by blast
  qed
qed

lemma unat_add_sub:
  assumes "prev < (new :: u64)"
  shows "unat prev + unat (new - prev) = unat new"
proof -
  have "unat (new - prev) = unat new - unat prev"
    using assms by (simp add: unat_sub less_imp_le)
  with assms show ?thesis by (simp add: word_less_nat_alt)
qed

lemma region_ok_bump:
  assumes "prev < new"
  shows "region_ok \<lparr>mr_name = n, mr_type_name = ty, mr_base_offset = prev, mr_size_in_bytes = new - prev\<rparr>"
    and "region_end \<lparr>mr_name = n, mr_type_name = ty, mr_base_offset = prev, mr_size_in_bytes = new - prev\<rparr>
           = unat new"
  using assms unat_add_sub [OF assms] unat_u64_less [of new]
  by (simp_all add: region_ok_def region_end_def unat_sub less_imp_le word_less_nat_alt)

lemma mt_ok_new: "mt_ok memory_tracker_new"
  by (simp add: mt_ok_def memory_tracker_new_def)

lemma mt_ok_reset: "mt_ok (mt_reset t)"
  by (simp add: mt_ok_def mt_reset_def)

lemma mt_ok_bump:
  assumes "mt_ok t"
  shows "mt_ok (handle_fmp_bump prev new off vars t)"
  using handle_fmp_bump_cases [of prev new off vars t]
proof (elim disjE exE conjE)
  fix v
  assume "prev < new" "vd_name v \<notin> mr_name ` set (mt_regions t)"
    "handle_fmp_bump prev new off vars t = t\<lparr>mt_regions := mt_regions t @
       [\<lparr>mr_name = vd_name v, mr_type_name = vd_type_name v,
         mr_base_offset = prev, mr_size_in_bytes = new - prev\<rparr>]\<rparr>"
  with assms region_ok_bump(1) show ?thesis by (simp add: mt_ok_def)
qed (use assms in simp)

lemma mt_ok_process_step:
  assumes "mt_ok t"
  shows "mt_ok (fst (mt_process_step op off vars stk mem t))"
proof -
  have "mt_ok (observe_memory mem t)" using assms by (simp add: mt_ok_def)
  then show ?thesis by (simp add: mt_process_step_def handle_mstore_def Let_def mt_ok_bump)
qed

lemma region_end_word:
  assumes "region_ok r"
  shows "unat (mr_base_offset r + mr_size_in_bytes r) = region_end r"
  using assms by (simp add: region_ok_def region_end_def unat_word_ariths)

lemma word_in_region_iff:
  assumes "region_ok r" "unat dest + 32 < 2 ^ 64"
  shows "word_in_region dest r \<longleftrightarrow> unat (mr_base_offset r) \<le> unat dest \<and> unat dest + 32 \<le> region_end r"
proof -
  have "unat (dest + of_nat WORD) = unat dest + 32"
    using assms(2) by (simp add: unat_word_ariths WORD_def)
  with region_end_word [OF assms(1)] show ?thesis
    by (simp add: word_in_region_def word_le_nat_alt)
qed

lemma byte_in_region_iff:
  assumes "region_ok r"
  shows "byte_in_region dest r \<longleftrightarrow> unat (mr_base_offset r) \<le> unat dest \<and> unat dest < region_end r"
  using region_end_word [OF assms]
  by (simp add: byte_in_region_def word_le_nat_alt word_less_nat_alt)

lemma mt_region_distinct:
  assumes "mt_ok t" "r \<in> set (mt_regions t)"
  shows "mt_region (mr_name r) t = Some r"
  using assms unfolding mt_region_def
  by (intro find_unique) (auto simp: mt_ok_def distinct_map inj_on_def)

subsection \<open>Reports\<close>

lemma report_writeD:
  "a \<in> set (report_write inside dest k t) \<Longrightarrow>
     \<exists>r\<in>set (mt_regions t). inside r \<and> ma_name a = mr_name r \<and> ma_memory_offset a = dest \<and> ma_size a = k"
  by (cases "List.find inside (mt_regions t)") (auto simp: report_write_def dest: find_SomeD)

lemma report_write_complete:
  "r \<in> set (mt_regions t) \<Longrightarrow> inside r \<Longrightarrow> report_write inside dest k t \<noteq> []"
  using find_member [of r "mt_regions t" inside] by (auto simp: report_write_def)

text \<open>The destination operand of a store, and the bytes it writes.\<close>

definition store_dest :: "u256 list \<Rightarrow> u64" where
  "store_dest stk = u256_to_u64_saturating (last stk)"

lemma drop_bit_64_zero: "unat (v :: u256) < 2 ^ 64 \<longleftrightarrow> drop_bit 64 v = 0"
proof -
  have u: "unat (drop_bit 64 v) = unat v div 2 ^ 64"
    by (metis unat_drop_bit_eq drop_bit_eq_div)
  have "drop_bit 64 v = 0 \<longleftrightarrow> unat (drop_bit 64 v) = 0" by (simp only: unat_eq_0)
  also have "... \<longleftrightarrow> unat v < 2 ^ 64" unfolding u by (simp add: div_eq_0_iff)
  finally show ?thesis by simp
qed

lemma u256_to_u64_exact:
  assumes "unat v < 2 ^ 64"
  shows "unat (u256_to_u64_saturating v) = unat v"
proof -
  have "unat (ucast v :: u64) = take_bit 64 (unat v)" by (simp add: unsigned_ucast_eq)
  also have "... = unat v" using assms by (simp add: take_bit_nat_eq_self)
  finally show ?thesis
    using assms unfolding u256_to_u64_saturating_def drop_bit_64_zero by simp
qed

lemma u256_to_u64_saturates: "2 ^ 64 \<le> unat v \<Longrightarrow> u256_to_u64_saturating v = - 1"
  using drop_bit_64_zero [of v] by (simp add: u256_to_u64_saturating_def)

lemma process_step_reports:
  assumes "mt_ok t" "a \<in> set (snd (mt_process_step op off vars stk mem t))"
    and "unat (last stk) + 32 < 2 ^ 64"
  shows "\<exists>r. mt_region (ma_name a) t = Some r \<and> unat (mr_base_offset r) \<le> unat (last stk) \<and>
           unat (last stk) + ma_size a \<le> region_end r \<and> unat (ma_memory_offset a) = unat (last stk)"
proof -
  let ?dest = "u256_to_u64_saturating (last stk)"
  have dest: "unat ?dest = unat (last stk)" using assms(3) by (simp add: u256_to_u64_exact)
  have top: "stk ! (length stk - 1) = last stk" if "\<not> length stk < 2" using that by (cases stk rule: rev_cases) simp_all
  obtain r where r: "r \<in> set (mt_regions t)" "ma_name a = mr_name r" "ma_memory_offset a = ?dest"
    and inside: "word_in_region ?dest r \<and> ma_size a = 32 \<or> byte_in_region ?dest r \<and> ma_size a = 1"
    using assms(2) top
    by (auto simp: mt_process_step_def handle_mstore_def handle_mstore8_def Let_def WORD_def
        split: if_splits dest!: report_writeD)
  have "region_ok r" using r(1) assms(1) by (auto simp: mt_ok_def list_all_iff)
  with inside dest assms(3) have "unat (mr_base_offset r) \<le> unat (last stk)"
    "unat (last stk) + ma_size a \<le> region_end r"
    by (auto simp: word_in_region_iff byte_in_region_iff)
  with r dest mt_region_distinct [OF assms(1) r(1)] show ?thesis by auto
qed

subsection \<open>Fields\<close>

lemma get_field_value_mload:
  assumes "mt_ok t" "r \<in> set (mt_regions t)" "unat off + 32 \<le> unat (mr_size_in_bytes r)"
    and "length memory < 2 ^ 64" "memory \<noteq> []"
  shows "get_field_value (mr_name r) off memory t
           = Some (mload_word memory (unat (mr_base_offset r) + unat off))"
proof -
  have ok: "region_ok r" using assms(1,2) by (auto simp: mt_ok_def list_all_iff)
  have "unat (off + of_nat WORD) = unat off + 32"
    using assms(3) unat_u64_less [of "mr_size_in_bytes r"] by (simp add: unat_word_ariths WORD_def)
  then have "\<not> mr_size_in_bytes r < off + of_nat WORD"
    using assms(3) by (simp add: word_less_nat_alt)
  moreover have "unat (mr_base_offset r + off) = unat (mr_base_offset r) + unat off"
    using ok assms(3) by (simp add: unat_word_ariths region_ok_def region_end_def)
  ultimately show ?thesis
    using mt_region_distinct [OF assms(1,2)] read_word_mload [OF assms(4), of "mr_base_offset r + off"]
      assms(5) by (simp add: get_field_value_def)
qed

subsection \<open>A machine's free memory pointer\<close>

type_synonym mem_step = "byte \<times> int option \<times> var_decl list \<times> u256 list \<times> byte list"

definition mem_track :: "mem_step \<Rightarrow> memory_tracker \<Rightarrow> memory_tracker" where
  "mem_track = (\<lambda>(op, off, vars, stk, mem) t. fst (mt_process_step op off vars stk mem t))"

definition stored_fmp :: "byte list \<Rightarrow> u64" where
  "stored_fmp mem = u64_from_be (drop 24 (take 32 (drop 64 mem)))"

definition bump_to :: "byte \<Rightarrow> u256 list \<Rightarrow> u64 option" where
  "bump_to op stk =
     (if op = OP_MSTORE \<and> 2 \<le> length stk \<and> u256_to_u64_saturating (last stk) = 0x40
      then Some (u256_to_u64_saturating (stk ! (length stk - 2))) else None)"

text \<open>
  The snapshots carry the pointer the machine holds, once its memory reaches past 0x40 (before
  that nothing was stored there, and the pointer is the initial one): it changes only by a store
  to 0x40, never downwards, and two such stores are never adjacent.
\<close>

definition held_fmp :: "u64 \<Rightarrow> byte list \<Rightarrow> u64" where
  "held_fmp prev mem = (if 96 \<le> length mem then stored_fmp mem else prev)"

fun fmp_trace :: "u64 \<Rightarrow> u64 \<Rightarrow> mem_step list \<Rightarrow> bool" where
  "fmp_trace prev cur [] \<longleftrightarrow> True"
| "fmp_trace prev cur ((op, off, vars, stk, mem) # steps) \<longleftrightarrow>
     held_fmp prev mem = cur \<and>
     (case bump_to op stk of
        None \<Rightarrow> fmp_trace cur cur steps
      | Some new \<Rightarrow> prev = cur \<and> cur \<le> new \<and> fmp_trace cur new steps)"

definition pairwise_disjoint :: "mem_region list \<Rightarrow> bool" where
  "pairwise_disjoint rs \<longleftrightarrow> (\<forall>r\<in>set rs. \<forall>s\<in>set rs. r \<noteq> s \<longrightarrow>
     region_end r \<le> unat (mr_base_offset s) \<or> region_end s \<le> unat (mr_base_offset r))"

definition below :: "u64 \<Rightarrow> mem_region list \<Rightarrow> bool" where
  "below cur rs \<longleftrightarrow> (\<forall>r\<in>set rs. region_end r \<le> unat cur)"

lemma observe_memory_fmp: "mt_last_fmp (observe_memory mem t) = held_fmp (mt_last_fmp t) mem"
  by (simp add: observe_memory_def held_fmp_def stored_fmp_def FREE_MEMORY_POINTER_OFFSET_def WORD_def Let_def)

lemma last_fmp_bump [simp]: "mt_last_fmp (handle_fmp_bump prev new off vars t) = mt_last_fmp t"
  by (simp add: handle_fmp_bump_def Let_def split: option.split)

lemma process_step_no_bump:
  assumes "bump_to op stk = None"
  shows "fst (mt_process_step op off vars stk mem t) = observe_memory mem t"
proof -
  have "stk ! (length stk - 1) = last stk" if "\<not> length stk < 2"
    using that by (cases stk rule: rev_cases) simp_all
  with assms show ?thesis
    by (auto simp: bump_to_def mt_process_step_def handle_mstore_def Let_def
        FREE_MEMORY_POINTER_OFFSET_def OP_MSTORE8_def split: if_splits)
qed

lemma process_step_bump:
  assumes "bump_to op stk = Some new"
  shows "fst (mt_process_step op off vars stk mem t)
           = handle_fmp_bump (mt_last_fmp t) new off vars (observe_memory mem t)"
proof -
  have "stk ! (length stk - 1) = last stk" if "2 \<le> length stk"
    using that by (cases stk rule: rev_cases) simp_all
  with assms show ?thesis
    by (auto simp: bump_to_def mt_process_step_def handle_mstore_def Let_def
        FREE_MEMORY_POINTER_OFFSET_def split: if_splits)
qed

lemma bump_disjoint:
  assumes "below cur (mt_regions t)" "pairwise_disjoint (mt_regions t)" "cur \<le> new"
    and rs_def: "rs = mt_regions (handle_fmp_bump cur new off vars t)"
  shows "below new rs \<and> pairwise_disjoint rs"
  using handle_fmp_bump_cases [of cur new off vars t]
proof (elim disjE exE conjE)
  assume "handle_fmp_bump cur new off vars t = t"
  with assms show ?thesis by (auto simp: below_def word_le_nat_alt)
next
  fix v
  let ?r = "\<lparr>mr_name = vd_name v, mr_type_name = vd_type_name v,
              mr_base_offset = cur, mr_size_in_bytes = new - cur\<rparr>"
  assume lt: "cur < new" and "handle_fmp_bump cur new off vars t = t\<lparr>mt_regions := mt_regions t @ [?r]\<rparr>"
  then have rs: "rs = mt_regions t @ [?r]" by (simp add: rs_def)
  have "region_end ?r = unat new" by (rule region_ok_bump(2) [OF lt])
  with assms(1) lt have "below new rs" unfolding rs below_def
    by (auto simp: word_less_nat_alt intro: le_trans)
  moreover have "pairwise_disjoint rs"
    using assms(1,2) unfolding rs pairwise_disjoint_def below_def by auto
  ultimately show ?thesis by blast
qed

lemma fmp_trace_disjoint:
  "fmp_trace prev cur steps \<Longrightarrow> mt_last_fmp t = prev \<Longrightarrow> below cur (mt_regions t) \<Longrightarrow>
   pairwise_disjoint (mt_regions t) \<Longrightarrow> pairwise_disjoint (mt_regions (fold mem_track steps t))"
proof (induction prev cur steps arbitrary: t rule: fmp_trace.induct)
  case (1 prev cur)
  then show ?case by simp
next
  case (2 prev cur op off vars stk mem steps)
  let ?t = "fst (mt_process_step op off vars stk mem t)"
  have mem: "mt_last_fmp (observe_memory mem t) = cur"
    using 2 by (simp add: observe_memory_fmp)
  have "pairwise_disjoint (mt_regions (fold mem_track steps ?t))"
  proof (cases "bump_to op stk")
    case None
    with 2 mem show ?thesis by (simp add: process_step_no_bump)
  next
    case (Some new)
    with 2 have "prev = cur" "cur \<le> new" "fmp_trace cur new steps" by simp_all
    with 2 Some mem bump_disjoint [OF _ _ _ refl, of cur "observe_memory mem t" new off vars]
    show ?thesis by (simp add: process_step_bump)
  qed
  then show ?case by (simp add: mem_track_def)
qed

lemma mt_ok_fold: "mt_ok t \<Longrightarrow> mt_ok (fold mem_track steps t)"
  by (induction steps arbitrary: t) (auto simp: mem_track_def mt_ok_process_step)

lemma saturated_store_reported:
  assumes "mt_ok t" "mt_regions t = r # rs" "0x80 \<le> mr_base_offset r"
    and "2 \<le> length stk" "2 ^ 64 \<le> unat (last stk)"
  shows "snd (mt_process_step OP_MSTORE off vars stk mem t)
           = [\<lparr>ma_name = mr_name r, ma_memory_offset = - 1, ma_size = 32\<rparr>]"
proof -
  have "region_ok r" using assms(1,2) by (simp add: mt_ok_def)
  then have e: "unat (mr_base_offset r + mr_size_in_bytes r) = region_end r" by (rule region_end_word)
  have "unat (0x80 :: u64) \<le> unat (mr_base_offset r)" using assms(3) by (simp only: word_le_nat_alt)
  then have "31 \<le> region_end r" by (simp add: region_end_def)
  moreover have "(- 1 :: u64) + of_nat WORD = 31" by (simp add: WORD_def)
  moreover have "mr_base_offset r \<le> - 1" by simp
  ultimately have "word_in_region (- 1) r" using e by (simp add: word_in_region_def word_le_nat_alt)
  moreover have "stk ! (length stk - 1) = last stk" using assms(4) by (cases stk rule: rev_cases) simp_all
  ultimately show ?thesis
    using assms by (simp add: mt_process_step_def handle_mstore_def Let_def u256_to_u64_saturates
        FREE_MEMORY_POINTER_OFFSET_def report_write_def WORD_def)
qed

section \<open>Properties\<close>

text \<open>An example: one allocation of 64 bytes for a variable \<open>s\<close>.\<close>

definition example_var :: "string \<Rightarrow> var_decl" where
  "example_var n = \<lparr>vd_name = n, vd_type_name = ''struct S memory'',
     vd_src = \<lparr>sr_offset = 10, sr_length = 5, sr_file_index = 0\<rparr>,
     vd_declaration_offset = 10, vd_statement_range = None\<rparr>"

definition example_region :: mem_region where
  "example_region = \<lparr>mr_name = ''s'', mr_type_name = ''struct S memory'',
     mr_base_offset = 0x80, mr_size_in_bytes = 0x40\<rparr>"

definition example_tracker :: memory_tracker where
  "example_tracker = \<lparr>mt_regions = [example_region], mt_last_fmp = 0xc0\<rparr>"

lemma example_ok: "mt_ok example_tracker" "mt_regions example_tracker = [example_region]"
  by (simp_all add: mt_ok_def example_tracker_def example_region_def region_ok_def region_end_def)

text \<open>
  C25: for every MSTORE or MSTORE8 whose destination leaves room for a word below 2^64 (address +
  32 < 2^64), a region is reported only if the store lies inside it: each reported assignment
  names a tracked region that contains all the bytes it says were written, at the address the
  instruction wrote. The bound is needed: a larger destination is saturated and misreported, as
  \<open>saturated_destination_misreported\<close> shows.
\<close>

theorem reported_writes_inside_region:
  assumes "mt_ok t" and "a \<in> set (snd (mt_process_step op off vars stk mem t))"
    and "unat (last stk) + 32 < 2 ^ 64"
  shows "\<exists>r. mt_region (ma_name a) t = Some r \<and> unat (mr_base_offset r) \<le> unat (last stk) \<and>
           unat (last stk) + ma_size a \<le> region_end r \<and> unat (ma_memory_offset a) = unat (last stk)"
  using assms by (rule process_step_reports)

theorem reported_writes_inside_region_witness:
  "snd (mt_process_step 0x52 None [] [7, 0x90] [] example_tracker)
     = [\<lparr>ma_name = ''s'', ma_memory_offset = 0x90, ma_size = 32\<rparr>] \<and>
   mt_region ''s'' example_tracker = Some example_region"
proof -
  have report: "snd (mt_process_step 0x52 None [] [7, 0x90] [] example_tracker)
      = [\<lparr>ma_name = ''s'', ma_memory_offset = 0x90, ma_size = 32\<rparr>]"
    by (simp add: mt_process_step_def handle_mstore_def report_write_def word_in_region_def
        observe_memory_def OP_MSTORE_def WORD_def FREE_MEMORY_POINTER_OFFSET_def
        u256_to_u64_saturating_def example_tracker_def example_region_def)
  from reported_writes_inside_region [OF example_ok(1), of
      "\<lparr>ma_name = ''s'', ma_memory_offset = 0x90, ma_size = 32\<rparr>" "0x52" None "[]" "[7, 0x90]" "[]"] report
  show ?thesis by (simp add: mt_region_def example_tracker_def example_region_def)
qed

text \<open>
  A destination that does not fit in 64 bits is saturated to the last address, and adding the
  word size to it wraps: the store, which no machine can perform, is reported as a write to the
  first tracked region.
\<close>

theorem saturated_destination_misreported:
  assumes "mt_ok t" and "mt_regions t = r # rs" and "0x80 \<le> mr_base_offset r"
    and "2 \<le> length stk" and "2 ^ 64 \<le> unat (last stk)"
  shows "snd (mt_process_step OP_MSTORE off vars stk mem t)
           = [\<lparr>ma_name = mr_name r, ma_memory_offset = - 1, ma_size = 32\<rparr>]"
  using assms by (rule saturated_store_reported)

theorem saturated_destination_misreported_witness:
  "snd (mt_process_step OP_MSTORE None [] [7, 2 ^ 64] [] example_tracker)
     = [\<lparr>ma_name = ''s'', ma_memory_offset = - 1, ma_size = 32\<rparr>]"
  using saturated_destination_misreported [OF example_ok, of "[7, 2 ^ 64]" None "[]" "[]"]
  by (simp add: example_region_def)

text \<open>
  C27: whatever steps are processed, starting from a fresh tracker, each variable owns at most one
  region and no region runs past the end of the address space. If in addition the memory snapshots
  are those of a machine whose free memory pointer starts at 0x80 and only grows, two such stores
  never adjacent, the regions of different variables are disjoint. Such a machine may start with
  no memory at all: its first store to 0x40 is one of the steps.
\<close>

theorem regions_disjoint:
  "mt_ok (fold mem_track steps memory_tracker_new) \<and>
   (fmp_trace 0x80 0x80 steps \<longrightarrow>
      pairwise_disjoint (mt_regions (fold mem_track steps memory_tracker_new)))"
proof (intro conjI impI)
  show "mt_ok (fold mem_track steps memory_tracker_new)" by (rule mt_ok_fold [OF mt_ok_new])
  assume "fmp_trace 0x80 0x80 steps"
  then show "pairwise_disjoint (mt_regions (fold mem_track steps memory_tracker_new))"
    by (rule fmp_trace_disjoint)
      (simp_all add: memory_tracker_new_def INITIAL_FREE_MEMORY_POINTER_def below_def
        pairwise_disjoint_def)
qed

lemma example_memory_kind: "classify_type_name ''struct S memory'' = MemoryKind"
  by code_simp

definition example_memory :: "byte \<Rightarrow> byte list" where
  "example_memory p = replicate 95 0 @ [p]"

lemma stored_fmp_example: "length (example_memory p) = 96" "stored_fmp (example_memory p) = ucast p"
  by (simp_all add: example_memory_def stored_fmp_def u64_from_be_def be_nat_zeros)

lemma observe_example: "observe_memory (example_memory p) t = t\<lparr>mt_last_fmp := ucast p\<rparr>"
  using stored_fmp_example [of p]
  by (simp add: observe_memory_def stored_fmp_def FREE_MEMORY_POINTER_OFFSET_def WORD_def Let_def)

definition example_steps :: "mem_step list" where
  "example_steps =
     [(0x60, None, [], [], []),
      (0x60, None, [], [0x80], []),
      (0x52, Some 1, [], [0x80, 0x40], []),
      (0x60, None, [], [], example_memory 0x80),
      (0x52, Some 10, [example_var ''a''], [0xc0, 0x40], example_memory 0x80),
      (0x01, None, [], [], example_memory 0xc0),
      (0x52, Some 10, [example_var ''b''], [0xe0, 0x40], example_memory 0xc0)]"

lemma example_var_fields [simp]:
  "vd_name (example_var n) = n" "vd_type_name (example_var n) = ''struct S memory''"
  "vd_declaration_offset (example_var n) = 10" "is_memory_resident (example_var n)"
  by (simp_all add: example_var_def is_memory_resident_def storage_kind_def example_memory_kind)

lemma example_saturating [simp]:
  "u256_to_u64_saturating 0xc0 = 0xc0" "u256_to_u64_saturating 0xe0 = 0xe0"
  "u256_to_u64_saturating 0x40 = 0x40"
  by (simp_all add: u256_to_u64_saturating_def)

lemma example_bump:
  "handle_fmp_bump prev new (Some 10) [example_var n] t =
     (if new \<le> prev \<or> is_already_registered n t then t
      else t\<lparr>mt_regions := mt_regions t @
              [\<lparr>mr_name = n, mr_type_name = ''struct S memory'', mr_base_offset = prev,
                mr_size_in_bytes = new - prev\<rparr>]\<rparr>)"
  by (simp add: handle_fmp_bump_def bump_candidate_def pick_var_for_offset_def)

lemma example_store:
  "fst (mt_process_step 0x52 (Some 10) [example_var n] [new, 0x40] (example_memory p) t)
     = handle_fmp_bump (mt_last_fmp t) (u256_to_u64_saturating new) (Some 10) [example_var n]
         (t\<lparr>mt_last_fmp := ucast p\<rparr>)"
  by (simp add: mt_process_step_def handle_mstore_def OP_MSTORE_def observe_example Let_def
      FREE_MEMORY_POINTER_OFFSET_def)

lemma example_add: "fst (mt_process_step 0x01 None [] [] (example_memory p) t) = t\<lparr>mt_last_fmp := ucast p\<rparr>"
  by (simp add: mt_process_step_def OP_MSTORE_def OP_MSTORE8_def observe_example)

lemma example_push: "fst (mt_process_step 0x60 None [] stk (example_memory p) t) = t\<lparr>mt_last_fmp := ucast p\<rparr>"
  by (simp add: mt_process_step_def OP_MSTORE_def OP_MSTORE8_def observe_example)

lemma example_setup:
  "fst (mt_process_step 0x60 None [] stk [] t) = t"
  "mt_last_fmp t = 0x80 \<Longrightarrow> fst (mt_process_step 0x52 (Some 1) [] [0x80, 0x40] [] t) = t"
  by (simp_all add: mt_process_step_def OP_MSTORE_def OP_MSTORE8_def observe_memory_def handle_mstore_def
      handle_fmp_bump_def FREE_MEMORY_POINTER_OFFSET_def WORD_def u256_to_u64_saturating_def Let_def)

lemma example_steps_regions:
  "map mr_name (mt_regions (fold mem_track example_steps memory_tracker_new)) = [''a'', ''b'']"
  by (simp add: example_steps_def mem_track_def example_setup example_push example_store example_add example_bump
      is_already_registered_def memory_tracker_new_def INITIAL_FREE_MEMORY_POINTER_def)

theorem regions_disjoint_witness:
  "map mr_name (mt_regions (fold mem_track example_steps memory_tracker_new)) = [''a'', ''b''] \<and>
   pairwise_disjoint (mt_regions (fold mem_track example_steps memory_tracker_new))"
proof -
  have "fmp_trace 0x80 0x80 example_steps"
    by (simp add: example_steps_def held_fmp_def stored_fmp_example bump_to_def OP_MSTORE_def
        u256_to_u64_saturating_def)
  with regions_disjoint [of example_steps] show ?thesis by (simp add: example_steps_regions)
qed

text \<open>
  C26: a word stored into a field of a tracked region is the word \<open>get_field_value\<close> reads there,
  and storing it leaves the value of every field that does not overlap it.
\<close>

theorem field_store_read_back:
  fixes v :: u256
  assumes "mt_ok t" and "r \<in> set (mt_regions t)"
    and "unat off + 32 \<le> unat (mr_size_in_bytes r)" and "length memory < 2 ^ 64"
    and "unat off' + 32 \<le> unat (mr_size_in_bytes r)" and "memory \<noteq> []"
    and "unat off + 32 \<le> unat off' \<or> unat off' + 32 \<le> unat off"
  defines "memory' \<equiv> store_bytes memory (unat (mr_base_offset r) + unat off) (u256_to_be v)"
  shows "get_field_value (mr_name r) off memory' t = Some v \<and>
         get_field_value (mr_name r) off' memory' t = get_field_value (mr_name r) off' memory t"
proof -
  have "region_ok r" using assms(1,2) by (auto simp: mt_ok_def list_all_iff)
  with assms(3,4) have "length memory' < 2 ^ 64" "memory' \<noteq> []"
    by (auto simp: memory'_def region_ok_def region_end_def simp flip: length_greater_0_conv)
  with assms get_field_value_mload [OF assms(1,2)] show ?thesis
    by (auto simp: memory'_def mload_store_same mload_store_disjoint)
qed

theorem field_store_read_back_witness:
  "get_field_value ''s'' 32 (store_bytes [1] 0xa0 (u256_to_be 77)) example_tracker = Some 77"
  using field_store_read_back [OF example_ok(1), of example_region 32 "[1]" 0 77]
  by (simp add: example_ok(2)) (simp add: example_region_def)

end
