(* ===== verification/Keyed_Store.thy ===== *)
theory Keyed_Store
  imports Evm_Prelude
begin

text \<open>
  The contract of the tables the recorder keeps (the contract registry, the current storage
  values, the recorded preimages of hashes): what a lookup answers after an update. The lemma
  about a sequence of updates is proved once from the two laws.
\<close>

locale keyed_store =
  fixes lookup :: "'s \<Rightarrow> 'k \<Rightarrow> 'v option"
    and update :: "'k \<Rightarrow> 'v \<Rightarrow> 's \<Rightarrow> 's"
  assumes lookup_update_same: "lookup (update k v s) k = Some v"
    and lookup_update_other: "k' \<noteq> k \<Longrightarrow> lookup (update k v s) k' = lookup s k'"
begin

lemma lookup_update: "lookup (update k v s) k' = (if k' = k then Some v else lookup s k')"
  using lookup_update_same lookup_update_other by simp

text \<open>The last update of a key wins; the others are not touched.\<close>

lemma lookup_updates:
  "lookup (fold (\<lambda>(k, v). update k v) kvs s) k
     = (case map_of (rev kvs) k of Some v \<Rightarrow> Some v | None \<Rightarrow> lookup s k)"
proof (induction kvs rule: rev_induct)
  case Nil
  then show ?case by simp
next
  case (snoc kv kvs)
  then show ?case by (cases kv) (simp add: lookup_update)
qed

lemma lookup_updates_untouched:
  "k \<notin> fst ` set kvs \<Longrightarrow> lookup (fold (\<lambda>(k, v). update k v) kvs s) k = lookup s k"
  by (simp add: lookup_updates map_of_eq_None_iff [THEN iffD2] split: option.split)

end

text \<open>The functional map a \<open>HashMap\<close> is modelled by keeps the contract.\<close>

interpretation hash_map: keyed_store "\<lambda>m. m" "\<lambda>k v m. m(k \<mapsto> v)"
  by unfold_locales auto

end
