(* ===== verification/Storage_Layout.thy ===== *)
theory Storage_Layout
  imports Rust_Text
begin

text \<open>
  \<^verbatim>\<open>src/storage_layout.rs\<close>: the storage layout of solc and the lookups that name a slot.
  The \<open>HashMap\<close> of types is a partial map; slots are parsed from decimal strings as \<open>u64\<close>,
  kept as \<open>nat\<close> below \<open>2 ^ 64\<close> with the wrapping of \<open>base_slot + slot_count\<close> written out.
  \<open>StorageLayout::from_json\<close> is generated by serde and not modelled. The lemmas state what each
  lookup promises of the entry it answers, and when the lookups overlap.
\<close>

section \<open>Data\<close>

record storage_entry =
  se_label :: string
  se_slot :: string
  se_offset :: nat
  se_type_name :: string

record storage_type_info =
  ti_encoding :: string
  ti_label :: string
  ti_number_of_bytes :: string
  ti_key :: "string option"
  ti_value :: "string option"
  ti_base :: "string option"
  ti_members :: "storage_entry list option"

record storage_layout =
  sl_storage :: "storage_entry list"
  sl_types :: "string \<Rightarrow> storage_type_info option"

section \<open>Lookups\<close>

definition find_by_label :: "storage_layout \<Rightarrow> string \<Rightarrow> storage_entry option" where
  "find_by_label l label = List.find (\<lambda>e. se_label e = label) (sl_storage l)"

definition resolve_slot :: "storage_layout \<Rightarrow> string \<Rightarrow> storage_entry option" where
  "resolve_slot l slot = List.find (\<lambda>e. se_slot e = slot) (sl_storage l)"

definition type_info :: "storage_layout \<Rightarrow> storage_entry \<Rightarrow> storage_type_info option" where
  "type_info l entry = sl_types l (se_type_name entry)"

text \<open>\<open>u64::div_ceil(32)\<close>.\<close>

definition slots_of_bytes :: "nat \<Rightarrow> nat" where
  "slots_of_bytes total_bytes = (total_bytes + 31) div 32"

text \<open>The inner loop over the members of a struct.\<close>

definition member_at :: "nat \<Rightarrow> nat \<Rightarrow> storage_entry list \<Rightarrow> storage_entry option" where
  "member_at base_slot slot members =
     List.find (\<lambda>member. case parse_u64 (se_slot member) of
                  None \<Rightarrow> False
                | Some member_offset \<Rightarrow> u64_saturating_add base_slot member_offset = slot) members"

definition struct_member_at :: "storage_layout \<Rightarrow> nat \<Rightarrow> (string \<times> string) option" where
  "struct_member_at l slot =
     find_map (\<lambda>entry.
       case parse_u64 (se_slot entry) of None \<Rightarrow> None | Some base_slot \<Rightarrow>
       case type_info l entry of None \<Rightarrow> None | Some ti \<Rightarrow>
       if ti_encoding ti \<noteq> ''inplace'' then None else
       case ti_members ti of None \<Rightarrow> None | Some members \<Rightarrow>
       case member_at base_slot slot members of
         None \<Rightarrow> None
       | Some member \<Rightarrow> Some (se_label entry, se_label member)) (sl_storage l)"

definition array_element_at :: "storage_layout \<Rightarrow> nat \<Rightarrow> (string \<times> nat) option" where
  "array_element_at l slot =
     find_map (\<lambda>entry.
       case parse_u64 (se_slot entry) of None \<Rightarrow> None | Some base_slot \<Rightarrow>
       case type_info l entry of None \<Rightarrow> None | Some ti \<Rightarrow>
       if ti_encoding ti \<noteq> ''inplace'' then None else
       if ti_base ti = None then None else
       case parse_u64 (ti_number_of_bytes ti) of None \<Rightarrow> None | Some total_bytes \<Rightarrow>
       let slot_count = slots_of_bytes total_bytes in
       if base_slot \<le> slot \<and> slot < u64_add base_slot slot_count
       then Some (se_label entry, slot - base_slot) else None) (sl_storage l)"

definition mapping_at_base :: "storage_layout \<Rightarrow> nat \<Rightarrow> (string \<times> string) option" where
  "mapping_at_base l base_slot =
     find_map (\<lambda>entry.
       case parse_u64 (se_slot entry) of None \<Rightarrow> None | Some entry_slot \<Rightarrow>
       if entry_slot \<noteq> base_slot then None else
       case type_info l entry of None \<Rightarrow> None | Some ti \<Rightarrow>
       if ti_encoding ti \<noteq> ''mapping'' then None else
       case ti_key ti of None \<Rightarrow> None | Some key_type_id \<Rightarrow>
       let key_label = (case sl_types l key_type_id of Some kt \<Rightarrow> ti_label kt | None \<Rightarrow> ''uint256'') in
       Some (se_label entry, key_label)) (sl_storage l)"

definition containing_compound ::
  "storage_layout \<Rightarrow> nat \<Rightarrow> (storage_entry \<times> storage_type_info \<times> nat) option"
where
  "containing_compound l slot =
     find_map (\<lambda>entry.
       case parse_u64 (se_slot entry) of None \<Rightarrow> None | Some base_slot \<Rightarrow>
       case type_info l entry of None \<Rightarrow> None | Some ti \<Rightarrow>
       case parse_u64 (ti_number_of_bytes ti) of None \<Rightarrow> None | Some total_bytes \<Rightarrow>
       let slot_count = slots_of_bytes total_bytes in
       if slot_count \<le> 1 then None else
       if ti_encoding ti \<noteq> ''inplace'' then None else
       if ti_members ti = None \<and> ti_base ti = None then None else
       if base_slot \<le> slot \<and> slot < u64_add base_slot slot_count
       then Some (entry, ti, slot_count) else None) (sl_storage l)"

section \<open>Specification: the slots an entry owns\<close>

text \<open>
  The base slot and the number of slots of an entry, as the layout states them, and the layouts
  in which no two compound entries own a slot in common, which is what solc promises.
\<close>

definition entry_extent :: "storage_layout \<Rightarrow> storage_entry \<Rightarrow> (nat \<times> nat) option" where
  "entry_extent l e =
     (case (parse_u64 (se_slot e), type_info l e) of
        (Some base, Some ti) \<Rightarrow>
          (case parse_u64 (ti_number_of_bytes ti) of
             Some n \<Rightarrow> Some (base, slots_of_bytes n) | None \<Rightarrow> None)
      | _ \<Rightarrow> None)"

definition owns :: "storage_layout \<Rightarrow> storage_entry \<Rightarrow> nat \<Rightarrow> bool" where
  "owns l e slot \<longleftrightarrow> (case entry_extent l e of
     Some (base, n) \<Rightarrow> base \<le> slot \<and> slot < base + n | None \<Rightarrow> False)"

definition compound_entry :: "storage_layout \<Rightarrow> storage_entry \<Rightarrow> bool" where
  "compound_entry l e \<longleftrightarrow> (case type_info l e of
     Some ti \<Rightarrow> ti_encoding ti = ''inplace'' \<and> (ti_members ti \<noteq> None \<or> ti_base ti \<noteq> None)
   | None \<Rightarrow> False)"

definition layout_ok :: "storage_layout \<Rightarrow> bool" where
  "layout_ok l \<longleftrightarrow>
     (\<forall>e\<in>set (sl_storage l). \<forall>base n. entry_extent l e = Some (base, n) \<longrightarrow> base + n < 2 ^ 64) \<and>
     (\<forall>e\<in>set (sl_storage l). \<forall>f\<in>set (sl_storage l). \<forall>slot.
        compound_entry l e \<longrightarrow> compound_entry l f \<longrightarrow> owns l e slot \<longrightarrow> owns l f slot \<longrightarrow> e = f)"

definition is_array :: "storage_layout \<Rightarrow> storage_entry \<Rightarrow> bool" where
  "is_array l e \<longleftrightarrow> (case type_info l e of
     Some ti \<Rightarrow> ti_encoding ti = ''inplace'' \<and> ti_base ti \<noteq> None | None \<Rightarrow> False)"

section \<open>Lemmas\<close>

lemma find_map_unique:
  assumes "x \<in> set xs" "f x = Some y" "\<And>z. z \<in> set xs \<Longrightarrow> f z \<noteq> None \<Longrightarrow> z = x"
  shows "find_map f xs = Some y"
proof (cases "find_map f xs")
  case None
  with assms(1,2) show ?thesis by (metis find_map_None option.distinct(1))
next
  case (Some w)
  from find_map_SomeD [OF Some] obtain z where "z \<in> set xs" "f z = Some w" by blast
  with assms(2,3) Some show ?thesis by force
qed

text \<open>The bodies of the loops over the entries.\<close>

definition array_case :: "storage_layout \<Rightarrow> nat \<Rightarrow> storage_entry \<Rightarrow> (string \<times> nat) option" where
  "array_case l slot e =
     (if is_array l e then
        (case entry_extent l e of
           Some (base, n) \<Rightarrow> if base \<le> slot \<and> slot < u64_add base n then Some (se_label e, slot - base) else None
         | None \<Rightarrow> None)
      else None)"

lemma array_element_at_case: "array_element_at l slot = find_map (array_case l slot) (sl_storage l)"
  unfolding array_element_at_def
  by (rule arg_cong [where f = "\<lambda>f. find_map f (sl_storage l)"], rule ext)
    (auto simp: array_case_def is_array_def entry_extent_def Let_def split: option.split)

definition compound_case ::
  "storage_layout \<Rightarrow> nat \<Rightarrow> storage_entry \<Rightarrow> (storage_entry \<times> storage_type_info \<times> nat) option" where
  "compound_case l slot e =
     (if compound_entry l e then
        (case (entry_extent l e, type_info l e) of
           (Some (base, n), Some ti) \<Rightarrow>
             if 1 < n \<and> base \<le> slot \<and> slot < u64_add base n then Some (e, ti, n) else None
         | _ \<Rightarrow> None)
      else None)"

lemma containing_compound_case:
  "containing_compound l slot = find_map (compound_case l slot) (sl_storage l)"
  unfolding containing_compound_def
  by (rule arg_cong [where f = "\<lambda>f. find_map f (sl_storage l)"], rule ext)
    (auto simp: compound_case_def compound_entry_def entry_extent_def Let_def split: option.split)

lemma array_compound: "is_array l e \<Longrightarrow> compound_entry l e"
  by (auto simp: is_array_def compound_entry_def split: option.splits)

lemma array_case_owns:
  "layout_ok l \<Longrightarrow> e \<in> set (sl_storage l) \<Longrightarrow> array_case l slot e \<noteq> None \<Longrightarrow>
     is_array l e \<and> owns l e slot"
  by (force simp: array_case_def owns_def layout_ok_def u64_add_exact split: if_splits option.splits)

lemma compound_case_owns:
  "layout_ok l \<Longrightarrow> e \<in> set (sl_storage l) \<Longrightarrow> compound_case l slot e \<noteq> None \<Longrightarrow>
     compound_entry l e \<and> owns l e slot"
  by (force simp: compound_case_def owns_def layout_ok_def u64_add_exact split: if_splits option.splits)

lemma array_element_named:
  assumes ok: "layout_ok l" and e: "e \<in> set (sl_storage l)" "is_array l e"
    and ext: "entry_extent l e = Some (base, n)" "i < n"
  shows "array_element_at l (base + i) = Some (se_label e, i)"
  unfolding array_element_at_case
proof (rule find_map_unique [OF e(1)])
  have "base + n < 2 ^ 64" using ok e(1) ext(1) by (auto simp: layout_ok_def)
  with e ext show "array_case l (base + i) e = Some (se_label e, i)"
    by (simp add: array_case_def u64_add_exact)
  have own: "owns l e (base + i)" using ext by (simp add: owns_def)
  fix f
  assume f: "f \<in> set (sl_storage l)" "array_case l (base + i) f \<noteq> None"
  from array_case_owns [OF ok f] have "compound_entry l f" "owns l f (base + i)"
    by (simp_all add: array_compound)
  with ok e(1) f(1) own array_compound [OF e(2)] show "f = e" unfolding layout_ok_def by blast
qed

lemma containing_compound_named:
  assumes ok: "layout_ok l" and e: "e \<in> set (sl_storage l)" "compound_entry l e"
    and ext: "entry_extent l e = Some (base, n)" "1 < n" "i < n" and ti: "type_info l e = Some ti"
  shows "containing_compound l (base + i) = Some (e, ti, n)"
  unfolding containing_compound_case
proof (rule find_map_unique [OF e(1)])
  have "base + n < 2 ^ 64" using ok e(1) ext(1) by (auto simp: layout_ok_def)
  with e ext ti show "compound_case l (base + i) e = Some (e, ti, n)"
    by (simp add: compound_case_def u64_add_exact)
  have own: "owns l e (base + i)" using ext by (simp add: owns_def)
  fix f
  assume f: "f \<in> set (sl_storage l)" "compound_case l (base + i) f \<noteq> None"
  from compound_case_owns [OF ok f] have "compound_entry l f" "owns l f (base + i)" by simp_all
  with ok e f(1) own show "f = e" unfolding layout_ok_def by blast
qed

lemma array_element_at_sound:
  assumes "layout_ok l" "array_element_at l slot = Some (name, i)"
  shows "\<exists>e\<in>set (sl_storage l). \<exists>base n. is_array l e \<and> entry_extent l e = Some (base, n) \<and>
           se_label e = name \<and> slot = base + i \<and> i < n"
proof -
  from find_map_SomeD [OF assms(2) [unfolded array_element_at_case]] obtain e
    where e: "e \<in> set (sl_storage l)" "array_case l slot e = Some (name, i)" by blast
  then obtain base n where ext: "entry_extent l e = Some (base, n)" "is_array l e"
    "base \<le> slot" "slot < u64_add base n" "name = se_label e" "i = slot - base"
    by (auto simp: array_case_def split: if_splits option.splits)
  moreover have "base + n < 2 ^ 64" using assms(1) e(1) ext(1) by (auto simp: layout_ok_def)
  ultimately show ?thesis using e(1) by (intro bexI [of _ e] exI [of _ base] exI [of _ n]) (simp_all add: u64_add_exact)
qed

text \<open>Structs: the members stay inside the slots their struct owns.\<close>

definition members_inside :: "storage_layout \<Rightarrow> bool" where
  "members_inside l \<longleftrightarrow> (\<forall>e\<in>set (sl_storage l). \<forall>ti ms m k. type_info l e = Some ti \<longrightarrow>
     ti_members ti = Some ms \<longrightarrow> m \<in> set ms \<longrightarrow> parse_u64 (se_slot m) = Some k \<longrightarrow>
     (\<exists>base n. entry_extent l e = Some (base, n) \<and> k < n))"

definition struct_case :: "storage_layout \<Rightarrow> nat \<Rightarrow> storage_entry \<Rightarrow> (string \<times> string) option" where
  "struct_case l slot e =
     (case (parse_u64 (se_slot e), type_info l e) of
        (Some base, Some ti) \<Rightarrow>
          if ti_encoding ti = ''inplace'' then
            (case ti_members ti of
               None \<Rightarrow> None
             | Some ms \<Rightarrow> map_option (\<lambda>m. (se_label e, se_label m)) (member_at base slot ms))
          else None
      | _ \<Rightarrow> None)"

lemma struct_member_at_case: "struct_member_at l slot = find_map (struct_case l slot) (sl_storage l)"
  unfolding struct_member_at_def
  by (rule arg_cong [where f = "\<lambda>f. find_map f (sl_storage l)"], rule ext)
    (auto simp: struct_case_def split: option.split)

lemma struct_case_owns:
  assumes ok: "layout_ok l" "members_inside l" and e: "e \<in> set (sl_storage l)"
    and some: "struct_case l slot e \<noteq> None"
  shows "compound_entry l e \<and> owns l e slot"
proof -
  obtain base ti ms m where base: "parse_u64 (se_slot e) = Some base" "type_info l e = Some ti"
      "ti_encoding ti = ''inplace''" "ti_members ti = Some ms" "member_at base slot ms = Some m"
    using some by (auto simp: struct_case_def split: if_splits option.splits)
  then obtain k where k: "m \<in> set ms" "parse_u64 (se_slot m) = Some k" "u64_saturating_add base k = slot"
    unfolding member_at_def by (auto dest!: find_SomeD split: option.splits)
  obtain n where n: "entry_extent l e = Some (base, n)" "k < n"
    using ok(2) e base(1,2,4) k(1,2) unfolding members_inside_def
    by (fastforce simp: entry_extent_def split: option.splits)
  have "base + n < 2 ^ 64" using ok(1) e n(1) by (auto simp: layout_ok_def)
  with n k(3) have "owns l e slot" by (auto simp: owns_def u64_saturating_add_exact)
  with base show ?thesis by (simp add: compound_entry_def)
qed

lemma struct_member_named:
  assumes ok: "layout_ok l" "members_inside l" and e: "e \<in> set (sl_storage l)"
    and ti: "type_info l e = Some ti" "ti_encoding ti = ''inplace''" "ti_members ti = Some (ms @ m # ms')"
    and base: "parse_u64 (se_slot e) = Some base" and k: "parse_u64 (se_slot m) = Some k"
    and first: "\<forall>m'\<in>set ms. parse_u64 (se_slot m') \<noteq> Some k"
  shows "struct_member_at l (base + k) = Some (se_label e, se_label m)"
  unfolding struct_member_at_case
proof (rule find_map_unique [OF e])
  have bound: "base + k' < 2 ^ 64" if mem: "m' \<in> set (ms @ m # ms')" "parse_u64 (se_slot m') = Some k'" for m' k'
  proof -
    obtain base' n where n: "entry_extent l e = Some (base', n)" "k' < n"
      using ok(2) e ti(1,3) mem unfolding members_inside_def by blast
    with base have "base' = base" by (simp add: entry_extent_def split: option.splits)
    with n ok(1) e have "base + n < 2 ^ 64" unfolding layout_ok_def by blast
    with n(2) show ?thesis by simp
  qed
  have "member_at base (base + k) (ms @ m # ms') = Some m"
    unfolding member_at_def
  proof (rule find_first)
    fix m' assume m': "m' \<in> set ms"
    show "\<not> (case parse_u64 (se_slot m') of None \<Rightarrow> False
             | Some off \<Rightarrow> u64_saturating_add base off = base + k)"
    proof (cases "parse_u64 (se_slot m')")
      case (Some off)
      with m' first bound [of m' off] show ?thesis by (auto simp: u64_saturating_add_exact)
    qed simp
  next
    show "case parse_u64 (se_slot m) of None \<Rightarrow> False
          | Some off \<Rightarrow> u64_saturating_add base off = base + k"
      using bound [of m k] k by (simp add: u64_saturating_add_exact)
  qed
  then show some: "struct_case l (base + k) e = Some (se_label e, se_label m)"
    using ti base by (simp add: struct_case_def)
  then have own: "compound_entry l e" "owns l e (base + k)"
    using struct_case_owns [OF ok e, of "base + k"] by simp_all
  fix f
  assume f: "f \<in> set (sl_storage l)" "struct_case l (base + k) f \<noteq> None"
  from struct_case_owns [OF ok f] ok(1) e f(1) own show "f = e" unfolding layout_ok_def by blast
qed

section \<open>Properties\<close>

text \<open>An example layout: a scalar, an array of three words, a packed array and a struct.\<close>

definition example_entry :: "string \<Rightarrow> string \<Rightarrow> string \<Rightarrow> storage_entry" where
  "example_entry label slot ty = \<lparr>se_label = label, se_slot = slot, se_offset = 0, se_type_name = ty\<rparr>"

definition example_type :: "string \<Rightarrow> string option \<Rightarrow> storage_entry list option \<Rightarrow> storage_type_info" where
  "example_type bytes base members = \<lparr>ti_encoding = ''inplace'', ti_label = ''t'',
     ti_number_of_bytes = bytes, ti_key = None, ti_value = None, ti_base = base, ti_members = members\<rparr>"

definition example_layout :: storage_layout where
  "example_layout = \<lparr>
     sl_storage = [example_entry ''owner'' ''0'' ''t_address'', example_entry ''words'' ''1'' ''t_words'',
                   example_entry ''flags'' ''4'' ''t_flags'', example_entry ''point'' ''6'' ''t_point''],
     sl_types = [''t_words'' \<mapsto> example_type ''96'' (Some ''t_uint256'') None,
                 ''t_flags'' \<mapsto> example_type ''64'' (Some ''t_bool'') None,
                 ''t_point'' \<mapsto> example_type ''64'' None
                    (Some [example_entry ''x'' ''0'' ''t_uint256'', example_entry ''y'' ''1'' ''t_uint256''])]\<rparr>"

lemma parse_digits:
  "parse_u64 ''0'' = Some 0" "parse_u64 ''1'' = Some 1" "parse_u64 ''4'' = Some 4"
  "parse_u64 ''6'' = Some 6" "parse_u64 ''64'' = Some 64" "parse_u64 ''96'' = Some 96"
proof -
  have "show_nat 0 = ''0''" "show_nat 1 = ''1''" "show_nat 4 = ''4''" "show_nat 6 = ''6''"
    "show_nat 64 = ''64''" "show_nat 96 = ''96''" by code_simp+
  then show "parse_u64 ''0'' = Some 0" "parse_u64 ''1'' = Some 1" "parse_u64 ''4'' = Some 4"
    "parse_u64 ''6'' = Some 6" "parse_u64 ''64'' = Some 64" "parse_u64 ''96'' = Some 96"
    using parse_u64_show_nat [of 0] parse_u64_show_nat [of 1] parse_u64_show_nat [of 4]
      parse_u64_show_nat [of 6] parse_u64_show_nat [of 64] parse_u64_show_nat [of 96] by simp_all
qed

lemmas example_defs = example_layout_def example_entry_def example_type_def type_info_def
  entry_extent_def parse_digits slots_of_bytes_def

lemma example_extents:
  "entry_extent example_layout (example_entry ''owner'' ''0'' ''t_address'') = None"
  "entry_extent example_layout (example_entry ''words'' ''1'' ''t_words'') = Some (1, 3)"
  "entry_extent example_layout (example_entry ''flags'' ''4'' ''t_flags'') = Some (4, 2)"
  "entry_extent example_layout (example_entry ''point'' ''6'' ''t_point'') = Some (6, 2)"
  by (simp_all add: example_defs)

lemma example_entries:
  "e \<in> set (sl_storage example_layout) \<Longrightarrow>
     (entry_extent example_layout e, e) \<in>
       {(None, example_entry ''owner'' ''0'' ''t_address''),
        (Some (1, 3), example_entry ''words'' ''1'' ''t_words''),
        (Some (4, 2), example_entry ''flags'' ''4'' ''t_flags''),
        (Some (6, 2), example_entry ''point'' ''6'' ''t_point'')}"
  using example_extents by (simp add: example_layout_def) blast

lemma example_layout_ok: "layout_ok example_layout" "members_inside example_layout"
proof -
  let ?l = example_layout
  have "base + n < 2 ^ 64" if "e \<in> set (sl_storage ?l)" "entry_extent ?l e = Some (base, n)" for e base n
    using example_entries [OF that(1)] that(2) by auto
  moreover have "e = f" if e: "e \<in> set (sl_storage ?l)" and f: "f \<in> set (sl_storage ?l)"
    and own: "owns ?l e slot" "owns ?l f slot" for e f slot
  proof -
    have "entry_extent ?l e = entry_extent ?l f" "entry_extent ?l e \<noteq> None"
      using example_entries [OF e] example_entries [OF f] own unfolding owns_def by auto
    then show ?thesis using example_entries [OF e] example_entries [OF f] by auto
  qed
  ultimately show "layout_ok ?l" unfolding layout_ok_def by blast
  show "members_inside ?l" unfolding members_inside_def
    by (auto simp: example_defs)
qed

text \<open>
  C31: in a layout whose compound entries own disjoint slots, every slot of a fixed size array is
  named with the array's label and its distance from the base, and the whole array is found from
  each of its slots when it spans more than one.
\<close>

theorem array_slots_named:
  assumes "layout_ok l" and "e \<in> set (sl_storage l)" and "is_array l e"
    and "entry_extent l e = Some (base, n)" and "i < n"
  shows "array_element_at l (base + i) = Some (se_label e, i) \<and>
         (1 < n \<longrightarrow> containing_compound l (base + i) = map_option (\<lambda>ti. (e, ti, n)) (type_info l e))"
proof -
  from assms(3) obtain ti where "type_info l e = Some ti" by (auto simp: is_array_def split: option.splits)
  with containing_compound_named [OF assms(1,2) array_compound [OF assms(3)] assms(4) _ assms(5)]
    array_element_named [OF assms] show ?thesis by auto
qed

theorem array_slots_named_witness:
  "array_element_at example_layout 3 = Some (''words'', 2)"
proof -
  let ?e = "example_entry ''words'' ''1'' ''t_words''"
  have "?e \<in> set (sl_storage example_layout)" "is_array example_layout ?e"
    by (simp_all add: example_layout_def is_array_def type_info_def example_type_def example_entry_def)
  from array_slots_named [OF example_layout_ok(1) this example_extents(2), of 2]
  show ?thesis by (simp add: example_entry_def numeral_3_eq_3)
qed

text \<open>
  The index reported for a slot of an array is the slot's, not an element's. When several
  elements share a slot (each takes at most half of it), element \<open>i\<close> of the array is not stored in
  the slot that is reported as element \<open>i\<close>, for every slot but the first.
\<close>

definition element_slot :: "nat \<Rightarrow> nat \<Rightarrow> nat \<Rightarrow> nat" where
  "element_slot base element_bytes i = base + i div (32 div element_bytes)"

theorem packed_array_index_is_slot_index:
  assumes "layout_ok l" and "e \<in> set (sl_storage l)" and "is_array l e"
    and "entry_extent l e = Some (base, n)" and "i < n" and "0 < i"
    and "0 < element_bytes" and "2 * element_bytes \<le> 32"
  shows "array_element_at l (base + i) = Some (se_label e, i) \<and>
         element_slot base element_bytes i \<noteq> base + i"
proof -
  have "2 \<le> 32 div element_bytes" using assms(7,8) by (simp add: less_eq_div_iff_mult_less_eq)
  then have "i div (32 div element_bytes) < i" using assms(6) by (simp add: div_less_dividend)
  with array_element_named [OF assms(1-5)] show ?thesis by (simp add: element_slot_def)
qed

theorem packed_array_index_is_slot_index_witness:
  "array_element_at example_layout 5 = Some (''flags'', 1) \<and> element_slot 4 1 1 = 4"
proof -
  let ?e = "example_entry ''flags'' ''4'' ''t_flags''"
  have "?e \<in> set (sl_storage example_layout)" "is_array example_layout ?e"
    by (simp_all add: example_layout_def is_array_def type_info_def example_type_def example_entry_def)
  from packed_array_index_is_slot_index [OF example_layout_ok(1) this example_extents(3), of 1 1]
  show ?thesis by (simp add: example_entry_def element_slot_def)
qed

text \<open>
  Every member of a struct is found under its parent's label from the slot it is stored in:
  the first member of the struct at that slot, when several are packed into it.
\<close>

theorem struct_member_found:
  assumes "layout_ok l" and "members_inside l" and "e \<in> set (sl_storage l)"
    and "type_info l e = Some ti" and "ti_encoding ti = ''inplace''"
    and "ti_members ti = Some (ms @ m # ms')"
    and "parse_u64 (se_slot e) = Some base" and "parse_u64 (se_slot m) = Some k"
    and "\<forall>m'\<in>set ms. parse_u64 (se_slot m') \<noteq> Some k"
  shows "struct_member_at l (base + k) = Some (se_label e, se_label m)"
  using assms by (rule struct_member_named)

theorem struct_member_found_witness:
  "struct_member_at example_layout 7 = Some (''point'', ''y'')"
proof -
  let ?e = "example_entry ''point'' ''6'' ''t_point''"
  let ?x = "example_entry ''x'' ''0'' ''t_uint256''" and ?y = "example_entry ''y'' ''1'' ''t_uint256''"
  have "?e \<in> set (sl_storage example_layout)"
    "type_info example_layout ?e = Some (example_type ''64'' None (Some ([?x] @ ?y # [])))"
    by (simp_all add: example_layout_def type_info_def example_entry_def)
  from struct_member_found [OF example_layout_ok this, of "[?x]" ?y "[]" 6 1]
  show ?thesis by (simp add: example_type_def example_entry_def parse_digits)
qed

end
