(* ===== verification/Contract_Registry.thy ===== *)
theory Contract_Registry
  imports Keyed_Store Source_Map Solidity_Ast Storage_Layout
begin

text \<open>
  \<^verbatim>\<open>src/contract_registry.rs\<close>: compilation artifacts by contract address, with a default
  address to fall back on, and the combined view of a DELEGATECALL. The \<open>HashMap\<close> is a partial
  map. The lemmas give the artifacts found after any sequence of registrations and the parts a
  DELEGATECALL view takes from either contract.
\<close>

section \<open>Data\<close>

record contract_artifacts =
  ca_name :: string
  ca_source_map :: source_map
  ca_runtime_bytecode :: "byte list"
  ca_pc_to_idx :: "nat list"
  ca_source_paths :: "string list"
  ca_source_contents :: "string list"
  ca_storage_layout :: "storage_layout option"
  ca_solidity_ast :: "solidity_ast option"

record delegate_call_view =
  dv_source_map :: source_map
  dv_pc_to_idx :: "nat list"
  dv_source_paths :: "string list"
  dv_source_contents :: "string list"
  dv_storage_layout :: "storage_layout option"
  dv_solidity_ast :: "solidity_ast option"

record contract_registry =
  cr_contracts :: "address \<Rightarrow> contract_artifacts option"
  cr_default_address :: "address option"

section \<open>Operations\<close>

definition registry_new :: contract_registry where
  "registry_new = \<lparr>cr_contracts = (\<lambda>_. None), cr_default_address = None\<rparr>"

definition register :: "address \<Rightarrow> contract_artifacts \<Rightarrow> contract_registry \<Rightarrow> contract_registry" where
  "register address artifacts r = r\<lparr>cr_contracts := (cr_contracts r)(address \<mapsto> artifacts)\<rparr>"

definition set_default :: "address \<Rightarrow> contract_registry \<Rightarrow> contract_registry" where
  "set_default address r = r\<lparr>cr_default_address := Some address\<rparr>"

definition registry_get :: "contract_registry \<Rightarrow> address \<Rightarrow> contract_artifacts option" where
  "registry_get r address =
     (case cr_contracts r address of
        Some a \<Rightarrow> Some a
      | None \<Rightarrow> (case cr_default_address r of
                  Some default_addr \<Rightarrow> cr_contracts r default_addr
                | None \<Rightarrow> None))"

definition get_delegatecall ::
  "contract_registry \<Rightarrow> address \<Rightarrow> address \<Rightarrow> delegate_call_view option"
where
  "get_delegatecall r implementation proxy =
     (case registry_get r implementation of
        None \<Rightarrow> None
      | Some impl_artifacts \<Rightarrow>
          let proxy_storage = (case cr_contracts r proxy of
                                 None \<Rightarrow> None | Some a \<Rightarrow> ca_storage_layout a) in
          Some \<lparr>dv_source_map = ca_source_map impl_artifacts,
                dv_pc_to_idx = ca_pc_to_idx impl_artifacts,
                dv_source_paths = ca_source_paths impl_artifacts,
                dv_source_contents = ca_source_contents impl_artifacts,
                dv_storage_layout = proxy_storage,
                dv_solidity_ast = ca_solidity_ast impl_artifacts\<rparr>)"

section \<open>Lemmas\<close>

interpretation registry: keyed_store cr_contracts register
  by unfold_locales (simp_all add: register_def)

lemma cr_default_register [simp]: "cr_default_address (register a x r) = cr_default_address r"
  by (simp add: register_def)

lemma cr_default_registers [simp]:
  "cr_default_address (fold (\<lambda>(a, x). register a x) xs r) = cr_default_address r"
  by (induction xs arbitrary: r) auto

lemma cr_contracts_set_default [simp]: "cr_contracts (set_default d r) = cr_contracts r"
  by (simp add: set_default_def)

lemma cr_default_set_default [simp]: "cr_default_address (set_default d r) = Some d"
  by (simp add: set_default_def)

lemma registry_get_after:
  "registry_get (set_default d (fold (\<lambda>(a, x). register a x) xs registry_new)) a =
     (case map_of (rev xs) a of Some x \<Rightarrow> Some x | None \<Rightarrow> map_of (rev xs) d)"
proof -
  have "cr_contracts (fold (\<lambda>(a, x). register a x) xs registry_new) b = map_of (rev xs) b" for b
    unfolding registry.lookup_updates by (simp add: registry_new_def split: option.split)
  then show ?thesis by (simp add: registry_get_def split: option.split)
qed

section \<open>Properties\<close>

text \<open>
  After any sequence of registrations and a choice of default, an address is answered with
  the artifacts last registered for it, and an address never registered with those last registered
  for the default.
\<close>

theorem registry_get_last_registered:
  "registry_get (set_default d (fold (\<lambda>(a, x). register a x) xs registry_new)) a =
     (case map_of (rev xs) a of Some x \<Rightarrow> Some x | None \<Rightarrow> map_of (rev xs) d)"
  by (rule registry_get_after)

text \<open>
  A DELEGATECALL view takes the code (source map, table, sources, AST) from one contract and
  only the storage layout from the proxy; an implementation that is not registered does not give
  \<open>None\<close> as the comment on the function says, but the code of the default contract.
\<close>

theorem delegatecall_view_sources:
  assumes "cr_contracts r default_addr = Some d" and "cr_default_address r = Some default_addr"
  shows "\<exists>v code. get_delegatecall r implementation proxy = Some v \<and>
           code = (case cr_contracts r implementation of Some a \<Rightarrow> a | None \<Rightarrow> d) \<and>
           dv_source_map v = ca_source_map code \<and> dv_pc_to_idx v = ca_pc_to_idx code \<and>
           dv_source_paths v = ca_source_paths code \<and> dv_source_contents v = ca_source_contents code \<and>
           dv_solidity_ast v = ca_solidity_ast code \<and>
           dv_storage_layout v = (case cr_contracts r proxy of
                                    Some a \<Rightarrow> ca_storage_layout a | None \<Rightarrow> None)"
  using assms by (auto simp: get_delegatecall_def registry_get_def Let_def split: option.split)

theorem delegatecall_view_sources_witness:
  "let a = \<lparr>ca_name = ''A'', ca_source_map = source_map_parse ''0:1:0'', ca_runtime_bytecode = [],
            ca_pc_to_idx = [7], ca_source_paths = [], ca_source_contents = [],
            ca_storage_layout = None, ca_solidity_ast = None\<rparr>
   in map_option dv_pc_to_idx (get_delegatecall (set_default 1 (register 1 a registry_new)) 9 1) = Some [7]"
proof -
  define a where "a = \<lparr>ca_name = ''A'', ca_source_map = source_map_parse ''0:1:0'',
      ca_runtime_bytecode = [], ca_pc_to_idx = [7], ca_source_paths = [], ca_source_contents = [],
      ca_storage_layout = None, ca_solidity_ast = None\<rparr>"
  let ?r = "set_default 1 (register 1 a registry_new)"
  have "cr_contracts ?r 1 = Some a" by (simp add: register_def)
  moreover have "cr_contracts ?r 9 = None" by (simp add: register_def registry_new_def)
  ultimately have "map_option dv_pc_to_idx (get_delegatecall ?r 9 1) = Some (ca_pc_to_idx a)"
    using delegatecall_view_sources [of ?r 1 a 9 1] by auto
  then show ?thesis by (simp add: a_def Let_def)
qed

end
