(* ===== verification/Revert_Decode.thy ===== *)
theory Revert_Decode
  imports Keyed_Store Rust_Text Json_Value
begin

text \<open>
  \<^verbatim>\<open>src/revert_decode.rs\<close>: the reason of a reverted transaction from its return data. The hash
  \<open>keccak256\<close> of the alloy library is a parameter from bytes to bytes. Strings are lists of UTF-8
  bytes; \<open>from_utf8_lossy\<close> of the standard library is modelled with its replacement of every
  maximal invalid part. The lemmas show that the payloads Solidity emits for \<open>Error(string)\<close>,
  \<open>Panic(uint256)\<close> and custom errors decode to what was encoded, and where the rendering departs
  from its documentation.
\<close>

section \<open>Bytes and text\<close>

definition text_of_bytes :: "byte list \<Rightarrow> string" where
  "text_of_bytes bs = map (\<lambda>b. char_of (unat b)) bs"

definition bytes_of_text :: "string \<Rightarrow> byte list" where
  "bytes_of_text s = map (\<lambda>c. of_nat (of_char c)) s"

definition utf8_cont :: "byte \<Rightarrow> bool" where
  "utf8_cont b \<longleftrightarrow> 0x80 \<le> b \<and> b \<le> 0xBF"

text \<open>The second bytes allowed after the leading byte of a sequence of three or four.\<close>

definition utf8_second :: "byte \<Rightarrow> byte \<Rightarrow> bool" where
  "utf8_second b c \<longleftrightarrow>
     (if b = 0xE0 then 0xA0 \<le> c \<and> c \<le> 0xBF
      else if b = 0xED then 0x80 \<le> c \<and> c \<le> 0x9F
      else if b = 0xF0 then 0x90 \<le> c \<and> c \<le> 0xBF
      else if b = 0xF4 then 0x80 \<le> c \<and> c \<le> 0x8F
      else utf8_cont c)"

text \<open>The length of the first sequence and whether it is valid (\<open>Utf8Chunks\<close>).\<close>

fun count_conts :: "nat \<Rightarrow> byte list \<Rightarrow> nat" where
  "count_conts 0 bs = 0"
| "count_conts (Suc k) [] = 0"
| "count_conts (Suc k) (b # bs) = (if utf8_cont b then Suc (count_conts k bs) else 0)"

definition utf8_chunk :: "byte \<Rightarrow> byte list \<Rightarrow> nat \<times> bool" where
  "utf8_chunk b rest =
     (if b < 0x80 then (1, True)
      else if 0xC2 \<le> b \<and> b \<le> 0xDF then
        (if count_conts 1 rest = 1 then (2, True) else (1, False))
      else if 0xE0 \<le> b \<and> b \<le> 0xF4 then
        (let needed = (if b \<le> 0xEF then 1 else 2) in
         case rest of
           [] \<Rightarrow> (1, False)
         | c # rest' \<Rightarrow>
             if \<not> utf8_second b c then (1, False)
             else (let n = count_conts needed rest' in (2 + n, n = needed)))
      else (1, False))"

definition replacement_character :: "byte list" where
  "replacement_character = [0xEF, 0xBF, 0xBD]"

lemma utf8_chunk_pos: "0 < fst (utf8_chunk b rest)"
  by (simp add: utf8_chunk_def Let_def split: list.split)

function utf8_lossy :: "byte list \<Rightarrow> byte list" where
  "utf8_lossy [] = []"
| "utf8_lossy (b # rest) =
     (let (n, valid) = utf8_chunk b rest in
      (if valid then take n (b # rest) else replacement_character) @ utf8_lossy (drop n (b # rest)))"
  by pat_completeness auto
termination
proof (relation "measure length", goal_cases)
  case (2 b rest x n valid)
  then have "0 < n" using utf8_chunk_pos [of b rest] by (metis fst_conv)
  then show ?case by simp
qed simp

declare utf8_lossy.simps(2) [simp del]

definition from_utf8_lossy :: "byte list \<Rightarrow> string" where
  "from_utf8_lossy bs = text_of_bytes (utf8_lossy bs)"

section \<open>Data\<close>

record decoded_revert =
  dr_kind :: string
  dr_message :: string

definition ERROR_STRING_SELECTOR :: "byte list" where
  "ERROR_STRING_SELECTOR = [0x08, 0xc3, 0x79, 0xa0]"

definition PANIC_UINT256_SELECTOR :: "byte list" where
  "PANIC_UINT256_SELECTOR = [0x4e, 0x48, 0x7b, 0x71]"

record custom_error_def =
  ce_name :: string
  ce_param_types :: "string list"
  ce_param_names :: "string list"

record custom_error_registry =
  by_selector :: "byte list \<Rightarrow> custom_error_def option"

definition ce_signature :: "custom_error_def \<Rightarrow> string" where
  "ce_signature d = ce_name d @ ''('' @ join_with '','' (ce_param_types d) @ '')''"

type_synonym keccak = "byte list \<Rightarrow> byte list"

definition keccak_selector :: "keccak \<Rightarrow> byte list \<Rightarrow> byte list" where
  "keccak_selector keccak256 signature = take 4 (keccak256 signature)"

definition str_or_empty :: "json \<Rightarrow> string \<Rightarrow> string" where
  "str_or_empty j key = (case get_str j key of Some s \<Rightarrow> s | None \<Rightarrow> '''')"

definition registry_item ::
  "keccak \<Rightarrow> json \<Rightarrow> (byte list \<Rightarrow> custom_error_def option) \<Rightarrow>
     (byte list \<Rightarrow> custom_error_def option)"
where
  "registry_item keccak256 item m =
     (if str_or_empty item ''type'' \<noteq> ''error'' then m
      else case get_str item ''name'' of
        None \<Rightarrow> m
      | Some name \<Rightarrow>
          let inputs = (case get_array item ''inputs'' of Some a \<Rightarrow> a | None \<Rightarrow> []);
              param_types = map (\<lambda>p. str_or_empty p ''type'') inputs;
              param_names = map (\<lambda>p. str_or_empty p ''name'') inputs;
              signature = name @ ''('' @ join_with '','' param_types @ '')'';
              selector = keccak_selector keccak256 (bytes_of_text signature) in
          m(selector \<mapsto> \<lparr>ce_name = name, ce_param_types = param_types,
                         ce_param_names = param_names\<rparr>))"

definition from_abi :: "keccak \<Rightarrow> json list \<Rightarrow> custom_error_registry" where
  "from_abi keccak256 abi = \<lparr>by_selector = fold (registry_item keccak256) abi (\<lambda>_. None)\<rparr>"

definition error_get :: "custom_error_registry \<Rightarrow> byte list \<Rightarrow> custom_error_def option" where
  "error_get r selector = by_selector r selector"

definition empty_error_registry :: custom_error_registry where
  "empty_error_registry = \<lparr>by_selector = (\<lambda>_. None)\<rparr>"

section \<open>Decoding\<close>

definition u256_to_usize :: "byte list \<Rightarrow> nat option" where
  "u256_to_usize word =
     (if list_ex (\<lambda>b. b \<noteq> 0) (take 24 word) then None else Some (be_nat (drop 24 word)))"

definition panic_mnemonic :: "byte \<Rightarrow> string option" where
  "panic_mnemonic code =
     (if code = 0x00 then Some ''generic''
      else if code = 0x01 then Some ''assert(false)''
      else if code = 0x11 then Some ''arithmetic over/underflow''
      else if code = 0x12 then Some ''division or modulo by zero''
      else if code = 0x21 then Some ''invalid enum conversion''
      else if code = 0x22 then Some ''storage byte array access''
      else if code = 0x31 then Some ''pop on empty array''
      else if code = 0x32 then Some ''out-of-bounds array access''
      else if code = 0x41 then Some ''memory allocation overflow''
      else if code = 0x51 then Some ''uninitialized internal function call''
      else None)"

definition decode_error_string_payload :: "byte list \<Rightarrow> string option" where
  "decode_error_string_payload payload =
     (if length payload < 64 then None
      else case u256_to_usize (take 32 payload) of
        None \<Rightarrow> None
      | Some offset \<Rightarrow>
          if length payload < offset then None
          else let after_offset = drop offset payload in
          if length after_offset < 32 then None
          else case u256_to_usize (take 32 after_offset) of
            None \<Rightarrow> None
          | Some len \<Rightarrow>
              let body = drop 32 after_offset in
              if length body < len then None
              else Some (from_utf8_lossy (take len body)))"

definition render_arg_word :: "byte list \<Rightarrow> string \<Rightarrow> string" where
  "render_arg_word word ty =
     (if starts_with ty ''uint'' \<or> starts_with ty ''int'' then show_nat (unat (u256_from_be word))
      else if ty = ''address'' \<or> ty = ''address payable'' then ''0x'' @ hex_encode (drop 12 word)
      else if ty = ''bool'' then (if list_ex (\<lambda>b. b \<noteq> 0) word then ''true'' else ''false'')
      else if ty = ''string'' \<or> ty = ''bytes'' \<or> ends_with ty '']'' then ''<dynamic>''
      else ''0x'' @ hex_encode word)"

definition render_named :: "string \<Rightarrow> string \<Rightarrow> string" where
  "render_named name rendered = (if name = '''' then rendered else name @ ''='' @ rendered)"

fun decode_args_loop :: "byte list \<Rightarrow> nat \<Rightarrow> string list \<Rightarrow> string list \<Rightarrow> string list" where
  "decode_args_loop payload idx [] names = []"
| "decode_args_loop payload idx (ty # tys) names =
     (let slot_off = idx * 32 in
      if length payload < slot_off + 32 then []
      else let word = take 32 (drop slot_off payload);
               name = (case vec_get names idx of Some s \<Rightarrow> s | None \<Rightarrow> '''') in
           render_named name (render_arg_word word ty) # decode_args_loop payload (idx + 1) tys names)"

definition decode_custom_error_args :: "byte list \<Rightarrow> string list \<Rightarrow> string list \<Rightarrow> string list" where
  "decode_custom_error_args payload param_types param_names =
     decode_args_loop payload 0 param_types param_names"

definition panic_message :: "byte \<Rightarrow> string" where
  "panic_message code =
     (case panic_mnemonic code of
        Some m \<Rightarrow> ''panic 0x'' @ hex_byte code @ '' ('' @ m @ '')''
      | None \<Rightarrow> ''panic 0x'' @ hex_byte code)"

definition custom_error_message :: "custom_error_def \<Rightarrow> byte list \<Rightarrow> string" where
  "custom_error_message def payload =
     (let args = decode_custom_error_args payload (ce_param_types def) (ce_param_names def) in
      if args = [] then ce_name def @ ''()''
      else ce_name def @ ''('' @ join_with '', '' args @ '')'')"

definition decode_revert_with_registry :: "byte list \<Rightarrow> custom_error_registry \<Rightarrow> decoded_revert" where
  "decode_revert_with_registry output registry =
     (let raw = \<lparr>dr_kind = ''RevertRaw'', dr_message = ''0x'' @ hex_encode output\<rparr> in
      if output = [] then \<lparr>dr_kind = ''RevertEmpty'', dr_message = ''''\<rparr>
      else if 4 \<le> length output then
        (let selector = take 4 output; payload = drop 4 output in
         if selector = ERROR_STRING_SELECTOR then
           (case decode_error_string_payload payload of
              Some msg \<Rightarrow> \<lparr>dr_kind = ''Revert'', dr_message = msg\<rparr>
            | None \<Rightarrow> raw)
         else if selector = PANIC_UINT256_SELECTOR \<and> 32 \<le> length payload then
           \<lparr>dr_kind = ''Panic'', dr_message = panic_message (payload ! 31)\<rparr>
         else case error_get registry selector of
             Some def \<Rightarrow> \<lparr>dr_kind = ''CustomError'', dr_message = custom_error_message def payload\<rparr>
           | None \<Rightarrow> raw)
      else raw)"

definition decode_revert :: "byte list \<Rightarrow> decoded_revert" where
  "decode_revert output = decode_revert_with_registry output empty_error_registry"

section \<open>Specification: UTF-8 and the ABI\<close>

text \<open>The encoding of a Unicode scalar value, and the texts that are sequences of them.\<close>

definition scalar :: "nat \<Rightarrow> bool" where
  "scalar c \<longleftrightarrow> c < 0xD800 \<or> (0xE000 \<le> c \<and> c < 0x110000)"

definition utf8_encode :: "nat \<Rightarrow> byte list" where
  "utf8_encode c =
     (if c < 0x80 then [of_nat c]
      else if c < 0x800 then [of_nat (0xC0 + c div 64), of_nat (0x80 + c mod 64)]
      else if c < 0x10000 then
        [of_nat (0xE0 + c div 4096), of_nat (0x80 + c div 64 mod 64), of_nat (0x80 + c mod 64)]
      else [of_nat (0xF0 + c div 262144), of_nat (0x80 + c div 4096 mod 64),
            of_nat (0x80 + c div 64 mod 64), of_nat (0x80 + c mod 64)])"

definition utf8 :: "nat list \<Rightarrow> byte list" where
  "utf8 cs = concat (map utf8_encode cs)"

text \<open>The \<open>(string)\<close> tuple of the ABI: offset, length, bytes and padding.\<close>

definition abi_string :: "byte list \<Rightarrow> byte list" where
  "abi_string bs = u256_to_be 32 @ u256_to_be (of_nat (length bs)) @ bs @
     replicate ((32 - length bs mod 32) mod 32) 0"

section \<open>Lemmas\<close>

subsection \<open>UTF-8\<close>

lemma byte_le: "m \<le> n \<Longrightarrow> n < 256 \<Longrightarrow> (of_nat m :: byte) \<le> of_nat n"
  by (simp add: word_le_nat_alt unat_of_nat)

lemma byte_of_nat_cmp:
  "n < 256 \<Longrightarrow> (numeral k \<le> (of_nat n :: byte)) \<longleftrightarrow> unat (numeral k :: byte) \<le> n"
  "n < 256 \<Longrightarrow> ((of_nat n :: byte) \<le> numeral k) \<longleftrightarrow> n \<le> unat (numeral k :: byte)"
  "n < 256 \<Longrightarrow> ((of_nat n :: byte) < numeral k) \<longleftrightarrow> n < unat (numeral k :: byte)"
  "n < 256 \<Longrightarrow> ((of_nat n :: byte) = numeral k) \<longleftrightarrow> n = unat (numeral k :: byte)"
  by (simp_all add: word_le_nat_alt word_less_nat_alt word_unat_eq_iff unat_of_nat)

lemma cont_byte: "utf8_cont (of_nat (0x80 + c mod 64))"
proof -
  have "0x80 + c mod 64 < 256" "0x80 + c mod 64 \<le> 0xBF" by (simp_all add: less_Suc_eq_le [symmetric])
  then show ?thesis unfolding utf8_cont_def by (simp only: byte_of_nat_cmp) simp
qed

lemma utf8_chunk_encode:
  assumes "scalar c" "utf8_encode c = b # ts"
  shows "utf8_chunk b (ts @ rest) = (length (utf8_encode c), True)"
proof -
  consider (one) "c < 0x80" | (two) "0x80 \<le> c" "c < 0x800" | (three) "0x800 \<le> c" "c < 0x10000"
    | (four) "0x10000 \<le> c" by linarith
  then show ?thesis
  proof cases
    case one
    with assms show ?thesis by (auto simp: utf8_encode_def utf8_chunk_def byte_of_nat_cmp)
  next
    case two
    let ?b = "0xC0 + c div 64"
    have r: "?b < 256" "0xC2 \<le> ?b" "?b \<le> 0xDF" using two by linarith+
    have b: "b = of_nat ?b" "ts = [of_nat (0x80 + c mod 64)]"
      using assms(2) two by (auto simp: utf8_encode_def)
    have "\<not> b < 0x80" "0xC2 \<le> b" "b \<le> 0xDF"
      unfolding b byte_of_nat_cmp [OF r(1)] using r by simp_all
    with b two cont_byte [of c] show ?thesis
      by (simp add: utf8_encode_def utf8_chunk_def)
  next
    case three
    let ?b = "0xE0 + c div 4096" and ?c = "0x80 + c div 64 mod 64"
    have dm: "64 * (c div 4096) + c div 64 mod 64 = c div 64"
      using div_mult_mod_eq [of "c div 64" 64] div_mult2_eq [of c 64 64] by simp
    have r: "?b < 256" "0xE0 \<le> ?b" "?b \<le> 0xEF" using three by linarith+
    have rc: "?c < 256" "0x80 \<le> ?c" "?c \<le> 0xBF" by linarith+
    have b: "b = of_nat ?b" "ts = [of_nat ?c, of_nat (0x80 + c mod 64)]"
      using assms(2) three by (auto simp: utf8_encode_def)
    have cmp: "\<not> b < 0x80" "\<not> b \<le> 0xDF" "0xE0 \<le> b" "b \<le> 0xEF" "b \<le> 0xF4" "b \<noteq> 0xF0" "b \<noteq> 0xF4"
      unfolding b byte_of_nat_cmp [OF r(1)] using r by simp_all
    have "utf8_second b (of_nat ?c)"
    proof -
      have "0xA0 \<le> ?c" if "b = 0xE0"
      proof -
        from that have "c div 4096 = 0" unfolding b byte_of_nat_cmp [OF r(1)] by simp
        then have "c div 64 mod 64 = c div 64" using dm by simp
        with three show ?thesis by linarith
      qed
      moreover have "?c \<le> 0x9F" if "b = 0xED"
      proof -
        from that have "c div 4096 = 13" unfolding b byte_of_nat_cmp [OF r(1)] by simp
        with assms(1) have "c < 0xD800" unfolding scalar_def by linarith
        then have "c div 64 < 864" by linarith
        with \<open>c div 4096 = 13\<close> dm show ?thesis by linarith
      qed
      ultimately show ?thesis using cmp rc
        unfolding utf8_second_def utf8_cont_def byte_of_nat_cmp [OF rc(1)] by simp
    qed
    with b cmp three cont_byte [of c] show ?thesis
      by (simp add: utf8_encode_def utf8_chunk_def Let_def)
  next
    case four
    let ?b = "0xF0 + c div 262144" and ?c = "0x80 + c div 4096 mod 64"
    have dm: "64 * (c div 262144) + c div 4096 mod 64 = c div 4096"
      using div_mult_mod_eq [of "c div 4096" 64] div_mult2_eq [of c 4096 64] by simp
    from assms(1) four have c: "c < 0x110000" unfolding scalar_def by linarith
    have r: "?b < 256" "0xF0 \<le> ?b" "?b \<le> 0xF4" using c by linarith+
    have rc: "?c < 256" "0x80 \<le> ?c" "?c \<le> 0xBF" by linarith+
    have b: "b = of_nat ?b" "ts = [of_nat ?c, of_nat (0x80 + c div 64 mod 64), of_nat (0x80 + c mod 64)]"
      using assms(2) four by (auto simp: utf8_encode_def)
    have cmp: "\<not> b < 0x80" "\<not> b \<le> 0xDF" "0xE0 \<le> b" "\<not> b \<le> 0xEF" "b \<le> 0xF4" "b \<noteq> 0xE0" "b \<noteq> 0xED"
      unfolding b byte_of_nat_cmp [OF r(1)] using r by simp_all
    have "utf8_second b (of_nat ?c)"
    proof -
      have "0x90 \<le> ?c" if "b = 0xF0"
      proof -
        from that have "c div 262144 = 0" unfolding b byte_of_nat_cmp [OF r(1)] by simp
        then have "c div 4096 mod 64 = c div 4096" using dm by simp
        with four show ?thesis by linarith
      qed
      moreover have "?c \<le> 0x8F" if "b = 0xF4"
      proof -
        from that have "c div 262144 = 4" unfolding b byte_of_nat_cmp [OF r(1)] by simp
        moreover have "c div 4096 < 272" using c by linarith
        ultimately show ?thesis using dm by linarith
      qed
      ultimately show ?thesis using cmp rc
        unfolding utf8_second_def utf8_cont_def byte_of_nat_cmp [OF rc(1)] by simp
    qed
    with b cmp four cont_byte [of c] cont_byte [of "c div 64"] show ?thesis
      by (simp add: utf8_encode_def utf8_chunk_def Let_def numeral_2_eq_2)
  qed
qed

lemma utf8_encode_Cons: "\<exists>b ts. utf8_encode c = b # ts"
  by (simp add: utf8_encode_def)

lemma utf8_lossy_utf8: "list_all scalar cs \<Longrightarrow> utf8_lossy (utf8 cs) = utf8 cs"
proof (induction cs)
  case Nil
  then show ?case by (simp add: utf8_def)
next
  case (Cons c cs)
  obtain b ts where b: "utf8_encode c = b # ts" using utf8_encode_Cons by blast
  have u: "utf8 (c # cs) = b # (ts @ utf8 cs)" using b by (simp add: utf8_def)
  have "utf8_chunk b (ts @ utf8 cs) = (length (b # ts), True)"
    using utf8_chunk_encode [OF _ b] Cons.prems b by simp
  with Cons show ?case by (simp add: u utf8_lossy.simps(2))
qed

lemma from_utf8_lossy_utf8: "list_all scalar cs \<Longrightarrow> from_utf8_lossy (utf8 cs) = text_of_bytes (utf8 cs)"
  by (simp add: from_utf8_lossy_def utf8_lossy_utf8)

subsection \<open>Words of the ABI\<close>

lemma u256_to_usize_be:
  assumes "n < 2 ^ 64"
  shows "u256_to_usize (u256_to_be (of_nat n)) = Some n"
proof -
  have n: "unat (of_nat n :: u256) = n" using assms by (simp add: unat_of_nat)
  let ?bs = "u256_to_be (of_nat n)"
  have "be_nat (take 24 ?bs @ drop 24 ?bs) = n"
    using assms by (simp add: u256_to_be_def be_nat_to_be n)
  then have split: "be_nat (take 24 ?bs) * 256 ^ 8 + be_nat (drop 24 ?bs) = n"
    unfolding be_nat_append by simp
  with assms have zero: "be_nat (take 24 ?bs) = 0" by simp
  then have "\<forall>b\<in>set (take 24 ?bs). b = 0" by (simp add: be_nat_zero_iff)
  with split zero show ?thesis by (auto simp: u256_to_usize_def list_ex_iff)
qed

lemma abi_string_decodes:
  assumes "length bs < 2 ^ 64"
  shows "decode_error_string_payload (abi_string bs) = Some (from_utf8_lossy bs)"
proof -
  have len: "64 \<le> length (abi_string bs)" by (simp add: abi_string_def)
  have t: "take 32 (abi_string bs) = u256_to_be (of_nat 32)"
    and d: "drop 32 (abi_string bs) = u256_to_be (of_nat (length bs)) @ bs @
       replicate ((32 - length bs mod 32) mod 32) 0"
    by (simp_all add: abi_string_def)
  have "u256_to_usize (take 32 (abi_string bs)) = Some 32"
    unfolding t by (rule u256_to_usize_be) simp
  with len d u256_to_usize_be [OF assms] show ?thesis
    by (simp add: decode_error_string_payload_def Let_def)
qed

subsection \<open>Arguments\<close>

definition param_name :: "string list \<Rightarrow> nat \<Rightarrow> string" where
  "param_name names k = (case vec_get names k of Some s \<Rightarrow> s | None \<Rightarrow> [])"

lemma decode_args_loop_spec:
  "32 * (idx + length tys) \<le> length payload \<Longrightarrow>
   decode_args_loop payload idx tys names =
     map (\<lambda>(k, ty). render_named (param_name names k)
                     (render_arg_word (take 32 (drop (32 * k) payload)) ty)) (enumerate idx tys)"
  by (induction tys arbitrary: idx) (simp_all add: Let_def mult.commute param_name_def)

lemma word_of_encoded:
  "k < length ws \<Longrightarrow> take 32 (drop (32 * k) (concat (map u256_to_be ws) @ rest)) = u256_to_be (ws ! k)"
proof (induction ws arbitrary: k)
  case Nil
  then show ?case by simp
next
  case (Cons w ws)
  then show ?case by (cases k) simp_all
qed

lemma arguments_rendered:
  assumes "length tys = length ws"
  shows "decode_custom_error_args (concat (map u256_to_be ws) @ rest) tys names =
     map (\<lambda>k. render_named (param_name names k) (render_arg_word (u256_to_be (ws ! k)) (tys ! k)))
       [0..<length ws]"
proof -
  let ?p = "concat (map u256_to_be ws) @ rest"
  have "length (concat (map u256_to_be ws)) = 32 * length ws" by (induction ws) simp_all
  then have "32 * (0 + length tys) \<le> length ?p" using assms by simp
  from decode_args_loop_spec [OF this] have "decode_custom_error_args ?p tys names =
      map (\<lambda>(k, ty). render_named (param_name names k)
                      (render_arg_word (take 32 (drop (32 * k) ?p)) ty)) (enumerate 0 tys)"
    by (simp add: decode_custom_error_args_def)
  also have "... = map (\<lambda>k. render_named (param_name names k)
      (render_arg_word (u256_to_be (ws ! k)) (tys ! k))) [0..<length ws]"
    using assms
    by (subst list_eq_iff_nth_eq)
      (simp add: nth_enumerate_eq word_of_encoded del: take_append drop_append)
  finally show ?thesis .
qed

subsection \<open>Raw payloads\<close>

text \<open>Reading a hex dump back.\<close>

fun unhex :: "string \<Rightarrow> byte list option" where
  "unhex [] = Some []"
| "unhex [c] = None"
| "unhex (c # d # s) = (case (parse_hex_u8 [c, d], unhex s) of
     (Some b, Some bs) \<Rightarrow> Some (b # bs) | _ \<Rightarrow> None)"

lemma unhex_hex_encode: "unhex (hex_encode bs) = Some bs"
proof (induction bs)
  case Nil
  then show ?case by (simp add: hex_encode_def)
next
  case (Cons b bs)
  obtain c d where cd: "hex_byte b = [c, d]" by (simp add: hex_byte_def)
  with parse_hex_u8_hex_byte [of b] have "parse_hex_u8 [c, d] = Some b" by simp
  with Cons cd show ?case by (simp add: hex_encode_def)
qed

lemma take_4_selector: "length sel = 4 \<Longrightarrow> take 4 (sel @ payload) = sel \<and> drop 4 (sel @ payload) = payload"
  by simp

lemma selectors [simp]: "length ERROR_STRING_SELECTOR = 4" "length PANIC_UINT256_SELECTOR = 4"
  "ERROR_STRING_SELECTOR \<noteq> []" "PANIC_UINT256_SELECTOR \<noteq> []"
  "PANIC_UINT256_SELECTOR \<noteq> ERROR_STRING_SELECTOR"
  by (simp_all add: ERROR_STRING_SELECTOR_def PANIC_UINT256_SELECTOR_def)

lemma u256_to_be_31: "u256_to_be w ! 31 = ucast w"
proof -
  have "u256_to_be w = to_be 31 (unat w div 256) @ [word_of_nat (unat w mod 256)]"
    by (simp add: u256_to_be_def flip: to_be.simps(2))
  then have "u256_to_be w ! 31 = (word_of_nat (unat w mod 256) :: byte)" by (simp add: nth_append)
  also have "... = ucast w"
    by (simp add: word_unat_eq_iff unat_of_nat unsigned_ucast_eq take_bit_eq_mod)
  finally show ?thesis .
qed

section \<open>Properties\<close>

text \<open>
  C23: the payload Solidity emits for \<open>revert(s)\<close> and \<open>require(c, s)\<close> decodes to \<open>s\<close>, for every
  text \<open>s\<close> of Unicode scalar values and whatever custom errors are registered.
\<close>

theorem error_string_roundtrip:
  assumes "list_all scalar cs" and "length (utf8 cs) < 2 ^ 64"
  shows "decode_revert_with_registry (ERROR_STRING_SELECTOR @ abi_string (utf8 cs)) registry
           = \<lparr>dr_kind = ''Revert'', dr_message = text_of_bytes (utf8 cs)\<rparr>"
  using assms by (simp add: decode_revert_with_registry_def Let_def take_4_selector
      abi_string_decodes from_utf8_lossy_utf8)

theorem error_string_roundtrip_witness:
  "dr_message (decode_revert (ERROR_STRING_SELECTOR @ abi_string [0x6e, 0x6f])) = ''no''"
  using error_string_roundtrip [of "[0x6e, 0x6f]" empty_error_registry]
  by (simp add: decode_revert_def utf8_def utf8_encode_def scalar_def text_of_bytes_def) code_simp

text \<open>
  A \<open>Panic(uint256)\<close> payload is reported with the well-known name of its code. Only the last
  byte of the code is read: codes that agree in it are reported alike.
\<close>

theorem panic_code_decoded:
  "decode_revert_with_registry (PANIC_UINT256_SELECTOR @ u256_to_be code @ rest) registry
     = \<lparr>dr_kind = ''Panic'', dr_message = panic_message (ucast code)\<rparr>"
  by (simp add: decode_revert_with_registry_def Let_def take_4_selector nth_append u256_to_be_31)

text \<open>
  A custom error found in the registry is reported with its name and, for each parameter in
  order, the word the ABI encodes it in, rendered after its type and labelled with its name.
\<close>

theorem custom_error_rendered:
  assumes "error_get registry selector = Some def" and "length selector = 4"
    and "selector \<noteq> ERROR_STRING_SELECTOR" and "selector \<noteq> PANIC_UINT256_SELECTOR"
    and "length (ce_param_types def) = length ws" and "ws \<noteq> []"
  shows "decode_revert_with_registry (selector @ concat (map u256_to_be ws)) registry =
     \<lparr>dr_kind = ''CustomError'', dr_message = ce_name def @ ''('' @ join_with '', ''
        (map (\<lambda>k. render_named (param_name (ce_param_names def) k)
                    (render_arg_word (u256_to_be (ws ! k)) (ce_param_types def ! k)))
           [0..<length ws]) @ '')''\<rparr>"
proof -
  have "selector \<noteq> []" using assms(2) by auto
  with assms arguments_rendered [OF assms(5), of "[]"] show ?thesis
    by (simp add: decode_revert_with_registry_def Let_def take_4_selector custom_error_message_def)
qed

theorem custom_error_rendered_witness:
  "let def = \<lparr>ce_name = ''Low'', ce_param_types = [''uint256'', ''bool''], ce_param_names = [''have'', '''']\<rparr>
   in dr_message (decode_revert_with_registry ([1, 2, 3, 4] @ u256_to_be 12 @ u256_to_be 1)
        \<lparr>by_selector = [[1, 2, 3, 4] \<mapsto> def]\<rparr>) = ''Low(have=12, true)''"
proof -
  define def where
    "def = \<lparr>ce_name = ''Low'', ce_param_types = [''uint256'', ''bool''], ce_param_names = [''have'', '''']\<rparr>"
  have "dr_message (decode_revert_with_registry ([1, 2, 3, 4] @ concat (map u256_to_be [12, 1]))
      \<lparr>by_selector = [[1, 2, 3, 4] \<mapsto> def]\<rparr>) = ''Low('' @ join_with '', ''
        (map (\<lambda>k. render_named (param_name (ce_param_names def) k)
                    (render_arg_word (u256_to_be ([12, 1] ! k)) (ce_param_types def ! k)))
           [0..<length [12 :: u256, 1]]) @ '')''"
    by (subst custom_error_rendered [where def = def])
      (simp_all add: error_get_def def_def ERROR_STRING_SELECTOR_def PANIC_UINT256_SELECTOR_def)
  also have "... = ''Low(have=12, true)''"
  proof -
    have n: "show_nat 12 = ''12''" by code_simp
    have "to_be 32 1 = replicate 31 0 @ [1]" by code_simp
    then have b: "list_ex (\<lambda>b. b \<noteq> 0) (u256_to_be 1)" by (simp add: u256_to_be_def)
    show ?thesis
      by (simp add: def_def param_name_def vec_get_def render_named_def render_arg_word_def
          starts_with_def n b upt_rec)
  qed
  finally show ?thesis by (simp add: def_def)
qed

text \<open>
  Every type whose name begins with \<open>uint\<close> or \<open>int\<close> is rendered as the unsigned decimal
  of its word: a negative \<open>int256\<close> as a number above \<open>2 ^ 255\<close>, and a dynamic \<open>uint256[]\<close> as the
  offset of its data instead of \<open><dynamic>\<close>.
\<close>

theorem integer_like_types_rendered_unsigned:
  "render_arg_word (u256_to_be w) (''uint'' @ ty) = show_nat (unat w) \<and>
   render_arg_word (u256_to_be w) (''int'' @ ty) = show_nat (unat w)"
  by (simp add: render_arg_word_def starts_with_def)

text \<open>
  C24: no reverted transaction is left without a reason: the kind is \<open>RevertEmpty\<close> exactly for an
  empty payload, and a payload reported raw can be read back from the message byte for byte.
\<close>

theorem revert_reason_total:
  "(dr_kind (decode_revert_with_registry output registry) = ''RevertEmpty'' \<longleftrightarrow> output = []) \<and>
   (dr_kind (decode_revert_with_registry output registry) = ''RevertRaw'' \<longrightarrow>
      unhex (drop 2 (dr_message (decode_revert_with_registry output registry))) = Some output)"
  by (auto simp: decode_revert_with_registry_def Let_def unhex_hex_encode split: option.split)

theorem revert_reason_total_witness:
  "dr_kind (decode_revert [0xde, 0xad]) = ''RevertRaw'' \<and>
   unhex (drop 2 (dr_message (decode_revert [0xde, 0xad]))) = Some [0xde, 0xad]"
  using revert_reason_total [of "[0xde, 0xad]" empty_error_registry]
  by (simp add: decode_revert_def decode_revert_with_registry_def)

end
