(* ===== verification/Trace_Writer.thy ===== *)
theory Trace_Writer
  imports Rust_Text "HOL-Library.AList"
begin

text \<open>
  The trace writer the recorder drives (the \<^verbatim>\<open>TraceWriter\<close> trait of the external
  \<^verbatim>\<open>codetracer_trace_writer_nim\<close> crate) as a log of the calls made to it, in order, beside
  the fields \<open>EvmRecorder\<close> keeps itself (\<^verbatim>\<open>src/recorder.rs\<close>). The identifiers the writer
  hands out are parameters: functions of the calls made so far. The order in which a \<open>HashMap\<close> is
  traversed is a parameter as well. Also here: the entries of the execution trace, a type of the
  alloy library re-exported by \<^verbatim>\<open>src/structlog.rs\<close>, with the fields the recorder reads.
\<close>

section \<open>Values and calls\<close>

text \<open>
  \<open>VNone\<close> is the constant \<open>NONE_VALUE\<close> of the external crate, a value without content; the type
  identifier it carries is the crate's and is not part of the model.
\<close>

datatype type_kind = TkInt | TkRaw | TkSeq | TkBool | TkString | TkStruct | TkArray

datatype value_record =
    VInt int nat
  | VRaw string nat
  | VStruct "value_record list" nat
  | VSequence "value_record list" bool nat
  | VNone

datatype event_kind = EkError | EkEvmEvent

datatype wcall =
    W_Begin string
  | W_ColumnSteps
  | W_ColumnBreakpoints
  | W_ColumnMotions
  | W_RegisterType type_kind string
  | W_PathLineLengths string "nat list"
  | W_Start string nat
  | W_EnsureType type_kind string
  | W_EnsureFunction string string nat
  | W_Step string nat nat
  | W_Variable string value_record
  | W_Arg string value_record
  | W_Call nat
  | W_Return value_record
  | W_Event event_kind string string
  | W_Finish
  | W_MetaDat string
  | W_Close

text \<open>
  What the writer and the hash tables decide: identifiers from the history, whether a call that may
  fail succeeds, from the history that ends with it, and an order.
\<close>

record writer_env =
  we_type_id :: "wcall list \<Rightarrow> type_kind \<Rightarrow> string \<Rightarrow> nat"
  we_function_id :: "wcall list \<Rightarrow> string \<Rightarrow> string \<Rightarrow> nat \<Rightarrow> nat"
  we_accepts :: "wcall list \<Rightarrow> bool"
  we_order :: "(string \<times> value_record) list \<Rightarrow> (string \<times> value_record) list"

text \<open>
  The recorder's own state: the writer, the registered types and the paths seen. The output directory,
  fixed when the recorder is made, is an argument of the one operation that reads it.
\<close>

record evm_recorder =
  er_calls :: "wcall list"
  er_type_names :: "string list"
  er_paths :: "string list"

definition evm_recorder_new :: evm_recorder where
  "evm_recorder_new = \<lparr>er_calls = [], er_type_names = [], er_paths = []\<rparr>"

definition emit :: "wcall \<Rightarrow> evm_recorder \<Rightarrow> evm_recorder" where
  "emit c r = r\<lparr>er_calls := er_calls r @ [c]\<rparr>"

text \<open>A call that may fail.\<close>

definition attempt :: "writer_env \<Rightarrow> wcall \<Rightarrow> evm_recorder \<Rightarrow> bool \<times> evm_recorder" where
  "attempt env c r = (let r1 = emit c r in (we_accepts env (er_calls r1), r1))"

definition ensure_type_id ::
  "writer_env \<Rightarrow> type_kind \<Rightarrow> string \<Rightarrow> evm_recorder \<Rightarrow> nat \<times> evm_recorder"
where
  "ensure_type_id env kind name r = (we_type_id env (er_calls r) kind name, emit (W_EnsureType kind name) r)"

definition ensure_function_id ::
  "writer_env \<Rightarrow> string \<Rightarrow> string \<Rightarrow> nat \<Rightarrow> evm_recorder \<Rightarrow> nat \<times> evm_recorder"
where
  "ensure_function_id env name path line r =
     (we_function_id env (er_calls r) name path line, emit (W_EnsureFunction name path line) r)"

section \<open>Counting calls and returns\<close>

text \<open>The nesting of the written trace above the frame that \<open>start\<close> opens.\<close>

fun call_delta :: "wcall \<Rightarrow> int" where
  "call_delta (W_Call f) = 1"
| "call_delta (W_Return v) = - 1"
| "call_delta c = 0"

definition net_calls :: "evm_recorder \<Rightarrow> int" where
  "net_calls r = sum_list (map call_delta (er_calls r))"

definition steps_of :: "evm_recorder \<Rightarrow> (string \<times> nat \<times> nat) list" where
  "steps_of r = concat (map (\<lambda>c. case c of W_Step p l k \<Rightarrow> [(p, l, k)] | _ \<Rightarrow> []) (er_calls r))"

lemma net_calls_emit [simp]: "net_calls (emit c r) = net_calls r + call_delta c"
  by (simp add: net_calls_def emit_def)

lemma steps_of_emit: "steps_of (emit c r) = steps_of r @ (case c of W_Step p l k \<Rightarrow> [(p, l, k)] | _ \<Rightarrow> [])"
  by (simp add: steps_of_def emit_def)

lemma steps_of_emit_simps [simp]:
  "steps_of (emit (W_Step p l k) r) = steps_of r @ [(p, l, k)]"
  "steps_of (emit (W_Begin p) r) = steps_of r"
  "steps_of (emit W_ColumnSteps r) = steps_of r"
  "steps_of (emit W_ColumnBreakpoints r) = steps_of r"
  "steps_of (emit W_ColumnMotions r) = steps_of r"
  "steps_of (emit (W_RegisterType tk n) r) = steps_of r"
  "steps_of (emit (W_PathLineLengths p ls) r) = steps_of r"
  "steps_of (emit (W_Start p l) r) = steps_of r"
  "steps_of (emit (W_EnsureType tk n) r) = steps_of r"
  "steps_of (emit (W_EnsureFunction n p l) r) = steps_of r"
  "steps_of (emit (W_Variable n v) r) = steps_of r"
  "steps_of (emit (W_Arg n v) r) = steps_of r"
  "steps_of (emit (W_Call f) r) = steps_of r"
  "steps_of (emit (W_Return v) r) = steps_of r"
  "steps_of (emit (W_Event ek m t) r) = steps_of r"
  by (simp_all add: steps_of_emit)

lemma ensure_type_id_snd [simp]:
  "snd (ensure_type_id env k n r) = emit (W_EnsureType k n) r"
  by (simp add: ensure_type_id_def)

lemma ensure_function_id_snd [simp]:
  "snd (ensure_function_id env n p l r) = emit (W_EnsureFunction n p l) r"
  by (simp add: ensure_function_id_def)

text \<open>Emitting a list of calls.\<close>

definition emit_all :: "wcall list \<Rightarrow> evm_recorder \<Rightarrow> evm_recorder" where
  "emit_all cs r = fold emit cs r"

lemma er_calls_emit [simp]: "er_calls (emit c r) = er_calls r @ [c]"
  by (simp add: emit_def)

lemma er_calls_emit_all: "er_calls (emit_all cs r) = er_calls r @ cs"
  by (induction cs arbitrary: r) (simp_all add: emit_all_def)

lemma net_calls_emit_all: "net_calls (emit_all cs r) = net_calls r + sum_list (map call_delta cs)"
  by (simp add: net_calls_def er_calls_emit_all)

section \<open>Entries of the execution trace\<close>

record struct_log =
  log_pc :: nat
  log_op :: string
  log_depth :: nat
  log_stack :: "u256 list option"
  log_memory :: "string list option"

end
