(* ===== verification/Recorder_Helpers.thy ===== *)
theory Recorder_Helpers
  imports Trace_Writer Source_Map Stack_Tracker Memory_Tracker Storage_Layout Revert_Decode
begin

text \<open>
  The free functions of \<^verbatim>\<open>src/recorder.rs\<close>: types and values, resolution of internal calls,
  mapping keys, line tables, the decoding of memory snapshots and of revert payloads, event
  payloads and opcode mnemonics. Memory words are taken to be ASCII, as a trace prints them.
\<close>

section \<open>Types and values\<close>

definition type_kind_for_solidity_type :: "string \<Rightarrow> type_kind" where
  "type_kind_for_solidity_type type_name =
     (if type_name = ''bool'' then TkBool
      else if type_name = ''string'' then TkString
      else if type_name = ''bytes'' then TkSeq
      else if type_name = ''address'' \<or> type_name = ''address payable'' then TkRaw
      else if starts_with type_name ''bytes'' then TkRaw
      else if starts_with type_name ''uint'' \<or> starts_with type_name ''int'' then TkInt
      else if starts_with type_name ''enum '' then TkInt
      else TkRaw)"

text \<open>\<open>bit_len() <= 63\<close>.\<close>

definition value_record_for_local :: "u256 \<Rightarrow> string \<Rightarrow> nat \<Rightarrow> value_record" where
  "value_record_for_local val type_name type_id =
     (if type_kind_for_solidity_type type_name = TkInt \<and> unat val < 2 ^ 63
      then VInt (int (unat val)) type_id
      else VRaw (hex_u256 val) type_id)"

definition slot_value :: "(nat \<Rightarrow> u256 option) \<Rightarrow> nat \<Rightarrow> u256" where
  "slot_value slot_values abs_slot = (case slot_values abs_slot of Some v \<Rightarrow> v | None \<Rightarrow> 0)"

text \<open>The loop over the members; a slot that does not parse ends the function with \<open>None\<close>.\<close>

fun member_values ::
  "nat \<Rightarrow> nat \<Rightarrow> (nat \<Rightarrow> u256 option) \<Rightarrow> storage_entry list \<Rightarrow> value_record list option"
where
  "member_values ty base_slot slot_values [] = Some []"
| "member_values ty base_slot slot_values (m # ms) =
     (case parse_u64 (se_slot m) of
        None \<Rightarrow> None
      | Some member_offset \<Rightarrow>
          let raw = slot_value slot_values (u64_add base_slot member_offset) in
          map_option (\<lambda>vs. VRaw (hex_u256 raw) ty # vs) (member_values ty base_slot slot_values ms))"

definition build_compound_value ::
  "writer_env \<Rightarrow> storage_type_info \<Rightarrow> nat \<Rightarrow> nat \<Rightarrow> (nat \<Rightarrow> u256 option) \<Rightarrow> evm_recorder \<Rightarrow>
     value_record option \<times> evm_recorder"
where
  "build_compound_value env parent_ti base_slot slot_count slot_values r =
     (let (element_type_id, r1) = ensure_type_id env TkInt ''uint256'' r in
      case ti_members parent_ti of
        Some members \<Rightarrow>
          let (parent_type_id, r2) = ensure_type_id env TkStruct (ti_label parent_ti) r1 in
          (map_option (\<lambda>vs. VStruct vs parent_type_id)
             (member_values element_type_id base_slot slot_values members), r2)
      | None \<Rightarrow>
          if ti_base parent_ti \<noteq> None then
            let (parent_type_id, r2) = ensure_type_id env TkArray (ti_label parent_ti) r1;
                elements = map (\<lambda>offset. VRaw (hex_u256 (slot_value slot_values (u64_add base_slot offset)))
                                           element_type_id) [0..<slot_count] in
            (Some (VSequence elements False parent_type_id), r2)
          else (None, r1))"

section \<open>Internal calls\<close>

definition INTERNAL_CALL_LOOKAHEAD :: nat where
  "INTERNAL_CALL_LOOKAHEAD = 5"

text \<open>The function whose source range holds the instruction of a log entry.\<close>

definition function_of_log ::
  "source_map \<Rightarrow> nat list \<Rightarrow> solidity_ast \<Rightarrow> struct_log \<Rightarrow> function_def option"
where
  "function_of_log sm pc_to_idx ast lg =
     (case get_entry_for_pc sm (log_pc lg) pc_to_idx of
        None \<Rightarrow> None
      | Some entry \<Rightarrow>
          if sme_file_index entry < 0 then None
          else function_at ast (sme_offset entry) (sme_file_index entry))"

definition resolve_internal_call_target ::
  "struct_log list \<Rightarrow> nat \<Rightarrow> source_map \<Rightarrow> nat list \<Rightarrow> solidity_ast option \<Rightarrow> function_def option"
where
  "resolve_internal_call_target logs current_index sm pc_to_idx ast =
     (case ast of
        None \<Rightarrow> None
      | Some a \<Rightarrow>
          find_map (\<lambda>step.
            case vec_get logs (current_index + step) of
              None \<Rightarrow> None
            | Some next_log \<Rightarrow> function_of_log sm pc_to_idx a next_log)
            [1..<INTERNAL_CALL_LOOKAHEAD + 1])"

definition resolve_enclosing_function_for_jump ::
  "struct_log list \<Rightarrow> nat \<Rightarrow> source_map \<Rightarrow> nat list \<Rightarrow> solidity_ast option \<Rightarrow> function_def option"
where
  "resolve_enclosing_function_for_jump logs current_index sm pc_to_idx ast =
     (case ast of
        None \<Rightarrow> None
      | Some a \<Rightarrow>
          (case vec_get logs current_index of
             None \<Rightarrow> None
           | Some lg \<Rightarrow> function_of_log sm pc_to_idx a lg))"

text \<open>The loop over the parameters of the callee.\<close>

fun stage_args ::
  "writer_env \<Rightarrow> u256 list \<Rightarrow> nat \<Rightarrow> var_decl list \<Rightarrow> evm_recorder \<Rightarrow> evm_recorder"
where
  "stage_args env stack slot [] r = r"
| "stage_args env stack slot (param # params) r =
     (let val = stack ! slot;
          kind = type_kind_for_solidity_type (vd_type_name param);
          (type_id, r1) = ensure_type_id env kind (vd_type_name param) r in
      stage_args env stack (slot + 1) params
        (emit (W_Arg (vd_name param) (VRaw (hex_u256 val) type_id)) r1))"

definition stage_internal_call_args ::
  "writer_env \<Rightarrow> stack_tracker \<Rightarrow> function_def option \<Rightarrow> u256 list option \<Rightarrow> nat \<Rightarrow> evm_recorder \<Rightarrow>
     stack_tracker \<times> evm_recorder"
where
  "stage_internal_call_args env tracker target_fn concrete_stack stack_items_above_params r =
     (case target_fn of
        None \<Rightarrow> (st_reset tracker, r)
      | Some target \<Rightarrow>
          let param_names = map vd_name (fd_parameters target) in
          case concrete_stack of
            None \<Rightarrow> (st_reset tracker, r)
          | Some stack \<Rightarrow>
              let callee_stack_depth = length stack - stack_items_above_params;
                  occupied_slots = length param_names + stack_items_above_params in
              if param_names = [] \<or> length stack < occupied_slots
              then (seed_top_labels callee_stack_depth param_names tracker, r)
              else (seed_top_labels callee_stack_depth param_names tracker,
                    stage_args env stack (length stack - occupied_slots) (fd_parameters target) r))"

section \<open>Hashes, keys, line tables\<close>

definition keccak256_u256 :: "keccak \<Rightarrow> byte list \<Rightarrow> u256" where
  "keccak256_u256 keccak256 input = u256_from_be (keccak256 input)"

definition format_mapping_key :: "string \<Rightarrow> byte list \<Rightarrow> string" where
  "format_mapping_key key_type_label key_bytes =
     (if key_type_label = ''address'' \<or> key_type_label = ''address payable''
      then ''0x'' @ hex_encode (drop 12 key_bytes)
      else if starts_with key_type_label ''uint'' \<or> starts_with key_type_label ''int'' \<or>
              key_type_label = ''bool''
      then hex_u256 (u256_from_be key_bytes)
      else ''0x'' @ hex_encode key_bytes)"

text \<open>The scan for newlines; \<open>n\<close> is the length of the line read so far.\<close>

fun line_lengths_loop :: "nat \<Rightarrow> string \<Rightarrow> nat list" where
  "line_lengths_loop n [] = (if n = 0 then [] else [n])"
| "line_lengths_loop n (c # s) =
     (if c = CHR 0x0A then n # line_lengths_loop 0 s else line_lengths_loop (n + 1) s)"

definition compute_line_lengths :: "string \<Rightarrow> nat list" where
  "compute_line_lengths source = line_lengths_loop 0 source"

definition ensure_path_with_line_lengths :: "string \<Rightarrow> string \<Rightarrow> evm_recorder \<Rightarrow> evm_recorder" where
  "ensure_path_with_line_lengths path source r =
     (if path \<in> set (er_paths r) then r
      else let r1 = emit (W_PathLineLengths path (compute_line_lengths source)) r in
           r1\<lparr>er_paths := path # er_paths r1\<rparr>)"

definition evm_types :: "(string \<times> type_kind) list" where
  "evm_types =
     [(''uint256'', TkInt), (''int256'', TkInt), (''address'', TkRaw), (''bytes32'', TkRaw),
      (''bytes'', TkSeq), (''bool'', TkBool), (''string'', TkString), (''uint8'', TkInt),
      (''uint16'', TkInt), (''uint32'', TkInt), (''uint64'', TkInt), (''uint128'', TkInt),
      (''int8'', TkInt), (''int16'', TkInt), (''int32'', TkInt), (''int64'', TkInt),
      (''int128'', TkInt), (''bytes1'', TkRaw), (''bytes4'', TkRaw), (''bytes20'', TkRaw)]"

definition register_evm_types :: "evm_recorder \<Rightarrow> evm_recorder" where
  "register_evm_types r =
     fold (\<lambda>(type_name, kind) r.
             let r1 = emit (W_RegisterType kind type_name) r in
             r1\<lparr>er_type_names := er_type_names r1 @ [type_name]\<rparr>) evm_types r"

fun index_of :: "'a \<Rightarrow> 'a list \<Rightarrow> nat option" where
  "index_of x [] = None"
| "index_of x (y # ys) = (if y = x then Some 0 else map_option Suc (index_of x ys))"

definition get_type_index :: "evm_recorder \<Rightarrow> string \<Rightarrow> nat option" where
  "get_type_index r name = index_of name (er_type_names r)"

section \<open>Memory and payloads\<close>

text \<open>Two digits at a time; a pair that does not parse leaves its byte zero.\<close>

fun hex_pairs :: "string \<Rightarrow> byte list" where
  "hex_pairs (c # d # s) = (case parse_hex_u8 [c, d] of Some b \<Rightarrow> b | None \<Rightarrow> 0) # hex_pairs s"
| "hex_pairs s = []"

definition decode_memory_word :: "string \<Rightarrow> byte list" where
  "decode_memory_word w =
     (let trimmed = (case strip_prefix w ''0x'' of Some t \<Rightarrow> t | None \<Rightarrow> w);
          bytes = take 32 (hex_pairs trimmed) in
      bytes @ replicate (32 - length bytes) 0)"

definition decode_struct_log_memory :: "string list option \<Rightarrow> byte list" where
  "decode_struct_log_memory memory =
     (case memory of None \<Rightarrow> [] | Some words \<Rightarrow> concat (map decode_memory_word words))"

text \<open>\<open>u64::try_from\<close> of a 256-bit word.\<close>

definition u64_of_u256 :: "u256 \<Rightarrow> nat option" where
  "u64_of_u256 w = (if unat w < 2 ^ 64 then Some (unat w) else None)"

definition decode_revert_opcode_payload :: "u256 list option \<Rightarrow> string list option \<Rightarrow> byte list" where
  "decode_revert_opcode_payload stack memory =
     (case stack of
        None \<Rightarrow> []
      | Some stk \<Rightarrow>
          if length stk < 2 then []
          else case u64_of_u256 (stk ! (length stk - 1)) of
            None \<Rightarrow> []
          | Some offset \<Rightarrow>
              (case u64_of_u256 (stk ! (length stk - 2)) of
                 None \<Rightarrow> []
               | Some sz \<Rightarrow>
                   if sz = 0 then []
                   else let memory_bytes = decode_struct_log_memory memory;
                            past = u64_saturating_add offset sz in
                        if length memory_bytes < past then []
                        else take (past - offset) (drop offset memory_bytes)))"

section \<open>Events\<close>

definition build_selfdestruct_event_content :: "string \<Rightarrow> u256 list option \<Rightarrow> string option" where
  "build_selfdestruct_event_content op stack =
     (if op \<noteq> ''SELFDESTRUCT'' then None
      else case stack of
        None \<Rightarrow> None
      | Some stk \<Rightarrow> if stk = [] then None else Some (hex_address_word (last stk)))"

definition precompile_name_for_address :: "nat \<Rightarrow> string option" where
  "precompile_name_for_address addr_lower160 =
     (if addr_lower160 = 0x01 then Some ''ecrecover''
      else if addr_lower160 = 0x02 then Some ''sha256''
      else if addr_lower160 = 0x03 then Some ''ripemd160''
      else if addr_lower160 = 0x04 then Some ''identity''
      else if addr_lower160 = 0x05 then Some ''modexp''
      else if addr_lower160 = 0x06 then Some ''ecAdd''
      else if addr_lower160 = 0x07 then Some ''ecMul''
      else if addr_lower160 = 0x08 then Some ''ecPairing''
      else if addr_lower160 = 0x09 then Some ''blake2f''
      else None)"

definition build_precompile_event_content ::
  "string \<Rightarrow> u256 list option \<Rightarrow> (string \<times> string) option"
where
  "build_precompile_event_content op stack =
     (if op \<notin> {''CALL'', ''CALLCODE'', ''DELEGATECALL'', ''STATICCALL''} then None
      else case stack of
        None \<Rightarrow> None
      | Some stk \<Rightarrow>
          if length stk < 2 then None
          else
            let addr_word = stk ! (length stk - 2); bytes = u256_to_be addr_word in
            if list_ex (\<lambda>b. b \<noteq> 0) (take 31 bytes) then None
            else case precompile_name_for_address (unat (bytes ! 31)) of
                None \<Rightarrow> None
              | Some name \<Rightarrow> Some (''Precompile'', name @ '':'' @ hex_address_word addr_word))"

definition log_data :: "u256 \<Rightarrow> u256 \<Rightarrow> string list option \<Rightarrow> byte list option" where
  "log_data offset_word size_word memory =
     (case (u64_of_u256 size_word, u64_of_u256 offset_word) of
        (Some sz, Some offset) \<Rightarrow>
          if 0 < sz then
            let memory_bytes = decode_struct_log_memory memory;
                past = u64_saturating_add offset sz in
            if past \<le> length memory_bytes then Some (take (past - offset) (drop offset memory_bytes))
            else None
          else None
      | _ \<Rightarrow> None)"

definition build_log_event_content ::
  "string \<Rightarrow> u256 list option \<Rightarrow> string list option \<Rightarrow> string option"
where
  "build_log_event_content op stack memory =
     (case (case strip_prefix op ''LOG'' of None \<Rightarrow> None | Some n \<Rightarrow> parse_u32 n) of
        None \<Rightarrow> None
      | Some log_num \<Rightarrow>
          if 4 < log_num then None
          else case stack of
            None \<Rightarrow> None
          | Some stk \<Rightarrow>
              if length stk < 2 + log_num then None
              else
                let offset = stk ! (length stk - 1);
                    sz = stk ! (length stk - 2);
                    topics = map (\<lambda>t. hex_u256 (stk ! (length stk - 3 - t))) [0..<log_num];
                    content = join_with '', '' topics in
                Some (case log_data offset sz memory of
                        None \<Rightarrow> content
                      | Some bytes \<Rightarrow>
                          (if content = '''' then '''' else content @ '', '') @ ''0x'' @ hex_encode bytes))"

section \<open>Mnemonics\<close>

text \<open>The arms of the match on the mnemonic.\<close>

definition mnemonics_low :: "(string \<times> byte) list" where
  "mnemonics_low =
     [(''STOP'', 0x00), (''ADD'', 0x01), (''MUL'', 0x02), (''SUB'', 0x03),
      (''DIV'', 0x04), (''SDIV'', 0x05), (''MOD'', 0x06), (''SMOD'', 0x07),
      (''ADDMOD'', 0x08), (''MULMOD'', 0x09), (''EXP'', 0x0a), (''SIGNEXTEND'', 0x0b),
      (''LT'', 0x10), (''GT'', 0x11), (''SLT'', 0x12), (''SGT'', 0x13), (''EQ'', 0x14),
      (''ISZERO'', 0x15), (''AND'', 0x16), (''OR'', 0x17), (''XOR'', 0x18),
      (''NOT'', 0x19), (''BYTE'', 0x1a), (''SHL'', 0x1b), (''SHR'', 0x1c),
      (''SAR'', 0x1d), (''SHA3'', 0x20), (''KECCAK256'', 0x20), (''ADDRESS'', 0x30),
      (''BALANCE'', 0x31), (''ORIGIN'', 0x32), (''CALLER'', 0x33), (''CALLVALUE'', 0x34),
      (''CALLDATALOAD'', 0x35), (''CALLDATASIZE'', 0x36), (''CALLDATACOPY'', 0x37),
      (''CODESIZE'', 0x38), (''CODECOPY'', 0x39)]"

definition mnemonics_high :: "(string \<times> byte) list" where
  "mnemonics_high =
     [(''GASPRICE'', 0x3a), (''EXTCODESIZE'', 0x3b), (''EXTCODECOPY'', 0x3c),
      (''RETURNDATASIZE'', 0x3d), (''RETURNDATACOPY'', 0x3e), (''EXTCODEHASH'', 0x3f),
      (''BLOCKHASH'', 0x40), (''COINBASE'', 0x41), (''TIMESTAMP'', 0x42),
      (''NUMBER'', 0x43), (''PREVRANDAO'', 0x44), (''DIFFICULTY'', 0x44),
      (''GASLIMIT'', 0x45), (''CHAINID'', 0x46), (''SELFBALANCE'', 0x47),
      (''BASEFEE'', 0x48), (''BLOBHASH'', 0x49), (''BLOBBASEFEE'', 0x4a),
      (''POP'', 0x50), (''MLOAD'', 0x51), (''MSTORE'', 0x52), (''MSTORE8'', 0x53),
      (''SLOAD'', 0x54), (''SSTORE'', 0x55), (''JUMP'', 0x56), (''JUMPI'', 0x57),
      (''PC'', 0x58), (''MSIZE'', 0x59), (''GAS'', 0x5a), (''JUMPDEST'', 0x5b),
      (''TLOAD'', 0x5c), (''TSTORE'', 0x5d), (''MCOPY'', 0x5e), (''PUSH0'', 0x5f),
      (''CREATE'', 0xf0), (''CALL'', 0xf1), (''CALLCODE'', 0xf2), (''RETURN'', 0xf3),
      (''DELEGATECALL'', 0xf4), (''CREATE2'', 0xf5), (''STATICCALL'', 0xfa),
      (''REVERT'', 0xfd), (''INVALID'', 0xfe), (''SELFDESTRUCT'', 0xff)]"

text \<open>One family of numbered mnemonics: a suffix that is no \<open>u8\<close> ends the function with \<open>None\<close>
  (the outer \<open>Some None\<close>), one out of range goes on to the next family.\<close>

definition numbered_mnemonic :: "string \<Rightarrow> nat \<Rightarrow> nat \<Rightarrow> nat \<Rightarrow> string \<Rightarrow> byte option option" where
  "numbered_mnemonic family lo hi base name =
     (case strip_prefix name family of
        None \<Rightarrow> None
      | Some digits \<Rightarrow>
          (case parse_u8 digits of
             None \<Rightarrow> Some None
           | Some n \<Rightarrow> if lo \<le> n \<and> n \<le> hi then Some (Some (of_nat (base + n))) else None))"

definition opcode_from_name :: "string \<Rightarrow> byte option" where
  "opcode_from_name name =
     (case numbered_mnemonic ''PUSH'' 0 32 0x5f name of Some r \<Rightarrow> r | None \<Rightarrow>
     (case numbered_mnemonic ''DUP'' 1 16 0x7f name of Some r \<Rightarrow> r | None \<Rightarrow>
     (case numbered_mnemonic ''SWAP'' 1 16 0x8f name of Some r \<Rightarrow> r | None \<Rightarrow>
     (case numbered_mnemonic ''LOG'' 0 4 0xa0 name of Some r \<Rightarrow> r | None \<Rightarrow>
        map_of (mnemonics_low @ mnemonics_high) name))))"

end
