(* ===== verification/Host_Interface.thy ===== *)
theory Host_Interface
  imports Revert_Decode
begin

text \<open>
  What the outer parts of the program share: the outcome of a function that may return, fail or
  panic, the parts of the standard library they use on text, paths and documents
  (\<open>str::find\<close>, \<open>lines\<close>, \<open>eq_ignore_ascii_case\<close>, \<open>Path::file_stem\<close>, \<open>Path::join\<close>,
  \<open>String::from_utf8\<close>, the indexing of a \<open>serde_json::Value\<close>), and the output of a process.
  Paths are those of a Unix system: components separated by a slash. Whitespace is that of ASCII.
\<close>

section \<open>Outcomes\<close>

datatype ('e, 'a) outcome = Returns 'a | Fails 'e | Panics

definition and_then :: "('e, 'a) outcome \<Rightarrow> ('a \<Rightarrow> ('e, 'b) outcome) \<Rightarrow> ('e, 'b) outcome" where
  "and_then m f = (case m of Returns x \<Rightarrow> f x | Fails e \<Rightarrow> Fails e | Panics \<Rightarrow> Panics)"

text \<open>\<open>Option::ok_or\<close> and \<open>Result::map_err\<close>.\<close>

definition ok_or :: "'e \<Rightarrow> 'a option \<Rightarrow> ('e, 'a) outcome" where
  "ok_or e x = (case x of Some y \<Rightarrow> Returns y | None \<Rightarrow> Fails e)"

definition map_err :: "('d \<Rightarrow> 'e) \<Rightarrow> 'd + 'a \<Rightarrow> ('e, 'a) outcome" where
  "map_err f x = (case x of Inr y \<Rightarrow> Returns y | Inl d \<Rightarrow> Fails (f d))"

definition map_fails :: "('d \<Rightarrow> 'e) \<Rightarrow> ('d, 'a) outcome \<Rightarrow> ('e, 'a) outcome" where
  "map_fails f m = (case m of Returns x \<Rightarrow> Returns x | Fails d \<Rightarrow> Fails (f d) | Panics \<Rightarrow> Panics)"

definition guard_that :: "bool \<Rightarrow> 'e \<Rightarrow> ('e, unit) outcome" where
  "guard_that b e = (if b then Returns () else Fails e)"

lemma and_then_simps [simp]:
  "and_then (Returns x) f = f x" "and_then (Fails e) f = Fails e" "and_then Panics f = Panics"
  by (simp_all add: and_then_def)

lemma and_then_Returns: "and_then m f = Returns y \<longleftrightarrow> (\<exists>x. m = Returns x \<and> f x = Returns y)"
  by (cases m) simp_all

lemma ok_or_Returns [simp]: "ok_or e x = Returns y \<longleftrightarrow> x = Some y"
  by (simp add: ok_or_def split: option.split)

lemma ok_or_simps [simp]: "ok_or e (Some y) = Returns y" "ok_or e None = Fails e"
  by (simp_all add: ok_or_def)

lemma map_err_Returns [simp]: "map_err f x = Returns y \<longleftrightarrow> x = Inr y"
  by (simp add: map_err_def split: sum.split)

lemma map_err_simps [simp]: "map_err f (Inr y) = Returns y" "map_err f (Inl d) = Fails (f d)"
  by (simp_all add: map_err_def)

lemma map_fails_Returns [simp]: "map_fails f m = Returns y \<longleftrightarrow> m = Returns y"
  by (cases m) (simp_all add: map_fails_def)

lemma guard_that_Returns [simp]: "guard_that b e = Returns u \<longleftrightarrow> b"
  by (simp add: guard_that_def)

lemma guard_that_simps [simp]: "guard_that True e = Returns ()" "guard_that False e = Fails e"
  by (simp_all add: guard_that_def)

section \<open>Text\<close>

text \<open>\<open>str::find\<close>: the byte offset of the first occurrence.\<close>

fun str_find :: "string \<Rightarrow> string \<Rightarrow> nat option" where
  "str_find p [] = (if p = [] then Some 0 else None)"
| "str_find p (c # s) =
     (if starts_with (c # s) p then Some 0 else map_option Suc (str_find p s))"

lemma str_find_None: "str_find p s = None \<longleftrightarrow> \<not> str_contains s p"
  by (induction s) (simp_all add: starts_with_def)

lemma str_find_first:
  assumes "\<And>k. k < length u \<Longrightarrow> \<not> starts_with (drop k (u @ p @ v)) p"
  shows "str_find p (u @ p @ v) = Some (length u)"
  using assms
proof (induction u)
  case Nil
  then show ?case using starts_with_append [of p v] by (cases "p @ v") auto
next
  case (Cons c u)
  have "\<not> starts_with (c # u @ p @ v) p" using Cons.prems [of 0] by simp
  moreover have "str_find p (u @ p @ v) = Some (length u)"
  proof (rule Cons.IH)
    fix k assume "k < length u"
    then show "\<not> starts_with (drop k (u @ p @ v)) p" using Cons.prems [of "Suc k"] by simp
  qed
  ultimately show ?case by simp
qed

lemma str_find_char: "c \<notin> set u \<Longrightarrow> str_find [c] (u @ c # v) = Some (length u)"
  by (induction u) (auto simp: starts_with_def)

lemma str_find_char_None: "c \<notin> set u \<Longrightarrow> str_find [c] u = None"
  by (induction u) (auto simp: starts_with_def)

text \<open>\<open>str::lines\<close>: a final line break opens no line, and a carriage return before one is dropped.\<close>

definition chomp_cr :: "string \<Rightarrow> string" where
  "chomp_cr l = (if l \<noteq> [] \<and> last l = CHR 0x0D then butlast l else l)"

definition str_lines :: "string \<Rightarrow> string list" where
  "str_lines s =
     (let parts = split_on CHR 0x0A s in
      map chomp_cr (butlast parts) @ (if last parts = [] then [] else [last parts]))"

definition ascii_lower :: "char \<Rightarrow> char" where
  "ascii_lower c = (let n = of_char c in if 65 \<le> n \<and> n \<le> (90 :: nat) then char_of (n + 32) else c)"

definition eq_ignore_ascii_case :: "string \<Rightarrow> string \<Rightarrow> bool" where
  "eq_ignore_ascii_case s t \<longleftrightarrow> map ascii_lower s = map ascii_lower t"

text \<open>\<open>String::from_utf8\<close> accepts the bytes that the lossy conversion leaves alone.\<close>

definition from_utf8 :: "byte list \<Rightarrow> string option" where
  "from_utf8 bs = (if utf8_lossy bs = bs then Some (text_of_bytes bs) else None)"

text \<open>\<open>Path::to_str\<close> and \<open>Path::to_string_lossy\<close>: a path is the bytes the system has for it.\<close>

definition path_to_str :: "string \<Rightarrow> string option" where
  "path_to_str p = from_utf8 (map of_char p)"

definition to_string_lossy :: "string \<Rightarrow> string" where
  "to_string_lossy p = from_utf8_lossy (map of_char p)"

lemma text_of_chars: "text_of_bytes (map of_char p) = p"
proof -
  have "char_of (unat (of_char c :: byte)) = c" for c
  proof -
    have "(of_char c :: byte) = word_of_nat (of_char c)" by (simp add: of_char_def)
    moreover have "(of_char c :: nat) < 256" using nat_of_char_less_256 [of c] by simp
    ultimately show ?thesis by (simp add: unat_of_nat)
  qed
  then show ?thesis by (simp add: text_of_bytes_def comp_def)
qed

lemma path_to_str_Some: "path_to_str p = Some q \<Longrightarrow> q = p \<and> to_string_lossy p = p"
  by (auto simp: path_to_str_def to_string_lossy_def from_utf8_def from_utf8_lossy_def text_of_chars
      split: if_splits)

section \<open>Paths\<close>

text \<open>\<open>Path::file_name\<close>: the last component, when it is a name. Empty components and single dots
  are no components.\<close>

definition path_components :: "string \<Rightarrow> string list" where
  "path_components p = filter (\<lambda>c. c \<noteq> [] \<and> c \<noteq> ''.'') (split_on CHR ''/'' p)"

definition file_name :: "string \<Rightarrow> string option" where
  "file_name p =
     (let cs = path_components p in if cs = [] \<or> last cs = ''..'' then None else Some (last cs))"

text \<open>A file name is cut at its last dot, unless that is its first character.\<close>

definition cut_at_dot :: "string \<Rightarrow> string \<times> string option" where
  "cut_at_dot n =
     (let back = rev n; after = takeWhile (\<lambda>c. c \<noteq> CHR ''.'') back;
          before = drop (length after + 1) back in
      if length after = length n \<or> before = [] then (n, None) else (rev before, Some (rev after)))"

definition file_stem :: "string \<Rightarrow> string option" where
  "file_stem p = map_option (\<lambda>n. fst (cut_at_dot n)) (file_name p)"

definition file_extension :: "string \<Rightarrow> string option" where
  "file_extension p = Option.bind (file_name p) (\<lambda>n. snd (cut_at_dot n))"

text \<open>\<open>Path::join\<close>: an absolute path replaces the base.\<close>

definition path_join :: "string \<Rightarrow> string \<Rightarrow> string" where
  "path_join base p =
     (if starts_with p ''/'' then p
      else if base = [] \<or> last base = CHR ''/'' then base @ p
      else base @ ''/'' @ p)"

section \<open>Documents\<close>

text \<open>\<open>value[key]\<close> of a \<open>serde_json::Value\<close> answers null when there is no such entry.\<close>

definition json_index :: "json \<Rightarrow> string \<Rightarrow> json" where
  "json_index j k = (case json_get j k of Some v \<Rightarrow> v | None \<Rightarrow> JNull)"

text \<open>\<open>Value::pointer\<close>. The pointers of the sources hold no escaped character.\<close>

definition array_position :: "string \<Rightarrow> nat option" where
  "array_position s =
     (if starts_with s ''+'' \<or> (starts_with s ''0'' \<and> length s \<noteq> 1) then None else parse_u64 s)"

definition pointer_step :: "json \<Rightarrow> string \<Rightarrow> json option" where
  "pointer_step j token =
     (case j of
        JObj kvs \<Rightarrow> map_of kvs token
      | JArr xs \<Rightarrow> Option.bind (array_position token) (vec_get xs)
      | _ \<Rightarrow> None)"

fun pointer_walk :: "json \<Rightarrow> string list \<Rightarrow> json option" where
  "pointer_walk j [] = Some j"
| "pointer_walk j (t # ts) = Option.bind (pointer_step j t) (\<lambda>v. pointer_walk v ts)"

definition json_pointer :: "json \<Rightarrow> string \<Rightarrow> json option" where
  "json_pointer j p =
     (if p = [] then Some j
      else if \<not> starts_with p ''/'' then None
      else pointer_walk j (drop 1 (split_on CHR ''/'' p)))"

section \<open>Processes\<close>

text \<open>\<open>std::process::Output\<close>: whether the process succeeded and what it wrote.\<close>

record process_output =
  po_success :: bool
  po_stdout :: "byte list"
  po_stderr :: "byte list"

section \<open>Lemmas on text\<close>

lemma str_contains_iff: "str_contains s p \<longleftrightarrow> (\<exists>k \<le> length s. starts_with (drop k s) p)"
proof (induction s)
  case Nil
  then show ?case by (auto simp: starts_with_def)
next
  case (Cons c s)
  show ?case
  proof
    assume "str_contains (c # s) p"
    then have "starts_with (c # s) p \<or> str_contains s p" by (auto simp: starts_with_def)
    then show "\<exists>k \<le> length (c # s). starts_with (drop k (c # s)) p"
    proof
      assume "starts_with (c # s) p"
      then show ?thesis by (intro exI [of _ 0]) simp
    next
      assume "str_contains s p"
      with Cons obtain k where "k \<le> length s" "starts_with (drop k s) p" by blast
      then show ?thesis by (intro exI [of _ "Suc k"]) simp
    qed
  next
    assume "\<exists>k \<le> length (c # s). starts_with (drop k (c # s)) p"
    then obtain k where k: "k \<le> length (c # s)" "starts_with (drop k (c # s)) p" by blast
    show "str_contains (c # s) p"
    proof (cases k)
      case 0
      with k show ?thesis by (simp add: starts_with_def)
    next
      case (Suc j)
      with k Cons show ?thesis by (auto simp: starts_with_def)
    qed
  qed
qed

text \<open>A pattern that does not occur before the end of its first written occurrence is found there.\<close>

lemma str_find_marker:
  assumes "\<not> str_contains (u @ butlast p) p"
  shows "str_find p (u @ p @ v) = Some (length u)"
proof (rule str_find_first, rule notI)
  fix k assume k: "k < length u" and "starts_with (drop k (u @ p @ v)) p"
  then have a: "take (length p) (drop k (u @ p @ v)) = p" by (metis append_eq_conv_conj starts_with_iff)
  have b: "take (length p) (drop k (u @ butlast p)) = take (length p) (drop k (u @ p @ v))"
  proof (cases "p = []")
    case False
    then have "u @ p @ v = (u @ butlast p) @ last p # v"
      by (metis append_Cons append_assoc append_butlast_last_id append_self_conv2)
    moreover have "take (length p) (drop k (x @ y)) = take (length p) (drop k x)"
      if "k + length p \<le> length x" for x y :: string
      using that by simp
    moreover have "k + length p \<le> length (u @ butlast p)" using k by simp
    ultimately show ?thesis by metis
  qed simp
  have "starts_with (drop k (u @ butlast p)) p"
    unfolding starts_with_def by (rule trans [OF b a])
  moreover have "k \<le> length (u @ butlast p)" using k by simp
  ultimately show False using assms str_contains_iff by blast
qed

lemma str_lines_Cons:
  "CHR 0x0A \<notin> set l \<Longrightarrow> str_lines (l @ CHR 0x0A # s) = chomp_cr l # str_lines s"
  by (simp add: str_lines_def split_on_append Let_def)

lemma is_ws_newline [simp]: "is_ws CHR 0x0A" "is_ws CHR 0x0D"
  by (simp_all add: is_ws_def)

lemma chomp_cr_id: "\<forall>c\<in>set l. \<not> is_ws c \<Longrightarrow> chomp_cr l = l"
  unfolding chomp_cr_def using is_ws_newline(2) last_in_set by metis

lemma trim_id: "s \<noteq> [] \<Longrightarrow> \<not> is_ws (hd s) \<Longrightarrow> \<not> is_ws (last s) \<Longrightarrow> trim s = s"
proof -
  assume a: "s \<noteq> []" "\<not> is_ws (hd s)" "\<not> is_ws (last s)"
  then have "dropWhile is_ws s = s" by (cases s) simp_all
  moreover have "dropWhile is_ws (rev s) = rev s" by (simp add: dropWhile_eq_self_iff hd_rev a)
  ultimately show ?thesis by (simp add: trim_def trim_start_def)
qed

lemma drop_two: "drop (length a + length b) (a @ b @ c) = c"
  by simp

end
