(* ===== verification/Recorder.thy ===== *)
theory Recorder
  imports Recorder_Helpers Host_Interface Keyed_Store Frame_Stack
begin

text \<open>
  \<open>EvmRecorder::record_from_structlog\<close> of \<^verbatim>\<open>src/recorder.rs\<close>: one pass over the trace that
  follows the call depth, emits a step whenever the source location changes, names locals through
  the stack tracker of the current depth, follows internal calls by the jump types of the source
  map, names storage slots through the layout and the hashes seen so far, and forwards events.
  The locals of the function are the record \<open>rec_state\<close>, its arguments and constants the record
  \<open>rec_input\<close>; the blocks of the loop body are definitions of their own, in the order of the code.
  Indexing \<open>stack_trackers[tracker_idx]\<close> out of range, a panic, is \<open>None\<close>.
\<close>

section \<open>State\<close>

record rec_input =
  ri_env :: writer_env
  ri_keccak :: keccak
  ri_logs :: "struct_log list"
  ri_source_map :: source_map
  ri_pc_to_idx :: "nat list"
  ri_source_paths :: "string list"
  ri_source_contents :: "string list"
  ri_layout :: "storage_layout option"
  ri_ast :: "solidity_ast option"
  ri_main_path :: string
  ri_uint256_type_id :: nat

record rec_state =
  rs_rec :: evm_recorder
  rs_prev_line :: "(int \<times> nat \<times> nat) option"
  rs_prev_depth :: nat
  rs_absorbed :: bool
  rs_nesting :: int
  rs_stacks :: "stack_tracker list"
  rs_mems :: "memory_tracker list"
  rs_storage :: "(string \<times> value_record) list"
  rs_slot_values :: "nat \<Rightarrow> u256 option"
  rs_mapping_names :: "u256 \<Rightarrow> string option"

definition on_rec :: "(evm_recorder \<Rightarrow> evm_recorder) \<Rightarrow> rec_state \<Rightarrow> rec_state" where
  "on_rec f s = s\<lparr>rs_rec := f (rs_rec s)\<rparr>"

text \<open>\<open>while v.len() < n { v.push(x) }\<close>.\<close>

definition grow :: "nat \<Rightarrow> 'a \<Rightarrow> 'a list \<Rightarrow> 'a list" where
  "grow n x v = v @ replicate (n - length v) x"

definition path_at :: "string list \<Rightarrow> string \<Rightarrow> int \<Rightarrow> string" where
  "path_at paths main_path fi = (case vec_get paths (usize_of_i32 fi) of Some p \<Rightarrow> p | None \<Rightarrow> main_path)"

definition empty_return :: "nat \<Rightarrow> value_record" where
  "empty_return uint256_type_id = VRaw ''0x'' uint256_type_id"

section \<open>Depth changes\<close>

definition grow_trackers :: "nat \<Rightarrow> rec_state \<Rightarrow> rec_state" where
  "grow_trackers depth s =
     s\<lparr>rs_stacks := grow depth stack_tracker_new (rs_stacks s),
       rs_mems := grow depth memory_tracker_new (rs_mems s)\<rparr>"

definition enter_external :: "rec_input \<Rightarrow> struct_log \<Rightarrow> rec_state \<Rightarrow> rec_state" where
  "enter_external inp lg s =
     (let fn_name = ''external_call_depth_'' @ show_nat (log_depth lg);
          call_path = (case rs_prev_line s of
                         Some (fi, _, _) \<Rightarrow> path_at (ri_source_paths inp) (ri_main_path inp) fi
                       | None \<Rightarrow> ri_main_path inp);
          call_line = (case rs_prev_line s of Some (_, l, _) \<Rightarrow> l | None \<Rightarrow> 0);
          (fn_id, r1) = ensure_function_id (ri_env inp) fn_name call_path call_line (rs_rec s) in
      grow_trackers (log_depth lg) (s\<lparr>rs_rec := emit (W_Call fn_id) r1\<rparr>))"

definition report_inner_revert :: "rec_input \<Rightarrow> nat \<Rightarrow> rec_state \<Rightarrow> rec_state" where
  "report_inner_revert inp i s =
     (if 0 < i then
        (case vec_get (ri_logs inp) (i - 1) of
           None \<Rightarrow> s
         | Some prev_log \<Rightarrow>
             if log_depth prev_log = rs_prev_depth s \<and> log_op prev_log = ''REVERT'' then
               let payload = decode_revert_opcode_payload (log_stack prev_log) (log_memory prev_log) in
               on_rec (emit (W_Event EkError ''RevertCaught'' (dr_message (decode_revert payload)))) s
             else s)
      else s)"

definition leave_frame :: "rec_input \<Rightarrow> rec_state \<Rightarrow> rec_state" where
  "leave_frame inp s =
     (on_rec (emit (W_Return (empty_return (ri_uint256_type_id inp)))) s)
       \<lparr>rs_stacks := butlast (rs_stacks s), rs_mems := butlast (rs_mems s)\<rparr>"

definition depth_change :: "rec_input \<Rightarrow> nat \<Rightarrow> struct_log \<Rightarrow> rec_state \<Rightarrow> rec_state" where
  "depth_change inp i lg s =
     (if rs_prev_depth s < log_depth lg then enter_external inp lg s
      else if log_depth lg < rs_prev_depth s then
        (leave_frame inp ^^ (rs_prev_depth s - log_depth lg)) (report_inner_revert inp i s)
      else s)"

section \<open>Steps\<close>

definition emit_storage :: "writer_env \<Rightarrow> (string \<times> value_record) list \<Rightarrow> evm_recorder \<Rightarrow> evm_recorder" where
  "emit_storage env storage r = fold (\<lambda>(n, v). emit (W_Variable n v)) (we_order env storage) r"

definition emit_step :: "rec_input \<Rightarrow> source_location \<Rightarrow> rec_state \<Rightarrow> rec_state" where
  "emit_step inp location s =
     (let file_idx = loc_file_index location;
          line = loc_line location;
          column = loc_column location;
          current = (file_idx, line, column) in
      if rs_prev_line s \<noteq> Some current then
        let step_path = path_at (ri_source_paths inp) (ri_main_path inp) file_idx;
            r1 = (case vec_get (ri_source_contents inp) (usize_of_i32 file_idx) of
                    Some src \<Rightarrow> ensure_path_with_line_lengths step_path src (rs_rec s)
                  | None \<Rightarrow> rs_rec s);
            r2 = emit (W_Step step_path line (column + 1)) r1;
            line_changed = map_option (\<lambda>(f, l, _). (f, l)) (rs_prev_line s) \<noteq> Some (file_idx, line);
            r3 = (if line_changed then emit_storage (ri_env inp) (rs_storage s) r2 else r2) in
        s\<lparr>rs_rec := r3, rs_prev_line := Some current\<rparr>
      else s)"

section \<open>Locals\<close>

definition track_stack ::
  "nat \<Rightarrow> byte \<Rightarrow> int option \<Rightarrow> var_decl list \<Rightarrow> rec_state \<Rightarrow> rec_state"
where
  "track_stack idx op source_offset vars s =
     s\<lparr>rs_stacks := (rs_stacks s)
         [idx := fst (st_process_step op source_offset vars (rs_stacks s ! idx))]\<rparr>"

definition track_memory ::
  "nat \<Rightarrow> byte \<Rightarrow> int option \<Rightarrow> var_decl list \<Rightarrow> struct_log \<Rightarrow> rec_state \<Rightarrow> rec_state"
where
  "track_memory idx op source_offset vars lg s =
     (if 0x51 \<le> op \<and> op \<le> 0x53 then
        let pre_stack = (case log_stack lg of Some stk \<Rightarrow> stk | None \<Rightarrow> []);
            pre_memory = decode_struct_log_memory (log_memory lg) in
        s\<lparr>rs_mems := (rs_mems s)
            [idx := fst (mt_process_step op source_offset vars pre_stack pre_memory (rs_mems s ! idx))]\<rparr>
      else s)"

definition emit_local ::
  "writer_env \<Rightarrow> stack_tracker \<Rightarrow> u256 list \<Rightarrow> var_decl \<Rightarrow> evm_recorder \<Rightarrow> evm_recorder"
where
  "emit_local env tracker concrete_stack var r =
     (case st_get_variable_value (vd_name var) concrete_stack tracker of
        None \<Rightarrow> r
      | Some val \<Rightarrow>
          let kind = type_kind_for_solidity_type (vd_type_name var);
              (type_id, r1) = ensure_type_id env kind (vd_type_name var) r in
          emit (W_Variable (vd_name var) (value_record_for_local val (vd_type_name var) type_id)) r1)"

definition emit_locals ::
  "writer_env \<Rightarrow> stack_tracker \<Rightarrow> u256 list option \<Rightarrow> var_decl list \<Rightarrow> evm_recorder \<Rightarrow> evm_recorder"
where
  "emit_locals env tracker stack vars r =
     (case stack of None \<Rightarrow> r | Some stk \<Rightarrow> fold (emit_local env tracker stk) vars r)"

definition post_stack :: "struct_log list \<Rightarrow> nat \<Rightarrow> u256 list option" where
  "post_stack logs i = (case vec_get logs (i + 1) of Some next \<Rightarrow> log_stack next | None \<Rightarrow> None)"

definition track_locals ::
  "rec_input \<Rightarrow> nat \<Rightarrow> struct_log \<Rightarrow> int \<Rightarrow> int option \<Rightarrow> nat \<Rightarrow> rec_state \<Rightarrow> rec_state"
where
  "track_locals inp i lg file_idx source_offset idx s =
     (case opcode_from_name (log_op lg) of
        None \<Rightarrow> s
      | Some op \<Rightarrow>
          (case (ri_ast inp, source_offset) of
             (Some ast, Some src_off) \<Rightarrow>
               (case function_at ast src_off file_idx of
                  Some func \<Rightarrow>
                    let in_scope = vars_in_scope_at func src_off;
                        s1 = track_stack idx op (Some src_off) in_scope s;
                        s2 = track_memory idx op (Some src_off) in_scope lg s1 in
                    on_rec (emit_locals (ri_env inp) (rs_stacks s2 ! idx)
                              (post_stack (ri_logs inp) i) in_scope) s2
                | None \<Rightarrow> track_stack idx op (Some src_off) [] s)
           | _ \<Rightarrow> track_stack idx op source_offset [] s))"

section \<open>Internal calls and returns\<close>

definition display_name :: "solidity_ast option \<Rightarrow> function_def \<Rightarrow> string" where
  "display_name ast target =
     (case ast of Some a \<Rightarrow> qualified_function_name a target | None \<Rightarrow> fd_name target)"

definition fallback_name :: "rec_input \<Rightarrow> nat \<Rightarrow> string" where
  "fallback_name inp i =
     (case vec_get (ri_logs inp) (i + 1) of
        None \<Rightarrow> ''unknown_fn''
      | Some next_log \<Rightarrow>
          (case resolve_pc (ri_source_map inp) (log_pc next_log) (ri_pc_to_idx inp)
                  (ri_source_contents inp) of
             Some next_loc \<Rightarrow>
               ''fn_at_'' @ show_int (loc_file_index next_loc) @ '':'' @ show_nat (loc_line next_loc)
           | None \<Rightarrow> ''fn_at_pc_'' @ show_nat (log_pc next_log)))"

definition internal_target :: "rec_input \<Rightarrow> nat \<Rightarrow> function_def option" where
  "internal_target inp i =
     (case resolve_internal_call_target (ri_logs inp) i (ri_source_map inp) (ri_pc_to_idx inp)
             (ri_ast inp) of
        Some f \<Rightarrow> Some f
      | None \<Rightarrow> resolve_enclosing_function_for_jump (ri_logs inp) i (ri_source_map inp)
                  (ri_pc_to_idx inp) (ri_ast inp))"

text \<open>The first jump into a function is absorbed into the top level call.\<close>

definition absorb_call :: "rec_input \<Rightarrow> nat \<Rightarrow> source_location \<Rightarrow> nat \<Rightarrow> rec_state \<Rightarrow> rec_state" where
  "absorb_call inp i location idx s =
     (let s1 = s\<lparr>rs_absorbed := True, rs_nesting := 1,
                 rs_stacks := (rs_stacks s)[idx := st_reset (rs_stacks s ! idx)]\<rparr> in
      case resolve_internal_call_target (ri_logs inp) i (ri_source_map inp) (ri_pc_to_idx inp)
             (ri_ast inp) of
        None \<Rightarrow> s1
      | Some target_fn \<Rightarrow>
          let fn_path = path_at (ri_source_paths inp) (ri_main_path inp) (loc_file_index location) in
          on_rec (\<lambda>r. snd (ensure_function_id (ri_env inp) (display_name (ri_ast inp) target_fn)
                             fn_path (loc_line location) r)) s1)"

definition internal_call ::
  "rec_input \<Rightarrow> nat \<Rightarrow> struct_log \<Rightarrow> source_location \<Rightarrow> nat \<Rightarrow> rec_state \<Rightarrow> rec_state"
where
  "internal_call inp i lg location idx s =
     (let nesting = (if 0 < rs_nesting s then rs_nesting s + 1 else rs_nesting s);
          target_fn = internal_target inp i;
          fn_name = (case target_fn of Some f \<Rightarrow> display_name (ri_ast inp) f
                                     | None \<Rightarrow> fallback_name inp i);
          fn_path = path_at (ri_source_paths inp) (ri_main_path inp) (loc_file_index location);
          (fn_id, r1) = ensure_function_id (ri_env inp) fn_name fn_path (loc_line location) (rs_rec s);
          (tracker, r2) = stage_internal_call_args (ri_env inp) (rs_stacks s ! idx) target_fn
                            (log_stack lg) 1 r1 in
      s\<lparr>rs_nesting := nesting, rs_stacks := (rs_stacks s)[idx := tracker],
        rs_rec := emit (W_Call fn_id) r2\<rparr>)"

definition reset_tracker :: "nat \<Rightarrow> rec_state \<Rightarrow> rec_state" where
  "reset_tracker idx s = s\<lparr>rs_stacks := (rs_stacks s)[idx := st_reset (rs_stacks s ! idx)]\<rparr>"

definition internal_return :: "rec_input \<Rightarrow> nat \<Rightarrow> rec_state \<Rightarrow> rec_state" where
  "internal_return inp idx s =
     (let ret = on_rec (emit (W_Return (empty_return (ri_uint256_type_id inp)))) in
      if 0 < rs_nesting s then
        let s1 = s\<lparr>rs_nesting := rs_nesting s - 1\<rparr> in
        if rs_nesting s1 = 0 then reset_tracker idx s1 else reset_tracker idx (ret s1)
      else reset_tracker idx (ret s))"

definition follow_jump ::
  "rec_input \<Rightarrow> nat \<Rightarrow> struct_log \<Rightarrow> source_location \<Rightarrow> nat \<Rightarrow> rec_state \<Rightarrow> rec_state"
where
  "follow_jump inp i lg location idx s =
     (case get_entry_for_pc (ri_source_map inp) (log_pc lg) (ri_pc_to_idx inp) of
        None \<Rightarrow> s
      | Some entry \<Rightarrow>
          (case sme_jump_type entry of
             Into \<Rightarrow> if \<not> rs_absorbed s then absorb_call inp i location idx s
                    else internal_call inp i lg location idx s
           | OutOf \<Rightarrow> internal_return inp idx s
           | Regular \<Rightarrow> s))"

text \<open>The part of the loop body that depends on the source location.\<close>

definition source_offset_of :: "rec_input \<Rightarrow> struct_log \<Rightarrow> int option" where
  "source_offset_of inp lg =
     (case get_entry_for_pc (ri_source_map inp) (log_pc lg) (ri_pc_to_idx inp) of
        None \<Rightarrow> None
      | Some e \<Rightarrow> if 0 \<le> sme_file_index e then Some (sme_offset e) else None)"

definition locate :: "rec_input \<Rightarrow> nat \<Rightarrow> struct_log \<Rightarrow> nat \<Rightarrow> rec_state \<Rightarrow> rec_state" where
  "locate inp i lg idx s =
     (let source_offset = source_offset_of inp lg in
      case resolve_pc (ri_source_map inp) (log_pc lg) (ri_pc_to_idx inp) (ri_source_contents inp) of
        Some location \<Rightarrow>
          follow_jump inp i lg location idx
            (track_locals inp i lg (loc_file_index location) source_offset idx
              (emit_step inp location s))
      | None \<Rightarrow>
          (case opcode_from_name (log_op lg) of
             Some op \<Rightarrow> track_stack idx op source_offset [] s
           | None \<Rightarrow> s))"

section \<open>Storage\<close>

definition keccak_input :: "struct_log \<Rightarrow> byte list option" where
  "keccak_input lg =
     (if log_op lg \<in> {''KECCAK256'', ''SHA3''} then
        (case log_stack lg of
           None \<Rightarrow> None
         | Some stack \<Rightarrow>
             if 2 \<le> length stack \<and> stack ! (length stack - 2) = 64 then
               (case u64_of_u256 (stack ! (length stack - 1)) of
                  None \<Rightarrow> None
                | Some off_us \<Rightarrow>
                    let memory_bytes = decode_struct_log_memory (log_memory lg);
                        past = u64_saturating_add off_us 64 in
                    if past \<le> length memory_bytes
                    then Some (take (past - off_us) (drop off_us memory_bytes)) else None)
             else None)
      else None)"

definition derive_mapping_name ::
  "keccak \<Rightarrow> storage_layout \<Rightarrow> byte list \<Rightarrow> (u256 \<Rightarrow> string option) \<Rightarrow> (u256 \<Rightarrow> string option)"
where
  "derive_mapping_name keccak256 layout input names =
     (let key_bytes = take 32 input;
          base_slot = u256_from_be (drop 32 input);
          derived_slot = keccak256_u256 keccak256 input;
          direct = (case u64_of_u256 base_slot of
                      Some base \<Rightarrow> mapping_at_base layout base | None \<Rightarrow> None) in
      case direct of
        Some (mapping_label, key_type_label) \<Rightarrow>
          names(derived_slot \<mapsto> mapping_label @ ''['' @ format_mapping_key key_type_label key_bytes @ '']'')
      | None \<Rightarrow>
          (case names base_slot of
             Some parent_name \<Rightarrow>
               names(derived_slot \<mapsto> parent_name @ ''['' @ format_mapping_key ''address'' key_bytes @ '']'')
           | None \<Rightarrow> names))"

definition record_keccak :: "rec_input \<Rightarrow> struct_log \<Rightarrow> rec_state \<Rightarrow> rec_state" where
  "record_keccak inp lg s =
     (case (keccak_input lg, ri_layout inp) of
        (Some input, Some layout) \<Rightarrow>
          s\<lparr>rs_mapping_names := derive_mapping_name (ri_keccak inp) layout input (rs_mapping_names s)\<rparr>
      | _ \<Rightarrow> s)"

text \<open>The chain of \<open>or_else\<close>s that names a slot.\<close>

definition slot_name :: "storage_layout option \<Rightarrow> (u256 \<Rightarrow> string option) \<Rightarrow> u256 \<Rightarrow> string" where
  "slot_name layout mapping_names slot =
     (let slot_decimal = show_nat (unat slot);
          with_layout = (\<lambda>f. case (parse_u64 slot_decimal, layout) of
                               (Some n, Some sl) \<Rightarrow> f sl n | _ \<Rightarrow> None) in
      case (case layout of Some sl \<Rightarrow> map_option se_label (resolve_slot sl slot_decimal) | None \<Rightarrow> None) of
        Some n \<Rightarrow> n
      | None \<Rightarrow>
     (case mapping_names slot of
        Some n \<Rightarrow> n
      | None \<Rightarrow>
     (case with_layout (\<lambda>sl n. map_option (\<lambda>(p, m). p @ ''.'' @ m) (struct_member_at sl n)) of
        Some n \<Rightarrow> n
      | None \<Rightarrow>
     (case with_layout (\<lambda>sl n. map_option (\<lambda>(p, k). p @ ''['' @ show_nat k @ '']'') (array_element_at sl n)) of
        Some n \<Rightarrow> n
      | None \<Rightarrow> ''storage['' @ slot_decimal @ '']''))))"

definition slot_type_name :: "storage_layout option \<Rightarrow> u256 \<Rightarrow> string" where
  "slot_type_name layout slot =
     (case layout of
        None \<Rightarrow> ''uint256''
      | Some sl \<Rightarrow>
          (case resolve_slot sl (show_nat (unat slot)) of
             None \<Rightarrow> ''uint256''
           | Some entry \<Rightarrow>
               (case type_info sl entry of Some ti \<Rightarrow> ti_label ti | None \<Rightarrow> ''uint256'')))"

text \<open>The last value under every name, and the values by slot.\<close>

definition store_variable :: "string \<Rightarrow> value_record \<Rightarrow> rec_state \<Rightarrow> rec_state" where
  "store_variable n v s =
     (on_rec (emit (W_Variable n v)) s)\<lparr>rs_storage := AList.update n v (rs_storage s)\<rparr>"

definition store_compound :: "rec_input \<Rightarrow> storage_layout \<Rightarrow> nat \<Rightarrow> rec_state \<Rightarrow> rec_state" where
  "store_compound inp layout slot s =
     (case containing_compound layout slot of
        None \<Rightarrow> s
      | Some (parent, parent_ti, slot_count) \<Rightarrow>
          let base_slot = (case parse_u64 (se_slot parent) of Some b \<Rightarrow> b | None \<Rightarrow> 0);
              (compound, r1) = build_compound_value (ri_env inp) parent_ti base_slot slot_count
                                 (rs_slot_values s) (rs_rec s);
              s1 = s\<lparr>rs_rec := r1\<rparr> in
          (case compound of
             None \<Rightarrow> s1
           | Some v \<Rightarrow> store_variable (se_label parent) v s1))"

definition record_sstore :: "rec_input \<Rightarrow> struct_log \<Rightarrow> rec_state \<Rightarrow> rec_state" where
  "record_sstore inp lg s =
     (case (if log_op lg = ''SSTORE'' then log_stack lg else None) of
        None \<Rightarrow> s
      | Some stack \<Rightarrow>
          if length stack < 2 then s
          else
            let slot = stack ! (length stack - 1);
                val = stack ! (length stack - 2);
                var_name = slot_name (ri_layout inp) (rs_mapping_names s) slot;
                type_name = slot_type_name (ri_layout inp) slot;
                (type_id, r1) = ensure_type_id (ri_env inp) TkInt type_name (rs_rec s);
                s1 = store_variable var_name (VRaw (hex_u256 val) type_id) (s\<lparr>rs_rec := r1\<rparr>) in
            (case (parse_u64 (show_nat (unat slot)), ri_layout inp) of
               (Some slot_u64, Some layout) \<Rightarrow>
                 store_compound inp layout slot_u64
                   (s1\<lparr>rs_slot_values := (rs_slot_values s1)(slot_u64 \<mapsto> val)\<rparr>)
             | _ \<Rightarrow> s1))"

section \<open>Events\<close>

definition record_log_event :: "struct_log \<Rightarrow> evm_recorder \<Rightarrow> evm_recorder" where
  "record_log_event lg r =
     (case build_log_event_content (log_op lg) (log_stack lg) (log_memory lg) of
        Some content \<Rightarrow> emit (W_Event EkEvmEvent (log_op lg) content) r
      | None \<Rightarrow> r)"

definition record_selfdestruct :: "struct_log \<Rightarrow> evm_recorder \<Rightarrow> evm_recorder" where
  "record_selfdestruct lg r =
     (case build_selfdestruct_event_content (log_op lg) (log_stack lg) of
        Some content \<Rightarrow> emit (W_Event EkEvmEvent ''SELFDESTRUCT'' content) r
      | None \<Rightarrow> r)"

definition record_precompile :: "struct_log \<Rightarrow> evm_recorder \<Rightarrow> evm_recorder" where
  "record_precompile lg r =
     (case build_precompile_event_content (log_op lg) (log_stack lg) of
        Some (metadata, content) \<Rightarrow> emit (W_Event EkEvmEvent metadata content) r
      | None \<Rightarrow> r)"

definition record_events :: "struct_log \<Rightarrow> evm_recorder \<Rightarrow> evm_recorder" where
  "record_events lg r = record_precompile lg (record_selfdestruct lg (record_log_event lg r))"

section \<open>The loop\<close>

definition log_step :: "rec_input \<Rightarrow> nat \<Rightarrow> struct_log \<Rightarrow> rec_state \<Rightarrow> rec_state option" where
  "log_step inp i lg s =
     (let s1 = grow_trackers (log_depth lg) (depth_change inp i lg s);
          idx = log_depth lg - 1 in
      if length (rs_stacks s1) \<le> idx then None
      else Some ((on_rec (record_events lg)
                   (record_sstore inp lg (record_keccak inp lg (locate inp i lg idx s1))))
                 \<lparr>rs_prev_depth := log_depth lg\<rparr>))"

fun log_loop :: "rec_input \<Rightarrow> nat \<Rightarrow> struct_log list \<Rightarrow> rec_state \<Rightarrow> rec_state option" where
  "log_loop inp i [] s = Some s"
| "log_loop inp i (lg # logs) s =
     (case log_step inp i lg s of None \<Rightarrow> None | Some s1 \<Rightarrow> log_loop inp (i + 1) logs s1)"

definition rec_state_init :: "evm_recorder \<Rightarrow> rec_state" where
  "rec_state_init r =
     \<lparr>rs_rec = r, rs_prev_line = None, rs_prev_depth = 1, rs_absorbed = False, rs_nesting = 0,
      rs_stacks = [], rs_mems = [], rs_storage = [], rs_slot_values = (\<lambda>_. None),
      rs_mapping_names = (\<lambda>_. None)\<rparr>"

text \<open>The part before the loop: the main path, \<open>start\<close> and the type of the values.\<close>

definition open_trace :: "writer_env \<Rightarrow> string list \<Rightarrow> string list \<Rightarrow> evm_recorder \<Rightarrow> string \<times> nat \<times> evm_recorder"
where
  "open_trace env source_paths source_contents r =
     (let main_path = (case source_paths of [] \<Rightarrow> ''<unknown>'' | p # _ \<Rightarrow> p);
          r1 = (case (source_paths, source_contents) of
                  (_ # _, src # _) \<Rightarrow> ensure_path_with_line_lengths main_path src r
                | _ \<Rightarrow> r);
          r2 = emit (W_Start main_path 1) r1;
          (uint256_type_id, r3) = ensure_type_id env TkInt ''uint256'' r2 in
      (main_path, uint256_type_id, r3))"

definition recorder_input ::
  "writer_env \<Rightarrow> keccak \<Rightarrow> struct_log list \<Rightarrow> source_map \<Rightarrow> byte list \<Rightarrow> string list \<Rightarrow> string list \<Rightarrow>
     storage_layout option \<Rightarrow> solidity_ast option \<Rightarrow> evm_recorder \<Rightarrow> rec_input \<times> evm_recorder"
where
  "recorder_input env keccak256 logs sm bytecode source_paths source_contents layout ast r =
     (let (main_path, uint256_type_id, r1) = open_trace env source_paths source_contents r in
      (\<lparr>ri_env = env, ri_keccak = keccak256, ri_logs = logs, ri_source_map = sm,
        ri_pc_to_idx = build_pc_to_instruction_index bytecode,
        ri_source_paths = source_paths, ri_source_contents = source_contents,
        ri_layout = layout, ri_ast = ast, ri_main_path = main_path,
        ri_uint256_type_id = uint256_type_id\<rparr>, r1))"

definition record_from_structlog ::
  "writer_env \<Rightarrow> keccak \<Rightarrow> struct_log list \<Rightarrow> source_map \<Rightarrow> byte list \<Rightarrow> string list \<Rightarrow> string list \<Rightarrow>
     storage_layout option \<Rightarrow> solidity_ast option \<Rightarrow> evm_recorder \<Rightarrow> evm_recorder option"
where
  "record_from_structlog env keccak256 logs sm bytecode source_paths source_contents layout ast r =
     (if logs = [] then Some r
      else
        let (inp, r1) = recorder_input env keccak256 logs sm bytecode source_paths source_contents
                          layout ast r in
        map_option rs_rec (log_loop inp 0 logs (rec_state_init r1)))"

definition register_revert :: "string \<Rightarrow> string \<Rightarrow> evm_recorder \<Rightarrow> evm_recorder" where
  "register_revert metadata reason r = emit (W_Event EkError metadata reason) r"

text \<open>\<open>initialize\<close> and \<open>finalize\<close>: whether they succeed, and the recorder they leave.\<close>

definition initialize_trace :: "writer_env \<Rightarrow> string \<Rightarrow> evm_recorder \<Rightarrow> bool \<times> evm_recorder" where
  "initialize_trace env output_dir r =
     (let events_path = path_join output_dir ''trace.json'';
          (ok, r1) = attempt env (W_Begin events_path) r in
      if \<not> ok then (False, r1)
      else (True, register_evm_types
                   (emit W_ColumnMotions (emit W_ColumnBreakpoints (emit W_ColumnSteps r1)))))"

definition finalize_trace :: "writer_env \<Rightarrow> evm_recorder \<Rightarrow> bool \<times> evm_recorder" where
  "finalize_trace env r =
     (let r1 = emit (W_Return VNone) r;
          (finished, r2) = attempt env W_Finish r1 in
      if \<not> finished then (False, r2)
      else let (described, r3) = attempt env (W_MetaDat ''codetracer-evm-recorder'') r2 in
        if \<not> described then (False, r3) else attempt env W_Close r3)"

section \<open>Lemmas\<close>

subsection \<open>Opening and closing the trace\<close>

definition opening_calls :: "string \<Rightarrow> wcall list" where
  "opening_calls output_dir =
     [W_Begin (path_join output_dir ''trace.json''), W_ColumnSteps, W_ColumnBreakpoints, W_ColumnMotions] @
     map (\<lambda>(n, k). W_RegisterType k n) evm_types"

definition closing_calls :: "wcall list" where
  "closing_calls = [W_Return VNone, W_Finish, W_MetaDat ''codetracer-evm-recorder'', W_Close]"

lemma register_types_calls:
  "er_calls (register_evm_types r) = er_calls r @ map (\<lambda>(n, k). W_RegisterType k n) evm_types"
proof -
  have "er_calls (fold (\<lambda>(n, k) r. let r1 = emit (W_RegisterType k n) r in
      r1\<lparr>er_type_names := er_type_names r1 @ [n]\<rparr>) tys r) = er_calls r @ map (\<lambda>(n, k). W_RegisterType k n) tys" for tys
    by (induction tys arbitrary: r) (auto simp: emit_def Let_def)
  then show ?thesis by (simp add: register_evm_types_def)
qed

lemma initialize_trace_calls:
  "initialize_trace env d r = (True, r0) \<Longrightarrow> er_calls r0 = er_calls r @ opening_calls d"
  by (auto simp: initialize_trace_def attempt_def opening_calls_def register_types_calls
      Let_def emit_def split: if_splits)

lemma initialize_trace_accepted:
  "fst (initialize_trace env d r) \<longleftrightarrow> we_accepts env (er_calls r @ [W_Begin (path_join d ''trace.json'')])"
  by (simp add: initialize_trace_def attempt_def Let_def emit_def)

lemma finalize_trace_calls:
  "finalize_trace env r = (True, r') \<Longrightarrow> er_calls r' = er_calls r @ closing_calls"
  by (auto simp: finalize_trace_def attempt_def closing_calls_def Let_def emit_def split: if_splits)

subsection \<open>Operations that neither step nor call\<close>

definition quiet :: "evm_recorder \<Rightarrow> evm_recorder \<Rightarrow> bool" where
  "quiet r r' \<longleftrightarrow> steps_of r' = steps_of r \<and> net_calls r' = net_calls r"

lemma quiet_refl [simp]: "quiet r r"
  by (simp add: quiet_def)

lemma quiet_trans: "quiet r r1 \<Longrightarrow> quiet r1 r2 \<Longrightarrow> quiet r r2"
  by (simp add: quiet_def)

lemma quiet_emit:
  "quiet r r' \<Longrightarrow> quiet r (emit (W_EnsureType k n) r')"
  "quiet r r' \<Longrightarrow> quiet r (emit (W_EnsureFunction n p l) r')"
  "quiet r r' \<Longrightarrow> quiet r (emit (W_Variable n v) r')"
  "quiet r r' \<Longrightarrow> quiet r (emit (W_Arg n v) r')"
  "quiet r r' \<Longrightarrow> quiet r (emit (W_PathLineLengths p ls) r')"
  "quiet r r' \<Longrightarrow> quiet r (emit (W_Event ek m t) r')"
  by (simp_all add: quiet_def)

lemma quiet_fold: "(\<And>x r. quiet r (f x r)) \<Longrightarrow> quiet r (fold f xs r)"
  by (induction xs arbitrary: r) (auto intro: quiet_trans)

lemma quiet_paths: "quiet r (r\<lparr>er_paths := ps\<rparr>)"
  by (simp add: quiet_def steps_of_def net_calls_def)

lemma quiet_ensure_path: "quiet r (ensure_path_with_line_lengths p src r)"
proof -
  have "quiet r (emit (W_PathLineLengths p (compute_line_lengths src)) r)" by (simp add: quiet_emit)
  then show ?thesis
    unfolding ensure_path_with_line_lengths_def Let_def by (auto intro: quiet_trans quiet_paths)
qed

lemma quiet_ensure_type: "quiet r (snd (ensure_type_id env k n r))"
  by (simp add: quiet_emit)

lemma quiet_build_compound: "quiet r (snd (build_compound_value env ti b c vals r))"
  by (auto simp: build_compound_value_def ensure_type_id_def quiet_emit split: option.split)

lemma quiet_stage_args: "quiet r (stage_args env stk slot ps r)"
proof (induction ps arbitrary: slot r)
  case Nil
  then show ?case by simp
next
  case (Cons p ps)
  have "quiet r (emit (W_Arg n v) (emit (W_EnsureType k m) r))" for n v k m by (simp add: quiet_emit)
  then show ?case
    unfolding stage_args.simps ensure_type_id_def Let_def prod.case by (rule quiet_trans [OF _ Cons])
qed

lemma quiet_stage_internal: "quiet r (snd (stage_internal_call_args env t target stk k r))"
  by (auto simp: stage_internal_call_args_def Let_def quiet_stage_args split: option.split)

lemma quiet_emit_local: "quiet r (emit_local env t stk v r)"
  by (auto simp: emit_local_def ensure_type_id_def Let_def quiet_emit split: option.split)

lemma quiet_emit_locals: "quiet r (emit_locals env t stk vars r)"
  by (auto simp: emit_locals_def quiet_fold quiet_emit_local split: option.split)

lemma quiet_emit_storage: "quiet r (emit_storage env st r)"
  unfolding emit_storage_def by (rule quiet_fold) (auto simp: quiet_emit)

lemma quiet_events: "quiet r (record_events lg r)"
proof -
  have "quiet r (record_log_event lg r)" for r
    by (simp add: record_log_event_def quiet_emit split: option.split)
  moreover have "quiet r (record_selfdestruct lg r)" for r
    by (simp add: record_selfdestruct_def quiet_emit split: option.split)
  moreover have "quiet r (record_precompile lg r)" for r
    by (auto simp: record_precompile_def quiet_emit split: option.split)
  ultimately show ?thesis unfolding record_events_def by (blast intro: quiet_trans)
qed

subsection \<open>What the parts of a step leave alone\<close>

text \<open>The control part of the state: everything but the recorder, the tables and the trackers.\<close>

definition control :: "rec_state \<Rightarrow> (int \<times> nat \<times> nat) option \<times> nat \<times> bool \<times> int \<times> nat \<times> nat" where
  "control s = (rs_prev_line s, rs_prev_depth s, rs_absorbed s, rs_nesting s,
                length (rs_stacks s), length (rs_mems s))"

definition idle :: "rec_state \<Rightarrow> rec_state \<Rightarrow> bool" where
  "idle s s' \<longleftrightarrow> control s' = control s \<and> quiet (rs_rec s) (rs_rec s')"

lemma idle_refl [simp]: "idle s s"
  by (simp add: idle_def)

lemma idle_trans: "idle s s1 \<Longrightarrow> idle s1 s2 \<Longrightarrow> idle s s2"
  by (auto simp: idle_def intro: quiet_trans)

lemma idle_on_rec: "(\<And>r. quiet r (f r)) \<Longrightarrow> idle s (on_rec f s)"
  by (simp add: idle_def control_def on_rec_def)

lemma idle_track_stack: "idle s (track_stack idx op off vars s)"
  by (simp add: idle_def control_def track_stack_def)

lemma idle_track_memory: "idle s (track_memory idx op off vars lg s)"
  by (simp add: idle_def control_def track_memory_def Let_def)

lemma idle_track_locals: "idle s (track_locals inp i lg fi off idx s)"
proof -
  have "idle s (on_rec (emit_locals env t stk vars)
      (track_memory idx op o' vars lg (track_stack idx op o' vars s)))" for env t stk vars op o'
    by (blast intro: idle_trans idle_track_stack idle_track_memory idle_on_rec
        quiet_emit_locals)
  then show ?thesis
    by (simp add: track_locals_def Let_def idle_track_stack split: option.split)
qed

lemma idle_record_keccak: "idle s (record_keccak inp lg s)"
  by (simp add: record_keccak_def idle_def control_def split: option.split)

lemma idle_store_variable: "idle s (store_variable n v s)"
  by (simp add: store_variable_def idle_def control_def on_rec_def quiet_emit)

lemma idle_rec: "quiet (rs_rec s) r \<Longrightarrow> idle s (s\<lparr>rs_rec := r\<rparr>)"
  by (simp add: idle_def control_def)

lemma idle_slot_values: "idle s (s\<lparr>rs_slot_values := vals\<rparr>)"
  by (simp add: idle_def control_def)

lemma idle_store_compound: "idle s (store_compound inp layout slot s)"
proof (cases "containing_compound layout slot")
  case None
  then show ?thesis by (simp add: store_compound_def)
next
  case (Some c)
  obtain parent parent_ti n where c: "c = (parent, parent_ti, n)" by (cases c)
  obtain compound r1 where b: "build_compound_value (ri_env inp) parent_ti
      (case parse_u64 (se_slot parent) of Some b \<Rightarrow> b | None \<Rightarrow> 0) n (rs_slot_values s) (rs_rec s)
        = (compound, r1)" by fastforce
  then have "quiet (rs_rec s) r1" by (metis quiet_build_compound snd_conv)
  then have "idle s (s\<lparr>rs_rec := r1\<rparr>)" by (rule idle_rec)
  with Some c b show ?thesis
    by (auto simp: store_compound_def Let_def split: option.split
        intro: idle_trans idle_store_variable)
qed

lemma idle_record_sstore: "idle s (record_sstore inp lg s)"
proof -
  have st: "idle s (store_variable n v (s\<lparr>rs_rec := emit (W_EnsureType k m) (rs_rec s)\<rparr>))" for n v k m
    by (rule idle_trans [OF idle_rec idle_store_variable]) (simp add: quiet_emit)
  have "idle s (store_compound inp layout slot
      ((store_variable n v (s\<lparr>rs_rec := emit (W_EnsureType k m) (rs_rec s)\<rparr>))\<lparr>rs_slot_values := vals\<rparr>))"
    for layout slot n v k m vals
    by (rule idle_trans [OF st idle_trans [OF idle_slot_values idle_store_compound]])
  with st show ?thesis
    by (simp add: record_sstore_def ensure_type_id_def Let_def split: option.split)
qed

lemma idle_record_events: "idle s (on_rec (record_events lg) s)"
  by (rule idle_on_rec) (rule quiet_events)

subsection \<open>The step, the jump and the depth change\<close>

definition place :: "source_location \<Rightarrow> int \<times> nat \<times> nat" where
  "place loc = (loc_file_index loc, loc_line loc, loc_column loc)"

definition step_at :: "rec_input \<Rightarrow> int \<times> nat \<times> nat \<Rightarrow> string \<times> nat \<times> nat" where
  "step_at inp = (\<lambda>(fi, l, c). (path_at (ri_source_paths inp) (ri_main_path inp) fi, l, c + 1))"

lemma quiet_path_or_same:
  "quiet r (case c of Some src \<Rightarrow> ensure_path_with_line_lengths p src r | None \<Rightarrow> r)"
  by (auto simp: quiet_ensure_path split: option.split)

lemma emit_step_effect:
  "rs_prev_line (emit_step inp loc s) = Some (place loc)"
  "steps_of (rs_rec (emit_step inp loc s)) = steps_of (rs_rec s) @
     (if rs_prev_line s = Some (place loc) then [] else [step_at inp (place loc)])"
  "net_calls (rs_rec (emit_step inp loc s)) = net_calls (rs_rec s)"
  "rs_prev_depth (emit_step inp loc s) = rs_prev_depth s"
  "rs_absorbed (emit_step inp loc s) = rs_absorbed s"
  "rs_nesting (emit_step inp loc s) = rs_nesting s"
  "rs_stacks (emit_step inp loc s) = rs_stacks s"
  "rs_mems (emit_step inp loc s) = rs_mems s"
proof -
  let ?c = "vec_get (ri_source_contents inp) (usize_of_i32 (loc_file_index loc))"
  let ?p = "path_at (ri_source_paths inp) (ri_main_path inp) (loc_file_index loc)"
  let ?r1 = "case ?c of Some src \<Rightarrow> ensure_path_with_line_lengths ?p src (rs_rec s) | None \<Rightarrow> rs_rec s"
  let ?r2 = "emit (W_Step ?p (loc_line loc) (loc_column loc + 1)) ?r1"
  have "quiet (rs_rec s) ?r1" by (rule quiet_path_or_same)
  moreover have "quiet ?r2 (emit_storage (ri_env inp) (rs_storage s) ?r2)" by (rule quiet_emit_storage)
  ultimately show
    "rs_prev_line (emit_step inp loc s) = Some (place loc)"
    "steps_of (rs_rec (emit_step inp loc s)) = steps_of (rs_rec s) @
       (if rs_prev_line s = Some (place loc) then [] else [step_at inp (place loc)])"
    "net_calls (rs_rec (emit_step inp loc s)) = net_calls (rs_rec s)"
    "rs_prev_depth (emit_step inp loc s) = rs_prev_depth s"
    "rs_absorbed (emit_step inp loc s) = rs_absorbed s"
    "rs_nesting (emit_step inp loc s) = rs_nesting s"
    "rs_stacks (emit_step inp loc s) = rs_stacks s"
    "rs_mems (emit_step inp loc s) = rs_mems s"
    by (simp_all add: emit_step_def Let_def place_def step_at_def quiet_def)
qed

definition jump_delta :: "jump_type \<Rightarrow> int" where
  "jump_delta jt = (case jt of Into \<Rightarrow> 1 | OutOf \<Rightarrow> - 1 | Regular \<Rightarrow> 0)"

definition jump_at :: "rec_input \<Rightarrow> struct_log \<Rightarrow> jump_type" where
  "jump_at inp lg =
     (case resolve_pc (ri_source_map inp) (log_pc lg) (ri_pc_to_idx inp) (ri_source_contents inp) of
        None \<Rightarrow> Regular
      | Some _ \<Rightarrow> (case get_entry_for_pc (ri_source_map inp) (log_pc lg) (ri_pc_to_idx inp) of
                    None \<Rightarrow> Regular | Some e \<Rightarrow> sme_jump_type e))"

text \<open>One for the absorbed call while it is open.\<close>

definition absorbed_open :: "rec_state \<Rightarrow> int" where
  "absorbed_open s = (if 0 < rs_nesting s then 1 else 0)"

definition nesting_ok :: "rec_state \<Rightarrow> bool" where
  "nesting_ok s \<longleftrightarrow> 0 \<le> rs_nesting s \<and> (\<not> rs_absorbed s \<longrightarrow> rs_nesting s = 0)"

definition jump_effect :: "int \<Rightarrow> rec_state \<Rightarrow> rec_state \<Rightarrow> bool" where
  "jump_effect d s s' \<longleftrightarrow>
     nesting_ok s' \<and> net_calls (rs_rec s') + absorbed_open s' = net_calls (rs_rec s) + absorbed_open s + d \<and>
     steps_of (rs_rec s') = steps_of (rs_rec s) \<and> rs_prev_line s' = rs_prev_line s \<and>
     rs_prev_depth s' = rs_prev_depth s \<and> length (rs_stacks s') = length (rs_stacks s) \<and>
     length (rs_mems s') = length (rs_mems s)"

text \<open>How a jump moves the flag and the counter of the absorbed call.\<close>

definition nest_of :: "rec_state \<Rightarrow> bool \<times> int" where
  "nest_of s = (rs_absorbed s, rs_nesting s)"

definition nest_step :: "int \<Rightarrow> bool \<times> int \<Rightarrow> bool \<times> int" where
  "nest_step d = (\<lambda>(absorbed, n).
     if d = 1 then (True, if \<not> absorbed then 1 else if 0 < n then n + 1 else n)
     else if d = - 1 then (absorbed, if 0 < n then n - 1 else n)
     else (absorbed, n))"

lemma nest_of_follow_jump:
  "nest_of (follow_jump inp i lg loc idx s) =
     nest_step (jump_delta (case get_entry_for_pc (ri_source_map inp) (log_pc lg) (ri_pc_to_idx inp) of
       None \<Rightarrow> Regular | Some e \<Rightarrow> sme_jump_type e)) (nest_of s)"
  by (auto simp: nest_of_def nest_step_def follow_jump_def absorb_call_def internal_call_def internal_return_def
      reset_tracker_def on_rec_def jump_delta_def Let_def split: option.split jump_type.split prod.split)

lemma nest_of_idle: "idle s s' \<Longrightarrow> nest_of s' = nest_of s"
  by (simp add: idle_def control_def nest_of_def)

lemma nest_of_locate: "nest_of (locate inp i lg idx s) = nest_step (jump_delta (jump_at inp lg)) (nest_of s)"
proof (cases "resolve_pc (ri_source_map inp) (log_pc lg) (ri_pc_to_idx inp) (ri_source_contents inp)")
  case None
  then have "idle s (locate inp i lg idx s)"
    by (simp add: locate_def idle_track_stack split: option.split)
  with None show ?thesis
    by (simp add: nest_of_idle jump_at_def jump_delta_def nest_step_def split_beta)
next
  case (Some l)
  have "nest_of (emit_step inp l s) = nest_of s" by (simp add: nest_of_def emit_step_effect)
  with Some show ?thesis
    by (simp add: locate_def Let_def nest_of_follow_jump nest_of_idle [OF idle_track_locals] jump_at_def)
qed

lemma jump_effect_idle: "idle s s' \<Longrightarrow> nesting_ok s \<Longrightarrow> jump_effect 0 s s'"
  by (simp add: jump_effect_def idle_def control_def quiet_def nesting_ok_def absorbed_open_def)

lemma jump_effect_trans: "jump_effect d s s1 \<Longrightarrow> jump_effect e s1 s2 \<Longrightarrow> jump_effect (d + e) s s2"
  by (simp add: jump_effect_def)

lemma absorb_call_effect:
  "nesting_ok s \<Longrightarrow> \<not> rs_absorbed s \<Longrightarrow> jump_effect 1 s (absorb_call inp i loc idx s)"
  by (simp add: absorb_call_def Let_def jump_effect_def nesting_ok_def absorbed_open_def on_rec_def
      split: option.split)

lemma internal_call_effect:
  assumes "nesting_ok s" "rs_absorbed s"
  shows "jump_effect 1 s (internal_call inp i lg loc idx s)"
proof -
  define fn_name where "fn_name = (case internal_target inp i of
      Some f \<Rightarrow> display_name (ri_ast inp) f | None \<Rightarrow> fallback_name inp i)"
  let ?p = "path_at (ri_source_paths inp) (ri_main_path inp) (loc_file_index loc)"
  let ?r1 = "emit (W_EnsureFunction fn_name ?p (loc_line loc)) (rs_rec s)"
  obtain t r2 where st: "stage_internal_call_args (ri_env inp) (rs_stacks s ! idx) (internal_target inp i)
      (log_stack lg) 1 ?r1 = (t, r2)" by fastforce
  then have "quiet ?r1 r2" by (metis quiet_stage_internal snd_conv)
  with assms st show ?thesis
    by (simp add: internal_call_def ensure_function_id_def Let_def jump_effect_def nesting_ok_def
        absorbed_open_def quiet_def flip: fn_name_def)
qed

lemma internal_return_effect:
  "nesting_ok s \<Longrightarrow> jump_effect (- 1) s (internal_return inp idx s)"
  by (auto simp: internal_return_def Let_def jump_effect_def nesting_ok_def absorbed_open_def
      on_rec_def reset_tracker_def)

lemma follow_jump_effect:
  assumes "nesting_ok s"
  shows "jump_effect (jump_delta (case get_entry_for_pc (ri_source_map inp) (log_pc lg) (ri_pc_to_idx inp) of
           None \<Rightarrow> Regular | Some e \<Rightarrow> sme_jump_type e)) s (follow_jump inp i lg loc idx s)"
  using assms absorb_call_effect internal_call_effect internal_return_effect
    jump_effect_idle [OF idle_refl assms]
  by (simp add: follow_jump_def jump_delta_def split: option.split jump_type.split)

text \<open>The located part as a whole.\<close>

lemma locate_effect:
  assumes "nesting_ok s"
    and loc_def: "loc = resolve_pc (ri_source_map inp) (log_pc lg) (ri_pc_to_idx inp) (ri_source_contents inp)"
  shows "nesting_ok (locate inp i lg idx s) \<and>
    net_calls (rs_rec (locate inp i lg idx s)) + absorbed_open (locate inp i lg idx s)
      = net_calls (rs_rec s) + absorbed_open s + jump_delta (jump_at inp lg) \<and>
    rs_prev_depth (locate inp i lg idx s) = rs_prev_depth s \<and>
    length (rs_stacks (locate inp i lg idx s)) = length (rs_stacks s) \<and>
    length (rs_mems (locate inp i lg idx s)) = length (rs_mems s) \<and>
    rs_prev_line (locate inp i lg idx s) =
      (case loc of None \<Rightarrow> rs_prev_line s | Some l \<Rightarrow> Some (place l)) \<and>
    steps_of (rs_rec (locate inp i lg idx s)) = steps_of (rs_rec s) @
      (case loc of None \<Rightarrow> [] | Some l \<Rightarrow>
         if rs_prev_line s = Some (place l) then [] else [step_at inp (place l)])"
proof (cases loc)
  case None
  have "idle s (locate inp i lg idx s)"
    using None by (simp add: loc_def locate_def idle_track_stack split: option.split)
  from jump_effect_idle [OF this assms(1)] None show ?thesis
    by (simp add: jump_effect_def jump_at_def jump_delta_def loc_def)
next
  case (Some l)
  let ?s1 = "emit_step inp l s"
  let ?s2 = "track_locals inp i lg (loc_file_index l) (source_offset_of inp lg) idx ?s1"
  let ?jt = "case get_entry_for_pc (ri_source_map inp) (log_pc lg) (ri_pc_to_idx inp) of
      None \<Rightarrow> Regular | Some e \<Rightarrow> sme_jump_type e"
  have loc: "locate inp i lg idx s = follow_jump inp i lg l idx ?s2" "jump_at inp lg = ?jt"
    using Some by (simp_all add: loc_def locate_def jump_at_def Let_def)
  have "nesting_ok ?s1" using assms(1) by (simp add: nesting_ok_def emit_step_effect)
  from jump_effect_idle [OF idle_track_locals this]
  have e2: "jump_effect 0 ?s1 ?s2" .
  then have "nesting_ok ?s2" by (simp add: jump_effect_def)
  from jump_effect_trans [OF e2 follow_jump_effect [OF this]]
  have "jump_effect (jump_delta (jump_at inp lg)) ?s1 (locate inp i lg idx s)"
    unfolding loc by simp
  with Some show ?thesis
    by (simp add: jump_effect_def emit_step_effect absorbed_open_def)
qed

definition aligned :: "rec_state \<Rightarrow> bool" where
  "aligned s \<longleftrightarrow> length (rs_mems s) = length (rs_stacks s) \<and>
     (length (rs_stacks s) = rs_prev_depth s \<or> length (rs_stacks s) = 0 \<and> rs_prev_depth s = 1)"

lemma length_grow [simp]: "length (grow n x v) = max n (length v)"
  by (simp add: grow_def)

lemma leave_frames_effect:
  "length (rs_stacks ((leave_frame inp ^^ k) s)) = length (rs_stacks s) - k \<and>
   length (rs_mems ((leave_frame inp ^^ k) s)) = length (rs_mems s) - k \<and>
   net_calls (rs_rec ((leave_frame inp ^^ k) s)) = net_calls (rs_rec s) - int k \<and>
   steps_of (rs_rec ((leave_frame inp ^^ k) s)) = steps_of (rs_rec s) \<and>
   rs_prev_line ((leave_frame inp ^^ k) s) = rs_prev_line s \<and>
   rs_absorbed ((leave_frame inp ^^ k) s) = rs_absorbed s \<and>
   rs_nesting ((leave_frame inp ^^ k) s) = rs_nesting s"
  by (induction k) (simp_all add: leave_frame_def on_rec_def)

lemma idle_report_inner_revert: "idle s (report_inner_revert inp i s)"
proof -
  have "idle s (on_rec (emit (W_Event EkError m t)) s)" for m t
    by (rule idle_on_rec) (simp add: quiet_emit)
  then show ?thesis by (simp add: report_inner_revert_def Let_def split: option.split)
qed

lemma depth_change_effect:
  assumes "aligned s" "1 \<le> log_depth lg"
    and s'_def: "s' = grow_trackers (log_depth lg) (depth_change inp i lg s)"
  shows "length (rs_stacks s') = log_depth lg \<and> length (rs_mems s') = log_depth lg \<and>
    (log_depth lg \<le> rs_prev_depth s + 1 \<longrightarrow>
       net_calls (rs_rec s') = net_calls (rs_rec s) + int (log_depth lg) - int (rs_prev_depth s)) \<and>
    steps_of (rs_rec s') = steps_of (rs_rec s) \<and> rs_prev_line s' = rs_prev_line s \<and>
    rs_absorbed s' = rs_absorbed s \<and> rs_nesting s' = rs_nesting s"
proof -
  consider (down) "rs_prev_depth s < log_depth lg" | (up) "log_depth lg < rs_prev_depth s"
    | (same) "log_depth lg = rs_prev_depth s" by linarith
  then show ?thesis
  proof cases
    case down
    with assms(1) show ?thesis
      by (auto simp: s'_def depth_change_def enter_external_def grow_trackers_def Let_def
          aligned_def ensure_function_id_def)
  next
    case up
    let ?k = "rs_prev_depth s - log_depth lg" and ?s1 = "report_inner_revert inp i s"
    have i: "length (rs_stacks ?s1) = length (rs_stacks s)" "length (rs_mems ?s1) = length (rs_mems s)"
      "net_calls (rs_rec ?s1) = net_calls (rs_rec s)" "steps_of (rs_rec ?s1) = steps_of (rs_rec s)"
      "rs_prev_line ?s1 = rs_prev_line s" "rs_absorbed ?s1 = rs_absorbed s" "rs_nesting ?s1 = rs_nesting s"
      using idle_report_inner_revert [of s inp i] by (simp_all add: idle_def control_def quiet_def)
    from up assms(1,2) leave_frames_effect [where inp = inp and k = ?k and s = ?s1] i show ?thesis
      by (auto simp: s'_def depth_change_def grow_trackers_def aligned_def)
  next
    case same
    with assms(1) show ?thesis
      by (auto simp: s'_def depth_change_def grow_trackers_def aligned_def)
  qed
qed

subsection \<open>The loop\<close>

definition place_of :: "rec_input \<Rightarrow> struct_log \<Rightarrow> (int \<times> nat \<times> nat) option" where
  "place_of inp lg = map_option place
     (resolve_pc (ri_source_map inp) (log_pc lg) (ri_pc_to_idx inp) (ri_source_contents inp))"

text \<open>The places of a trace that differ from the one before, \<open>p\<close> being the place before the first.\<close>

fun changes :: "'a option \<Rightarrow> 'a list \<Rightarrow> 'a list" where
  "changes p [] = []"
| "changes p (x # xs) = (if p = Some x then changes p xs else x # changes (Some x) xs)"

lemma changes_Some: "changes (Some x) xs = tl (remdups_adj (x # xs))"
proof (induction xs arbitrary: x)
  case Nil
  then show ?case by simp
next
  case (Cons y ys)
  then show ?case by (cases "x = y") (simp_all add: remdups_adj_Cons split: list.split)
qed

lemma changes_None: "changes None xs = remdups_adj xs"
proof (cases xs)
  case Nil
  then show ?thesis by simp
next
  case (Cons x ys)
  have "remdups_adj (x # ys) = x # tl (remdups_adj (x # ys))"
    by (simp add: remdups_adj_Cons split: list.split)
  with Cons show ?thesis by (simp add: changes_Some)
qed

definition places :: "rec_input \<Rightarrow> struct_log list \<Rightarrow> (int \<times> nat \<times> nat) list" where
  "places inp logs = List.map_filter (place_of inp) logs"

lemma places_simps [simp]:
  "places inp [] = []"
  "places inp (lg # logs) = (case place_of inp lg of None \<Rightarrow> places inp logs | Some p \<Rightarrow> p # places inp logs)"
  by (simp_all add: places_def List.map_filter_simps split: option.split)

lemma log_step_effect:
  assumes "aligned s" "nesting_ok s" "1 \<le> log_depth lg"
  shows "\<exists>s'. log_step inp i lg s = Some s' \<and> aligned s' \<and> nesting_ok s' \<and>
    rs_prev_depth s' = log_depth lg \<and> length (rs_stacks s') = log_depth lg \<and>
    length (rs_mems s') = log_depth lg \<and>
    (log_depth lg \<le> rs_prev_depth s + 1 \<longrightarrow>
       net_calls (rs_rec s') + absorbed_open s' =
         net_calls (rs_rec s) + absorbed_open s + int (log_depth lg) - int (rs_prev_depth s)
           + jump_delta (jump_at inp lg)) \<and>
    rs_prev_line s' = (case place_of inp lg of None \<Rightarrow> rs_prev_line s | Some p \<Rightarrow> Some p) \<and>
    nest_of s' = nest_step (jump_delta (jump_at inp lg)) (nest_of s) \<and>
    steps_of (rs_rec s') = steps_of (rs_rec s) @ map (step_at inp)
      (case place_of inp lg of None \<Rightarrow> [] | Some p \<Rightarrow> changes (rs_prev_line s) [p])"
proof -
  define s1 where "s1 = grow_trackers (log_depth lg) (depth_change inp i lg s)"
  define s2 where "s2 = locate inp i lg (log_depth lg - 1) s1"
  define s3 where "s3 = on_rec (record_events lg) (record_sstore inp lg (record_keccak inp lg s2))"
  have d: "length (rs_stacks s1) = log_depth lg \<and> length (rs_mems s1) = log_depth lg \<and>
    (log_depth lg \<le> rs_prev_depth s + 1 \<longrightarrow>
       net_calls (rs_rec s1) = net_calls (rs_rec s) + int (log_depth lg) - int (rs_prev_depth s)) \<and>
    steps_of (rs_rec s1) = steps_of (rs_rec s) \<and> rs_prev_line s1 = rs_prev_line s \<and>
    rs_absorbed s1 = rs_absorbed s \<and> rs_nesting s1 = rs_nesting s"
    by (rule depth_change_effect [OF assms(1,3) s1_def])
  with assms(2) have n1: "nesting_ok s1" by (simp add: nesting_ok_def)
  note l = locate_effect [OF n1 refl, where i = i and lg = lg and inp = inp and idx = "log_depth lg - 1",
      folded s2_def]
  have p: "idle s2 s3" unfolding s3_def
    by (blast intro: idle_trans idle_record_keccak idle_record_sstore idle_record_events)
  from p have c: "rs_prev_line s3 = rs_prev_line s2" "rs_absorbed s3 = rs_absorbed s2"
    "rs_nesting s3 = rs_nesting s2" "length (rs_stacks s3) = length (rs_stacks s2)"
    "length (rs_mems s3) = length (rs_mems s2)" "net_calls (rs_rec s3) = net_calls (rs_rec s2)"
    "steps_of (rs_rec s3) = steps_of (rs_rec s2)"
    by (simp_all add: idle_def control_def quiet_def)
  have "log_step inp i lg s = Some (s3\<lparr>rs_prev_depth := log_depth lg\<rparr>)"
    using d assms(3)
    unfolding log_step_def Let_def s1_def [symmetric] s2_def [symmetric] s3_def [symmetric] by auto
  moreover have "absorbed_open s1 = absorbed_open s" using d by (simp add: absorbed_open_def)
  moreover have "nest_of s1 = nest_of s" using d by (simp add: nest_of_def)
  then have "nest_of (s3\<lparr>rs_prev_depth := log_depth lg\<rparr>) = nest_step (jump_delta (jump_at inp lg)) (nest_of s)"
    using nest_of_idle [OF p] nest_of_locate [of inp i lg "log_depth lg - 1" s1]
    by (simp add: nest_of_def s2_def)
  ultimately show ?thesis
    using d l c by (auto simp: aligned_def nesting_ok_def absorbed_open_def place_of_def split: option.split)
qed

text \<open>Depths grow by at most one from a log to the next.\<close>

fun depths_from :: "nat \<Rightarrow> struct_log list \<Rightarrow> bool" where
  "depths_from d [] = True"
| "depths_from d (lg # logs) = (1 \<le> log_depth lg \<and> log_depth lg \<le> d + 1 \<and> depths_from (log_depth lg) logs)"

definition jump_deltas :: "rec_input \<Rightarrow> struct_log list \<Rightarrow> int list" where
  "jump_deltas inp logs = map (\<lambda>lg. jump_delta (jump_at inp lg)) logs"

text \<open>
  The first jump into a function is absorbed into the top level call: no call is written for it, and
  no return for the jump that matches it. It is still open when, from that jump on, more functions
  have been jumped into than out of at every point.
\<close>

definition absorbed_call_open :: "int list \<Rightarrow> bool" where
  "absorbed_call_open ds =
     (let since = dropWhile (\<lambda>d. d \<noteq> 1) ds in
      since \<noteq> [] \<and> (\<forall>k\<in>{1..length since}. 0 < sum_list (take k since)))"

definition jumps :: "rec_input \<Rightarrow> struct_log list \<Rightarrow> int" where
  "jumps inp logs = sum_list (map (\<lambda>lg. jump_delta (jump_at inp lg)) logs)"

definition last_depth :: "nat \<Rightarrow> struct_log list \<Rightarrow> nat" where
  "last_depth d logs = (if logs = [] then d else log_depth (last logs))"

lemma log_loop_total:
  assumes "aligned s" "nesting_ok s" "\<forall>lg\<in>set logs. 1 \<le> log_depth lg"
  shows "\<exists>s'. log_loop inp i logs s = Some s' \<and> aligned s' \<and> nesting_ok s' \<and>
    (logs \<noteq> [] \<longrightarrow> length (rs_stacks s') = log_depth (last logs) \<and>
                    length (rs_mems s') = log_depth (last logs)) \<and>
    steps_of (rs_rec s') = steps_of (rs_rec s) @
      map (step_at inp) (changes (rs_prev_line s) (places inp logs))"
  using assms
proof (induction logs arbitrary: i s)
  case Nil
  then show ?case by simp
next
  case (Cons lg logs)
  obtain s1 where s1: "log_step inp i lg s = Some s1" "aligned s1" "nesting_ok s1"
    "length (rs_stacks s1) = log_depth lg" "length (rs_mems s1) = log_depth lg"
    "rs_prev_line s1 = (case place_of inp lg of None \<Rightarrow> rs_prev_line s | Some p \<Rightarrow> Some p)"
    "steps_of (rs_rec s1) = steps_of (rs_rec s) @ map (step_at inp)
      (case place_of inp lg of None \<Rightarrow> [] | Some p \<Rightarrow> changes (rs_prev_line s) [p])"
    using log_step_effect [OF Cons.prems(1,2), of lg inp i] Cons.prems(3) by auto
  obtain s' where s': "log_loop inp (i + 1) logs s1 = Some s'" "aligned s'" "nesting_ok s'"
    "logs \<noteq> [] \<longrightarrow> length (rs_stacks s') = log_depth (last logs) \<and>
                    length (rs_mems s') = log_depth (last logs)"
    "steps_of (rs_rec s') = steps_of (rs_rec s1) @
      map (step_at inp) (changes (rs_prev_line s1) (places inp logs))"
    using Cons.IH [OF s1(2,3), of "i + 1"] Cons.prems(3) by auto
  have "logs = [] \<Longrightarrow> s' = s1" using s'(1) by simp
  then have "length (rs_stacks s') = log_depth (last (lg # logs)) \<and>
      length (rs_mems s') = log_depth (last (lg # logs))" using s1 s' by auto
  moreover have "steps_of (rs_rec s') = steps_of (rs_rec s) @
      map (step_at inp) (changes (rs_prev_line s) (places inp (lg # logs)))"
    using s1(6,7) s'(5) by (cases "place_of inp lg") (auto split: if_splits)
  ultimately show ?case using s1 s' by auto
qed

lemma log_loop_balance:
  assumes "aligned s" "nesting_ok s" "depths_from (rs_prev_depth s) logs" "log_loop inp i logs s = Some s'"
  shows "net_calls (rs_rec s') + absorbed_open s' = net_calls (rs_rec s) + absorbed_open s +
           int (last_depth (rs_prev_depth s) logs) - int (rs_prev_depth s) + jumps inp logs"
  using assms
proof (induction logs arbitrary: i s)
  case Nil
  then show ?case by (simp add: last_depth_def jumps_def)
next
  case (Cons lg logs)
  then have "1 \<le> log_depth lg" by simp
  from log_step_effect [OF Cons.prems(1,2) this, of inp i] Cons.prems(3) obtain s1 where
    s1: "log_step inp i lg s = Some s1" "aligned s1" "nesting_ok s1" "rs_prev_depth s1 = log_depth lg"
    "net_calls (rs_rec s1) + absorbed_open s1 =
         net_calls (rs_rec s) + absorbed_open s + int (log_depth lg) - int (rs_prev_depth s)
           + jump_delta (jump_at inp lg)" by auto
  from Cons.IH [OF s1(2,3), of "i + 1"] Cons.prems(3,4) s1 show ?case
    by (simp add: last_depth_def jumps_def)
qed

lemma log_loop_nest:
  assumes "aligned s" "nesting_ok s" "\<forall>lg\<in>set logs. 1 \<le> log_depth lg" "log_loop inp i logs s = Some s'"
  shows "nest_of s' = fold nest_step (jump_deltas inp logs) (nest_of s)"
  using assms
proof (induction logs arbitrary: i s)
  case Nil
  then show ?case by (simp add: jump_deltas_def)
next
  case (Cons lg logs)
  then have "1 \<le> log_depth lg" by simp
  from log_step_effect [OF Cons.prems(1,2) this, of inp i] obtain s1 where
    s1: "log_step inp i lg s = Some s1" "aligned s1" "nesting_ok s1"
    "nest_of s1 = nest_step (jump_delta (jump_at inp lg)) (nest_of s)" by blast
  from Cons.IH [OF s1(2,3), of "i + 1"] Cons.prems(3,4) s1(1,4) show ?case
    by (simp add: jump_deltas_def)
qed

lemma fold_nest_closed: "fold nest_step ds (True, 0) = (True, 0)"
  by (induction ds) (simp_all add: nest_step_def)

lemma fold_nest_open:
  assumes "0 < n" "set ds \<subseteq> {- 1, 0, 1}"
  shows "0 < snd (fold nest_step ds (True, n)) \<longleftrightarrow> (\<forall>k\<in>{1..length ds}. 0 < n + sum_list (take k ds))"
  using assms
proof (induction ds arbitrary: n)
  case Nil
  then show ?case by simp
next
  case (Cons d ds)
  have step: "nest_step d (True, n) = (True, n + d)"
    using Cons.prems by (auto simp: nest_step_def)
  have all: "(\<forall>k\<in>{1..length (d # ds)}. 0 < n + sum_list (take k (d # ds))) \<longleftrightarrow>
      0 < n + d \<and> (\<forall>k\<in>{1..length ds}. 0 < (n + d) + sum_list (take k ds))"
  proof (intro iffI conjI ballI)
    assume a: "\<forall>k\<in>{1..length (d # ds)}. 0 < n + sum_list (take k (d # ds))"
    show "0 < n + d" using a [rule_format, of 1] by simp
    fix k assume "k \<in> {1..length ds}"
    then show "0 < (n + d) + sum_list (take k ds)" using a [rule_format, of "Suc k"] by (simp add: add.assoc)
  next
    assume a: "0 < n + d \<and> (\<forall>k\<in>{1..length ds}. 0 < (n + d) + sum_list (take k ds))"
    fix k assume k: "k \<in> {1..length (d # ds)}"
    then obtain j where j: "k = Suc j" by (cases k) auto
    show "0 < n + sum_list (take k (d # ds))"
      using a k by (cases j) (auto simp: j add.assoc)
  qed
  show ?case
  proof (cases "0 < n + d")
    case True
    with Cons.IH [of "n + d"] Cons.prems(2) show ?thesis by (simp only: all fold_simps step) simp
  next
    case False
    with Cons.prems have "n + d = 0" by auto
    with False show ?thesis by (simp only: all fold_simps step fold_nest_closed) simp
  qed
qed

lemma fold_nest_init:
  assumes "set ds \<subseteq> {- 1, 0, 1}"
  shows "0 < snd (fold nest_step ds (False, 0)) \<longleftrightarrow> absorbed_call_open ds"
  using assms
proof (induction ds)
  case Nil
  then show ?case by (simp add: absorbed_call_open_def)
next
  case (Cons d ds)
  show ?case
  proof (cases "d = 1")
    case True
    then have "0 < snd (fold nest_step (d # ds) (False, 0)) \<longleftrightarrow>
        (\<forall>k\<in>{1..length ds}. 0 < 1 + sum_list (take k ds))"
      using fold_nest_open [of 1 ds] Cons.prems by (simp add: nest_step_def)
    also have "... \<longleftrightarrow> (\<forall>k\<in>{1..length (d # ds)}. 0 < sum_list (take k (d # ds)))"
    proof (intro iffI ballI)
      fix k assume a: "\<forall>k\<in>{1..length ds}. 0 < 1 + sum_list (take k ds)" and k: "k \<in> {1..length (d # ds)}"
      then obtain j where "k = Suc j" by (cases k) auto
      then show "0 < sum_list (take k (d # ds))" using a k True by (cases j) auto
    next
      fix k assume "\<forall>k\<in>{1..length (d # ds)}. 0 < sum_list (take k (d # ds))" "k \<in> {1..length ds}"
      then show "0 < 1 + sum_list (take k ds)" using True by (auto dest: bspec [of _ _ "Suc k"])
    qed
    finally show ?thesis using True by (simp add: absorbed_call_open_def)
  next
    case False
    then have "nest_step d (False, 0) = (False, 0)" by (simp add: nest_step_def)
    with False Cons show ?thesis by (simp add: absorbed_call_open_def)
  qed
qed

lemma jump_deltas_range: "set (jump_deltas inp logs) \<subseteq> {- 1, 0, 1}"
  by (auto simp: jump_deltas_def jump_delta_def split: jump_type.splits)

lemma rec_state_init_ok: "aligned (rec_state_init r)" "nesting_ok (rec_state_init r)"
  by (simp_all add: rec_state_init_def aligned_def nesting_ok_def)

lemma rec_state_init_simps [simp]:
  "rs_rec (rec_state_init r) = r" "rs_prev_line (rec_state_init r) = None"
  "rs_prev_depth (rec_state_init r) = 1" "absorbed_open (rec_state_init r) = 0"
  by (simp_all add: rec_state_init_def absorbed_open_def)

lemma quiet_open_trace:
  assumes "open_trace env paths contents r = (main_path, tid, r1)"
  shows "steps_of r1 = steps_of r \<and> net_calls r1 = net_calls r"
proof -
  define r0 where "r0 = (case (paths, contents) of
      (_ # _, src # _) \<Rightarrow> ensure_path_with_line_lengths
         (case paths of [] \<Rightarrow> ''<unknown>'' | p # _ \<Rightarrow> p) src r
    | _ \<Rightarrow> r)"
  have "quiet r r0" unfolding r0_def by (auto simp: quiet_ensure_path split: list.split)
  moreover have "r1 = emit (W_EnsureType TkInt ''uint256'')
      (emit (W_Start (case paths of [] \<Rightarrow> ''<unknown>'' | p # _ \<Rightarrow> p) 1) r0)"
    using assms unfolding open_trace_def Let_def r0_def ensure_type_id_def by auto
  ultimately show ?thesis by (simp add: quiet_def)
qed

lemma quiet_recorder_input:
  assumes "recorder_input env k logs sm code paths contents layout ast r = (inp, r1)"
  shows "steps_of r1 = steps_of r \<and> net_calls r1 = net_calls r"
  using assms quiet_open_trace [of env paths contents r]
  by (auto simp: recorder_input_def split: prod.splits)

section \<open>Properties of the recording loop\<close>

text \<open>An example: two one-byte instructions on two lines of one source file.\<close>

definition example_env :: writer_env where
  "example_env = \<lparr>we_type_id = (\<lambda>_ _ _. 1), we_function_id = (\<lambda>_ _ _ _. 2), we_accepts = (\<lambda>_. True),
                  we_order = rev\<rparr>"

definition example_log :: "nat \<Rightarrow> nat \<Rightarrow> struct_log" where
  "example_log pc d = \<lparr>log_pc = pc, log_op = ''ADD'', log_depth = d, log_stack = Some [1, 2],
                       log_memory = None\<rparr>"

definition example_map :: source_map where
  "example_map = \<lparr>sm_entries =
     [\<lparr>sme_offset = 0, sme_length = 1, sme_file_index = 0, sme_jump_type = Regular,
       sme_modifier_depth = 0\<rparr>,
      \<lparr>sme_offset = 2, sme_length = 1, sme_file_index = 0, sme_jump_type = Into,
       sme_modifier_depth = 0\<rparr>]\<rparr>"

definition example_source :: string where
  "example_source = [CHR ''a'', CHR 0x0A, CHR ''b'']"

lemma single_steps:
  assumes "\<forall>lg\<in>set logs. 1 \<le> log_depth lg" and "logs \<noteq> []"
    and "recorder_input env k logs sm code paths contents layout ast r = (inp, r1)"
  shows "\<exists>r'. record_from_structlog env k logs sm code paths contents layout ast r = Some r' \<and>
           steps_of r' = steps_of r @ map (step_at inp) (remdups_adj (places inp logs))"
proof -
  obtain s' where s': "log_loop inp 0 logs (rec_state_init r1) = Some s'"
    "steps_of (rs_rec s') = steps_of r1 @ map (step_at inp) (changes None (places inp logs))"
    using log_loop_total [OF rec_state_init_ok assms(1), of inp 0 r1] by auto
  with assms quiet_recorder_input [OF assms(3)] show ?thesis
    by (simp add: record_from_structlog_def changes_None)
qed

text \<open>
  C1: for any trace whose depths are at least one, recording does not panic, and the steps
  written are exactly the source places of the instructions in order, runs of the same place
  collapsed to one step: none is lost, none is repeated, and columns are shifted to start at one.
\<close>

theorem steps_follow_source_places:
  assumes "\<forall>lg\<in>set logs. 1 \<le> log_depth lg" and "logs \<noteq> []"
    and "recorder_input env k logs sm code paths contents layout ast r = (inp, r1)"
  shows "\<exists>r'. record_from_structlog env k logs sm code paths contents layout ast r = Some r' \<and>
           steps_of r' = steps_of r @ map (step_at inp) (remdups_adj (places inp logs))"
  using assms by (rule single_steps)

theorem steps_follow_source_places_witness:
  "\<exists>r'. record_from_structlog example_env (\<lambda>_. []) [example_log 0 1, example_log 0 1, example_log 1 1]
          example_map [0x01, 0x01] [''A.sol''] [example_source] None None evm_recorder_new = Some r' \<and>
        steps_of r' = [(''A.sol'', 1, 1), (''A.sol'', 2, 1)]"
proof -
  let ?logs = "[example_log 0 1, example_log 0 1, example_log 1 1]"
  obtain inp r1 where inp: "recorder_input example_env (\<lambda>_. []) ?logs example_map [0x01, 0x01] [''A.sol'']
      [example_source] None None evm_recorder_new = (inp, r1)" by fastforce
  have table: "build_pc_to_instruction_index [0x01, 0x01] = [0, 1]" by code_simp
  have lc: "offset_to_line_col example_source 0 = (1, 0)" "offset_to_line_col example_source 2 = (2, 0)"
    unfolding example_source_def by code_simp+
  have "ri_source_map inp = example_map" "ri_pc_to_idx inp = [0, 1]"
    "ri_source_contents inp = [example_source]" "ri_source_paths inp = [''A.sol'']"
    using inp table by (auto simp: recorder_input_def open_trace_def Let_def split: prod.splits)
  then have "map (step_at inp) (remdups_adj (places inp ?logs)) = [(''A.sol'', 1, 1), (''A.sol'', 2, 1)]"
    by (simp add: place_of_def place_def resolve_pc_def vec_get_def example_log_def example_map_def
        example_source_def step_at_def path_at_def usize_of_i32_def lc [unfolded example_source_def])
  with steps_follow_source_places [OF _ _ inp] show ?thesis
    by (simp add: example_log_def evm_recorder_new_def steps_of_def)
qed

text \<open>
  C3: the calls and returns written balance the depth of the machine and the jumps in and out of
  functions: their difference is the final depth below the outermost frame, plus the jumps in,
  minus the jumps out, less one exactly if the call absorbed into the top level, the first one, has
  not been returned from yet.
\<close>

theorem calls_and_returns_balance:
  assumes "depths_from 1 logs" and "logs \<noteq> []"
    and "recorder_input env k logs sm code paths contents layout ast r = (inp, r1)"
  shows "\<exists>r'. record_from_structlog env k logs sm code paths contents layout ast r = Some r' \<and>
           net_calls r' = net_calls r + int (log_depth (last logs)) - 1 + jumps inp logs -
             (if absorbed_call_open (jump_deltas inp logs) then 1 else 0)"
proof -
  have "depths_from d logs \<Longrightarrow> \<forall>lg\<in>set logs. 1 \<le> log_depth lg" for d
    by (induction logs arbitrary: d) auto
  with assms(1) have ge: "\<forall>lg\<in>set logs. 1 \<le> log_depth lg" by blast
  from log_loop_total [OF rec_state_init_ok ge, of inp 0 r1] obtain s' where
    s': "log_loop inp 0 logs (rec_state_init r1) = Some s'" by auto
  from log_loop_balance [OF rec_state_init_ok _ s'] assms(1)
  have net: "net_calls (rs_rec s') + absorbed_open s' = net_calls r1 + int (last_depth 1 logs) - 1 + jumps inp logs"
    by simp
  have "nest_of s' = fold nest_step (jump_deltas inp logs) (False, 0)"
    using log_loop_nest [OF rec_state_init_ok ge s'] by (simp add: rec_state_init_def nest_of_def)
  with fold_nest_init [OF jump_deltas_range] have "0 < rs_nesting s' \<longleftrightarrow> absorbed_call_open (jump_deltas inp logs)"
    by (metis nest_of_def snd_conv)
  with s' net assms quiet_recorder_input [OF assms(3)] show ?thesis
    by (auto simp: record_from_structlog_def last_depth_def absorbed_open_def)
qed

text \<open>An example: the absorbed call is entered and left again, then another function is entered.\<close>

definition jump_map :: source_map where
  "jump_map = \<lparr>sm_entries = map (\<lambda>j. \<lparr>sme_offset = 0, sme_length = 1, sme_file_index = 0,
     sme_jump_type = j, sme_modifier_depth = 0\<rparr>) [Into, OutOf]\<rparr>"

theorem calls_and_returns_balance_witness:
  "\<exists>r'. record_from_structlog example_env (\<lambda>_. []) [example_log 0 1, example_log 1 1, example_log 0 1]
            jump_map [0x01, 0x01] [''A.sol''] [example_source] None None evm_recorder_new = Some r' \<and>
        net_calls r' = 1"
proof -
  let ?logs = "[example_log 0 1, example_log 1 1, example_log 0 1]"
  obtain inp r1 where inp: "recorder_input example_env (\<lambda>_. []) ?logs jump_map [0x01, 0x01] [''A.sol'']
      [example_source] None None evm_recorder_new = (inp, r1)" by fastforce
  have table: "build_pc_to_instruction_index [0x01, 0x01] = [0, 1]" by code_simp
  have lc: "offset_to_line_col example_source 0 = (1, 0)" unfolding example_source_def by code_simp
  have "ri_source_map inp = jump_map" "ri_pc_to_idx inp = [0, 1]" "ri_source_contents inp = [example_source]"
    using inp table by (auto simp: recorder_input_def open_trace_def Let_def split: prod.splits)
  then have js: "jump_deltas inp ?logs = [1, - 1, 1]"
    by (simp add: jump_deltas_def jump_at_def resolve_pc_def get_entry_for_pc_def vec_get_def example_log_def
        jump_map_def jump_delta_def example_source_def usize_of_i32_def lc [unfolded example_source_def])
  have "\<not> absorbed_call_open [1, - 1, 1]"
    unfolding absorbed_call_open_def Let_def by (simp, rule bexI [of _ 2]) simp_all
  moreover have "jumps inp ?logs = 1"
    using arg_cong [OF js, of sum_list] by (simp add: jumps_def jump_deltas_def)
  ultimately show ?thesis
    using calls_and_returns_balance [OF _ _ inp] js
    by (simp add: example_log_def evm_recorder_new_def net_calls_def)
qed

end
