(* ===== verification/Recorder_Properties.thy ===== *)
theory Recorder_Properties
  imports Recorder
begin

text \<open>
  What the blocks of the recording loop of theory Recorder promise: the arguments of internal
  calls, the locals read after a return, the carry-forward of storage variables, the names of
  storage slots and of mapping entries, the opcode mnemonics, and the line table against the
  source map. The table of storage values keeps the contract of theory Keyed_Store.
\<close>

section \<open>Internal calls\<close>

definition args_of :: "evm_recorder \<Rightarrow> (string \<times> string) list" where
  "args_of r = concat (map (\<lambda>c. case c of W_Arg n (VRaw x ty) \<Rightarrow> [(n, x)] | _ \<Rightarrow> []) (er_calls r))"

lemma args_of_emit [simp]:
  "args_of (emit (W_Arg n (VRaw x ty)) r) = args_of r @ [(n, x)]"
  "args_of (emit (W_EnsureType k m) r) = args_of r"
  "args_of (emit (W_EnsureFunction m p l) r) = args_of r"
  "args_of (emit (W_Call f) r) = args_of r"
  by (simp_all add: args_of_def)

lemma args_of_stage_args:
  "args_of (stage_args env stk slot ps r) = args_of r @
     map (\<lambda>k. (vd_name (ps ! k), hex_u256 (stk ! (slot + k)))) [0..<length ps]"
proof (induction ps arbitrary: slot r)
  case Nil
  then show ?case by simp
next
  case (Cons p ps)
  have "[0..<length (p # ps)] = 0 # map Suc [0..<length ps]"
    by (simp add: upt_conv_Cons flip: map_Suc_upt del: upt_Suc)
  with Cons show ?case by (simp add: ensure_type_id_def Let_def o_def del: upt_Suc)
qed

lemma internal_call_stages:
  assumes "internal_target inp i = Some f" "log_stack lg = Some stk" "idx < length (rs_stacks s)"
    and "length (fd_parameters f) + 1 \<le> length stk"
  shows "rs_stacks (internal_call inp i lg loc idx s) ! idx =
           seed_top_labels (length stk - 1) (map vd_name (fd_parameters f)) (rs_stacks s ! idx)"
    and "args_of (rs_rec (internal_call inp i lg loc idx s)) = args_of (rs_rec s) @
           map (\<lambda>k. (vd_name (fd_parameters f ! k),
                     hex_u256 (stk ! (length stk - (length (fd_parameters f) + 1) + k))))
             [0..<length (fd_parameters f)]"
  using assms
  by (auto simp: internal_call_def stage_internal_call_args_def ensure_function_id_def Let_def
      args_of_stage_args)

text \<open>
  C28: at a jump into a resolved function the recorder passes the parameters the words that lie
  directly under the jump target on the stack, in declaration order, and leaves the tracker
  aligned with the machine: as many slots as the stack has once the jump has popped its target,
  each parameter reading its own value there.
\<close>

theorem internal_call_arguments:
  assumes "internal_target inp i = Some f" and "log_stack lg = Some stk"
    and "idx < length (rs_stacks s)" and "length (fd_parameters f) + 1 \<le> length stk"
    and "distinct (map vd_name (fd_parameters f))"
  defines "n \<equiv> length (fd_parameters f)"
  shows "let s' = internal_call inp i lg loc idx s; t = rs_stacks s' ! idx; base = length stk - 1 - n in
     st_depth t = length (butlast stk) \<and>
     args_of (rs_rec s') = args_of (rs_rec s) @
       map (\<lambda>k. (vd_name (fd_parameters f ! k), hex_u256 (stk ! (base + k)))) [0..<n] \<and>
     (\<forall>k<n. st_get_variable_value (vd_name (fd_parameters f ! k)) (butlast stk) t = Some (stk ! (base + k)))"
proof -
  let ?names = "map vd_name (fd_parameters f)"
  have "st_get_variable_value (?names ! k) (butlast stk) (seed_top_labels (length (butlast stk)) ?names t)
      = Some (butlast stk ! (length (butlast stk) - length ?names + k))" if "k < n" for k t
    using assms(4,5) that by (intro seeded_argument_value) (simp_all add: n_def)
  moreover have "butlast stk ! (length stk - 1 - n + k) = stk ! (length stk - 1 - n + k)" if "k < n" for k
    using assms(4) that by (intro nth_butlast) (simp add: n_def)
  ultimately show ?thesis
    using internal_call_stages [OF assms(1-4), of loc] assms(4)
    by (simp add: Let_def n_def st_depth_seed_top_labels)
qed

text \<open>An example: a trace of two entries inside a function of two parameters.\<close>

definition example_param :: "string \<Rightarrow> var_decl" where
  "example_param n = \<lparr>vd_name = n, vd_type_name = ''uint256'',
     vd_src = \<lparr>sr_offset = 200, sr_length = 5, sr_file_index = 0\<rparr>,
     vd_declaration_offset = 200, vd_statement_range = None\<rparr>"

definition example_function :: function_def where
  "example_function = \<lparr>fd_name = ''f'',
     fd_src = \<lparr>sr_offset = 0, sr_length = 100, sr_file_index = 0\<rparr>,
     fd_parameters = [example_param ''x'', example_param ''y''], fd_local_variables = [],
     fd_contract_name = None, fd_contract_kind = None\<rparr>"

definition example_input :: rec_input where
  "example_input = \<lparr>ri_env = example_env, ri_keccak = (\<lambda>_. []),
     ri_logs = [example_log 0 1, example_log 0 1], ri_source_map = example_map, ri_pc_to_idx = [0],
     ri_source_paths = [], ri_source_contents = [], ri_layout = None,
     ri_ast = Some \<lparr>ast_functions = [example_function]\<rparr>, ri_main_path = [],
     ri_uint256_type_id = 0\<rparr>"

lemma example_target: "internal_target example_input 0 = Some example_function"
  by (simp add: internal_target_def resolve_internal_call_target_def function_of_log_def
      example_input_def example_function_def example_map_def example_log_def vec_get_def
      get_entry_for_pc_def INTERNAL_CALL_LOOKAHEAD_def function_at_def contains_offset_def wrap_i32_def
      upt_conv_Cons)

definition one_frame :: rec_state where
  "one_frame = (rec_state_init evm_recorder_new)\<lparr>rs_stacks := [stack_tracker_new]\<rparr>"

lemma one_frame_fields: "rs_stacks one_frame = [stack_tracker_new]" "args_of (rs_rec one_frame) = []"
  by (simp_all add: one_frame_def rec_state_init_def evm_recorder_new_def args_of_def)

theorem internal_call_arguments_witness:
  "args_of (rs_rec (internal_call example_input 0 (example_log 0 1\<lparr>log_stack := Some [7, 8, 9]\<rparr>)
     \<lparr>loc_file_index = 0, loc_line = 1, loc_column = 0\<rparr> 0 one_frame)) = [(''x'', ''0x7''), (''y'', ''0x8'')]"
proof -
  have "lower_hex 7 = ''7''" "lower_hex 8 = ''8''" by code_simp+
  then show ?thesis
    using internal_call_arguments [OF example_target,
        of "example_log 0 1\<lparr>log_stack := Some [7, 8, 9]\<rparr>" "[7, 8, 9]" 0 one_frame
           "\<lparr>loc_file_index = 0, loc_line = 1, loc_column = 0\<rparr>", unfolded Let_def]
    by (simp add: example_function_def example_param_def hex_u256_def one_frame_fields)
qed

section \<open>Locals after an internal return\<close>

lemma internal_return_empties:
  "idx < length (rs_stacks s) \<Longrightarrow> slots (rs_stacks (internal_return inp idx s) ! idx) = []"
  by (simp add: internal_return_def reset_tracker_def on_rec_def st_reset_def Let_def)

text \<open>
  A return out of an internal function empties the tracker of the frame although the machine's
  stack keeps the items of the caller. The value of the next local declared there is then read from
  the bottom of the stack, not from the slot that was pushed.
\<close>

theorem local_after_return_misread:
  assumes "idx < length (rs_stacks s)" and "vd_declaration_offset v = off" and "stk \<noteq> []"
    and "unat op = 0x60"
  shows "let s' = track_stack idx op (Some off) [v] (internal_return inp idx s) in
     st_get_variable_value (vd_name v) (stk @ [x]) (rs_stacks s' ! idx) = Some (stk ! 0)"
proof -
  have eff: "opcode_effect op = PushLabel"
    using assms(4) by (simp add: opcode_effect_def opcode_effect_nat_def opcode_effect_high_def)
  let ?t = "rs_stacks (internal_return inp idx s) ! idx"
  have len: "length (rs_stacks (internal_return inp idx s)) = length (rs_stacks s)"
    by (simp add: internal_return_def reset_tracker_def on_rec_def Let_def)
  have "slots (fst (st_process_step op (Some off) [v] ?t)) = [Some (vd_name v)]"
    using internal_return_empties [OF assms(1), of inp] assms(2) eff
    by (simp add: st_process_step_def recover_labels_def recover_label_def has_label_def
        label_for_push_def split: option.split)
  with assms(1,3) len show ?thesis
    by (simp add: Let_def track_stack_def st_get_variable_value_def nth_append vec_get_def)
qed

theorem local_after_return_misread_witness:
  "let s' = track_stack 0 0x60 (Some 200) [example_param ''z''] (internal_return example_input 0 one_frame) in
   st_get_variable_value ''z'' [11, 22] (rs_stacks s' ! 0) = Some 11"
  using local_after_return_misread [of 0 one_frame "example_param ''z''" 200 "[11]" "0x60" example_input 22]
  by (simp add: one_frame_def rec_state_init_def example_param_def)

section \<open>The line table against the source map\<close>

lemma line_lengths_position:
  "k \<le> length s \<Longrightarrow>
     sum_list (map Suc (take (count_list (take k s) (CHR 0x0A)) (line_lengths_loop m s)))
       + (if CHR 0x0A \<in> set (take k s) then last_line_len (take k s) else m + k) = m + k"
proof (induction s arbitrary: k m)
  case Nil
  then show ?case by simp
next
  case (Cons c s)
  show ?case
  proof (cases k)
    case 0
    then show ?thesis by simp
  next
    case (Suc j)
    with Cons.prems have j: "j \<le> length s" by simp
    have last: "last_line_len (c # take j s) =
        (if CHR 0x0A \<in> set (take j s) then last_line_len (take j s) else j + last_line_len [c])"
      using last_line_len_append [of "[c]" "take j s"] j by simp
    show ?thesis
    proof (cases "c = CHR 0x0A")
      case True
      with Cons.IH [OF j, of 0] Suc last show ?thesis by (auto split: if_splits)
    next
      case False
      with Cons.IH [OF j, of "m + 1"] Suc last show ?thesis by (auto split: if_splits)
    qed
  qed
qed

text \<open>
  C32: the reader's view of a step agrees with the source map. For well-formed UTF-8 text and an
  offset at which a character begins, adding up the lengths in the line table of the lines before
  the reported one (one more for each newline) and the reported column gives back the byte offset.
\<close>

theorem line_table_decodes_positions:
  assumes "utf8_wf src" and "boundary src off" and "offset_to_line_col src off = (line, column)"
  shows "sum_list (map Suc (take (line - 1) (compute_line_lengths src))) + column = off"
  using line_lengths_position [OF boundary_le [OF assms(1,2)], of 0] assms(3)
  by (auto simp: offset_to_line_col_correct [OF assms(1,2)] compute_line_lengths_def
      last_line_len_no_newline boundary_le [OF assms(1,2)] count_list_0 split: if_splits)

theorem line_table_decodes_positions_witness:
  "offset_to_line_col [CHR ''a'', CHR 0x0A, CHR ''b'', CHR ''c''] 3 = (2, 1) \<and>
   sum_list (map Suc (take 1 (compute_line_lengths [CHR ''a'', CHR 0x0A, CHR ''b'', CHR ''c'']))) + 1 = 3"
proof -
  let ?s = "[CHR ''a'', CHR 0x0A, CHR ''b'', CHR ''c'']"
  have "utf8_wf ?s" "boundary ?s 3" and p: "offset_to_line_col ?s 3 = (2, 1)" by code_simp+
  from line_table_decodes_positions [OF this] p show ?thesis by simp
qed

section \<open>Carrying storage variables forward\<close>

text \<open>The values kept for re-emission are a keyed store.\<close>

interpretation storage: keyed_store "\<lambda>s n. map_of (rs_storage s) n" store_variable
  by unfold_locales (simp_all add: store_variable_def on_rec_def AList.update_conv')

definition store_all :: "(string \<times> value_record) list \<Rightarrow> rec_state \<Rightarrow> rec_state" where
  "store_all kvs s = fold (\<lambda>(n, v). store_variable n v) kvs s"

lemma store_all_fields:
  "rs_prev_line (store_all kvs s) = rs_prev_line s"
  "distinct (map fst (rs_storage s)) \<Longrightarrow> distinct (map fst (rs_storage (store_all kvs s)))"
  by (induction kvs arbitrary: s)
    (simp_all add: store_all_def store_variable_def on_rec_def AList.distinct_update split_beta)

lemma er_calls_emit_storage:
  "er_calls (emit_storage env st r) = er_calls r @ map (\<lambda>(n, v). W_Variable n v) (we_order env st)"
proof -
  have "er_calls (fold (\<lambda>(n, v). emit (W_Variable n v)) xs r) = er_calls r @ map (\<lambda>(n, v). W_Variable n v) xs"
    for xs :: "(string \<times> value_record) list"
    by (induction xs arbitrary: r) auto
  then show ?thesis by (simp add: emit_storage_def)
qed

lemma er_calls_ensure_path: "\<exists>cs. er_calls (ensure_path_with_line_lengths p src r) = er_calls r @ cs"
  by (auto simp: ensure_path_with_line_lengths_def Let_def)

lemma emit_step_calls:
  assumes "map_option (\<lambda>(f, l, _). (f, l)) (rs_prev_line s) \<noteq> Some (loc_file_index loc, loc_line loc)"
  shows "\<exists>pre step. er_calls (rs_rec (emit_step inp loc s)) = er_calls (rs_rec s) @ pre @ step #
           map (\<lambda>(n, v). W_Variable n v) (we_order (ri_env inp) (rs_storage s))"
proof -
  let ?p = "path_at (ri_source_paths inp) (ri_main_path inp) (loc_file_index loc)"
  define r1 where "r1 = (case vec_get (ri_source_contents inp) (usize_of_i32 (loc_file_index loc)) of
      Some src \<Rightarrow> ensure_path_with_line_lengths ?p src (rs_rec s) | None \<Rightarrow> rs_rec s)"
  let ?step = "W_Step ?p (loc_line loc) (loc_column loc + 1)"
  have "\<exists>cs. er_calls r1 = er_calls (rs_rec s) @ cs"
    unfolding r1_def by (simp add: er_calls_ensure_path split: option.split)
  then obtain cs where cs: "er_calls r1 = er_calls (rs_rec s) @ cs" by blast
  have "rs_prev_line s \<noteq> Some (loc_file_index loc, loc_line loc, loc_column loc)" using assms by auto
  with assms have "rs_rec (emit_step inp loc s)
      = emit_storage (ri_env inp) (rs_storage s) (emit ?step r1)"
    by (simp add: emit_step_def Let_def r1_def)
  then have "er_calls (rs_rec (emit_step inp loc s)) = er_calls (rs_rec s) @ cs @ ?step #
      map (\<lambda>(n, v). W_Variable n v) (we_order (ri_env inp) (rs_storage s))"
    by (simp add: er_calls_emit_storage cs)
  then show ?thesis by blast
qed

text \<open>
  C29: after any sequence of storage writes, the next step on another line is followed by exactly
  one variable for each name written, with the value written last, in whatever order the hash
  table is traversed.
\<close>

theorem storage_carried_forward:
  assumes "\<forall>xs. mset (we_order (ri_env inp) xs) = mset xs" and "rs_storage s = []"
    and "map_option (\<lambda>(f, l, _). (f, l)) (rs_prev_line s) \<noteq> Some (loc_file_index loc, loc_line loc)"
  shows "\<exists>pre step vs. er_calls (rs_rec (emit_step inp loc (store_all kvs s))) =
           er_calls (rs_rec (store_all kvs s)) @ pre @ step # map (\<lambda>(n, v). W_Variable n v) vs \<and>
           distinct (map fst vs) \<and> map_of vs = map_of (rev kvs)"
proof -
  let ?st = "rs_storage (store_all kvs s)" and ?vs = "we_order (ri_env inp) (rs_storage (store_all kvs s))"
  have "distinct (map fst ?st)" using store_all_fields(2) assms(2) by simp
  moreover have m: "mset ?vs = mset ?st" using assms(1) by blast
  then have "mset (map fst ?vs) = mset (map fst ?st)" by (metis mset_map)
  ultimately have d: "distinct (map fst ?vs)" "distinct (map fst ?st)"
    by (metis mset_eq_imp_distinct_iff)+
  have "map_of ?vs = map_of ?st" using mset_eq_setD [OF m] map_of_inject_set [OF d] by blast
  also have "map_of ?st = map_of (rev kvs)"
    unfolding store_all_def using assms(2)
    by (intro ext) (simp add: storage.lookup_updates split: option.split)
  finally have "map_of ?vs = map_of (rev kvs)" .
  moreover obtain pre step where "er_calls (rs_rec (emit_step inp loc (store_all kvs s))) =
      er_calls (rs_rec (store_all kvs s)) @ pre @ step # map (\<lambda>(n, v). W_Variable n v) ?vs"
    using emit_step_calls [of "store_all kvs s" loc inp] assms(3) by (auto simp: store_all_fields(1))
  ultimately show ?thesis using d(1) by blast
qed

theorem storage_carried_forward_witness:
  "\<exists>pre step vs. er_calls (rs_rec (emit_step example_input
       \<lparr>loc_file_index = 0, loc_line = 4, loc_column = 0\<rparr>
       (store_all [(''a'', VInt 1 0), (''a'', VInt 2 0)] one_frame))) =
     [W_Variable ''a'' (VInt 1 0), W_Variable ''a'' (VInt 2 0)] @ pre @ step #
       map (\<lambda>(n, v). W_Variable n v) vs \<and> map_of vs = [''a'' \<mapsto> VInt 2 0]"
proof -
  let ?loc = "\<lparr>loc_file_index = 0, loc_line = 4, loc_column = 0\<rparr>"
  let ?kvs = "[(''a'', VInt 1 0), (''a'', VInt 2 0)]"
  have start: "er_calls (rs_rec (store_all ?kvs one_frame)) =
      [W_Variable ''a'' (VInt 1 0), W_Variable ''a'' (VInt 2 0)]"
    by (simp add: one_frame_def rec_state_init_def store_all_def store_variable_def on_rec_def
        evm_recorder_new_def)
  have "\<exists>pre step vs. er_calls (rs_rec (emit_step example_input ?loc (store_all ?kvs one_frame))) =
      er_calls (rs_rec (store_all ?kvs one_frame)) @ pre @ step # map (\<lambda>(n, v). W_Variable n v) vs \<and>
      distinct (map fst vs) \<and> map_of vs = map_of (rev ?kvs)"
    by (rule storage_carried_forward)
      (simp_all add: example_input_def example_env_def one_frame_def rec_state_init_def)
  then obtain pre step vs where ex: "er_calls (rs_rec (emit_step example_input ?loc (store_all ?kvs one_frame))) =
      er_calls (rs_rec (store_all ?kvs one_frame)) @ pre @ step # map (\<lambda>(n, v). W_Variable n v) vs"
    "map_of vs = map_of (rev ?kvs)" by (elim exE conjE)
  have "map_of vs = [''a'' \<mapsto> VInt 2 0]" using ex(2) by simp
  with ex(1) show ?thesis unfolding start by (intro exI conjI)
qed

section \<open>Names of storage slots\<close>

lemma u64_word: "n < 2 ^ 64 \<Longrightarrow> unat (of_nat n :: u256) = n"
  by (simp add: unat_of_nat)

lemma slot_name_entry:
  "resolve_slot sl (show_nat (unat slot)) = Some e \<Longrightarrow> slot_name (Some sl) names slot = se_label e"
  by (simp add: slot_name_def)

lemma slot_name_mapping:
  "resolve_slot sl (show_nat (unat slot)) = None \<Longrightarrow> names slot = Some n \<Longrightarrow>
     slot_name (Some sl) names slot = n"
  by (simp add: slot_name_def)

lemma slot_name_array:
  assumes "n < 2 ^ 64" "resolve_slot sl (show_nat n) = None" "names (of_nat n) = None"
    and "struct_member_at sl n = None" "array_element_at sl n = Some (p, k)"
  shows "slot_name (Some sl) names (of_nat n) = p @ ''['' @ show_nat k @ '']''"
  using assms by (simp add: slot_name_def u64_word parse_u64_show_nat Let_def)

text \<open>
  Writes to the slots of a fixed size array are named \<open>label[i]\<close> by their distance \<open>i\<close> from
  the base, except the one that matters first: the base slot is the array's own entry in the
  layout, found before the array lookup is tried, so a write to element 0 goes by the bare label.
\<close>

theorem array_writes_named:
  assumes "layout_ok sl" and "e \<in> set (sl_storage sl)" and "is_array sl e"
    and "entry_extent sl e = Some (base, n)"
    and "resolve_slot sl (show_nat base) = Some e"
    and "0 < i" and "i < n" and "resolve_slot sl (show_nat (base + i)) = None"
    and "names (of_nat (base + i)) = None" and "struct_member_at sl (base + i) = None"
  shows "slot_name (Some sl) names (of_nat base) = se_label e \<and>
         slot_name (Some sl) names (of_nat (base + i)) = se_label e @ ''['' @ show_nat i @ '']''"
proof -
  have "base + n < 2 ^ 64" using assms(1,2,4) by (auto simp: layout_ok_def)
  with assms(7) have b: "base < 2 ^ 64" "base + i < 2 ^ 64" by linarith+
  have "slot_name (Some sl) names (of_nat base) = se_label e"
    using assms(5) b by (intro slot_name_entry) (simp add: u64_word)
  moreover have "slot_name (Some sl) names (of_nat (base + i)) = se_label e @ ''['' @ show_nat i @ '']''"
    using b(2) assms(8-10) array_element_named [OF assms(1-4,7)] by (rule slot_name_array)
  ultimately show ?thesis ..
qed

lemma example_slot_digits:
  "show_nat 1 = ''1''" "show_nat 2 = ''2''" "show_nat 3 = ''3''"
  by code_simp+

theorem array_writes_named_witness:
  "slot_name (Some example_layout) (\<lambda>_. None) 1 = ''words'' \<and>
   slot_name (Some example_layout) (\<lambda>_. None) 3 = ''words[2]''"
proof -
  let ?e = "example_entry ''words'' ''1'' ''t_words''"
  have e: "?e \<in> set (sl_storage example_layout)" "is_array example_layout ?e"
    by (simp_all add: example_layout_def is_array_def type_info_def example_type_def example_entry_def)
  have s: "struct_member_at example_layout 3 = None"
    by (simp add: struct_member_at_def example_layout_def example_entry_def example_type_def
        type_info_def parse_digits member_at_def u64_saturating_add_def u64_max_def)
  have r: "resolve_slot example_layout (show_nat 1) = Some ?e" "resolve_slot example_layout (show_nat 3) = None"
    unfolding example_slot_digits by (simp_all add: resolve_slot_def example_layout_def example_entry_def)
  have "slot_name (Some example_layout) (\<lambda>_. None) (of_nat 1) = se_label ?e \<and>
      slot_name (Some example_layout) (\<lambda>_. None) (of_nat (1 + 2)) = se_label ?e @ ''['' @ show_nat 2 @ '']''"
    by (rule array_writes_named [OF example_layout_ok(1) e example_extents(2) r(1)])
      (use r s in \<open>simp_all add: numeral_3_eq_3 [symmetric]\<close>)
  then show ?thesis by (simp add: example_entry_def example_slot_digits)
qed

section \<open>Names of mapping entries\<close>

lemma u64_of_u256_nat: "n < 2 ^ 64 \<Longrightarrow> u64_of_u256 (of_nat n) = Some n"
  by (simp add: u64_of_u256_def u64_word)

lemma format_mapping_key_reads:
  assumes "length key = 32"
    and "ty \<in> {''address'', ''address payable''} \<Longrightarrow> be_nat key < 2 ^ 160"
  shows "\<exists>digits. format_mapping_key ty key = ''0x'' @ digits \<and> hex_reads digits (be_nat key) \<and>
    (ty \<in> {''address'', ''address payable''} \<longrightarrow> length digits = 40) \<and>
    (ty = ''bool'' \<or> starts_with ty ''uint'' \<or> starts_with ty ''int'' \<longrightarrow>
       no_leading_zero digits) \<and>
    (starts_with ty ''bytes'' \<longrightarrow> length digits = 64)"
proof (cases "ty \<in> {''address'', ''address payable''}")
  case True
  have "be_nat key = be_nat (take 12 key) * 2 ^ 160 + be_nat (drop 12 key)"
    using be_nat_append [of "take 12 key" "drop 12 key"] assms(1) by (simp add: power_mult [of 2 8 20, simplified])
  then have "be_nat key = be_nat (drop 12 key)" using assms(2) [OF True] by (cases "be_nat (take 12 key)") auto
  with True assms(1) hex_reads_encode [of "drop 12 key"] show ?thesis
    by (auto simp: format_mapping_key_def starts_with_def)
next
  case False
  have "ty = ''bool'' \<or> starts_with ty ''uint'' \<or> starts_with ty ''int'' \<Longrightarrow> \<not> starts_with ty ''bytes''"
    by (auto simp: starts_with_iff)
  then show ?thesis
    using False assms(1) hex_reads_encode [of key] hex_reads_lower_hex [of "be_nat key"]
      lower_hex_canonical [of "be_nat key"]
    by (auto simp: format_mapping_key_def hex_u256_def unat_u256_from_be)
qed


text \<open>
  The index of a nested mapping is always rendered as an address, whatever the type of its
  key: two keys that differ only in their first twelve bytes get the same name, and the value
  carried forward under it is that of the last one written.
\<close>

theorem nested_mapping_keys_collide:
  assumes "length k1 = 32" and "length k2 = 32" and "drop 12 k1 = drop 12 k2"
    and "2 ^ 64 \<le> unat base" and "names base = Some parent"
  shows "\<exists>nm. derive_mapping_name h sl (k1 @ u256_to_be base) names
                (keccak256_u256 h (k1 @ u256_to_be base)) = Some nm \<and>
              derive_mapping_name h sl (k2 @ u256_to_be base) names
                (keccak256_u256 h (k2 @ u256_to_be base)) = Some nm"
  using assms by (simp add: derive_mapping_name_def Let_def u64_of_u256_def format_mapping_key_def)

text \<open>An example: the hash of the key 0 and the slot 0, where a mapping is declared.\<close>

definition example_mapping_layout :: storage_layout where
  "example_mapping_layout = \<lparr>sl_storage = [example_entry ''balances'' ''0'' ''t_mapping''],
     sl_types = [''t_mapping'' \<mapsto> \<lparr>ti_encoding = ''mapping'', ti_label = ''m'', ti_number_of_bytes = ''32'',
        ti_key = Some ''t_uint256'', ti_value = None, ti_base = None, ti_members = None\<rparr>]\<rparr>"

definition example_hash :: struct_log where
  "example_hash = (example_log 0 1)\<lparr>log_op := ''SHA3'', log_stack := Some [64, 0],
     log_memory := Some [[], []]\<rparr>"

definition example_mapping_input :: rec_input where
  "example_mapping_input = example_input\<lparr>ri_layout := Some example_mapping_layout, ri_keccak := (\<lambda>_. [7])\<rparr>"

lemma u256_to_be_zero: "u256_to_be 0 = replicate 32 0"
  by code_simp

lemma example_hash_input: "keccak_input example_hash = Some (replicate 32 0 @ u256_to_be 0)"
  by (simp add: keccak_input_def example_hash_def example_log_def u64_of_u256_def
      decode_struct_log_memory_def decode_memory_word_def u64_saturating_add_def u64_max_def
      u256_to_be_zero strip_prefix_def Let_def)


theorem nested_mapping_keys_collide_witness:
  "\<exists>nm. derive_mapping_name (\<lambda>bs. take 2 bs) example_mapping_layout
          ((1 # replicate 31 0) @ u256_to_be (2 ^ 64)) [2 ^ 64 \<mapsto> ''m'']
          (keccak256_u256 (\<lambda>bs. take 2 bs) ((1 # replicate 31 0) @ u256_to_be (2 ^ 64))) = Some nm \<and>
        derive_mapping_name (\<lambda>bs. take 2 bs) example_mapping_layout
          ((2 # replicate 31 0) @ u256_to_be (2 ^ 64)) [2 ^ 64 \<mapsto> ''m'']
          (keccak256_u256 (\<lambda>bs. take 2 bs) ((2 # replicate 31 0) @ u256_to_be (2 ^ 64))) = Some nm"
  by (rule nested_mapping_keys_collide) simp_all

section \<open>Mnemonics\<close>

lemma parse_u8_show_nat: "n < 256 \<Longrightarrow> parse_u8 (show_nat n) = Some n"
  by (simp add: parse_u8_def parse_unsigned_show_nat)

lemma numbered_mnemonic_family:
  "n < 256 \<Longrightarrow> numbered_mnemonic family lo hi base (family @ show_nat n) =
     (if lo \<le> n \<and> n \<le> hi then Some (Some (of_nat (base + n))) else None)"
  by (simp add: numbered_mnemonic_def parse_u8_show_nat)

lemma numbered_mnemonic_other:
  "\<not> starts_with name family \<Longrightarrow> numbered_mnemonic family lo hi base name = None"
  by (simp add: numbered_mnemonic_def strip_prefix_def)

lemmas numbered_families =
  numbered_mnemonic_family [where family = "''PUSH''", simplified]
  numbered_mnemonic_family [where family = "''DUP''", simplified]
  numbered_mnemonic_family [where family = "''SWAP''", simplified]
  numbered_mnemonic_family [where family = "''LOG''", simplified]

lemmas opcode_families = opcode_from_name_def numbered_families numbered_mnemonic_other starts_with_def

lemma push_names: "n \<le> 32 \<Longrightarrow> opcode_from_name (''PUSH'' @ show_nat n) = Some (of_nat (0x5f + n))"
  by (simp add: opcode_families)

lemma dup_names: "1 \<le> n \<Longrightarrow> n \<le> 16 \<Longrightarrow> opcode_from_name (''DUP'' @ show_nat n) = Some (of_nat (0x7f + n))"
  by (simp add: opcode_families)

lemma swap_names: "1 \<le> n \<Longrightarrow> n \<le> 16 \<Longrightarrow> opcode_from_name (''SWAP'' @ show_nat n) = Some (of_nat (0x8f + n))"
  by (simp add: opcode_families)

definition plain_name :: "string \<Rightarrow> bool" where
  "plain_name name \<longleftrightarrow> \<not> starts_with name ''PUSH'' \<and> \<not> starts_with name ''DUP'' \<and>
     \<not> starts_with name ''SWAP'' \<and> \<not> starts_with name ''LOG''"

lemma mnemonics_distinct: "distinct (map fst (mnemonics_low @ mnemonics_high))"
  by (simp add: mnemonics_low_def mnemonics_high_def)

lemma mnemonics_plain:
  "list_all (\<lambda>(name, b). plain_name name \<or> (name, b) = (''PUSH0'', 0x5f)) (mnemonics_low @ mnemonics_high)"
  by (simp add: mnemonics_low_def mnemonics_high_def plain_name_def starts_with_def)

lemma mnemonic_bytes:
  "map (unat \<circ> snd) mnemonics_low = [0x00, 0x01, 0x02, 0x03, 0x04, 0x05, 0x06, 0x07, 0x08, 0x09, 0x0a,
     0x0b, 0x10, 0x11, 0x12, 0x13, 0x14, 0x15, 0x16, 0x17, 0x18, 0x19, 0x1a, 0x1b, 0x1c, 0x1d, 0x20, 0x20,
     0x30, 0x31, 0x32, 0x33, 0x34, 0x35, 0x36, 0x37, 0x38, 0x39]"
  "map (unat \<circ> snd) mnemonics_high = [0x3a, 0x3b, 0x3c, 0x3d, 0x3e, 0x3f, 0x40, 0x41, 0x42, 0x43, 0x44,
     0x44, 0x45, 0x46, 0x47, 0x48, 0x49, 0x4a, 0x50, 0x51, 0x52, 0x53, 0x54, 0x55, 0x56, 0x57, 0x58, 0x59,
     0x5a, 0x5b, 0x5c, 0x5d, 0x5e, 0x5f, 0xf0, 0xf1, 0xf2, 0xf3, 0xf4, 0xf5, 0xfa, 0xfd, 0xfe, 0xff]"
  by (simp_all add: mnemonics_low_def mnemonics_high_def)

lemma mnemonic_bytes_set:
  "i \<in> unat ` snd ` set (mnemonics_low @ mnemonics_high) \<longleftrightarrow>
     i \<in> set (map (unat \<circ> snd) mnemonics_low) \<or> i \<in> set (map (unat \<circ> snd) mnemonics_high)"
  by (simp add: image_Un image_comp)

lemma arity_named:
  "evm_arity_nat i \<noteq> None \<Longrightarrow> \<not> (0x60 \<le> i \<and> i \<le> 0x9f) \<Longrightarrow> \<not> (0xa0 \<le> i \<and> i \<le> 0xa4) \<Longrightarrow>
     i \<in> unat ` snd ` set (mnemonics_low @ mnemonics_high)"
  unfolding mnemonic_bytes_set mnemonic_bytes
  by (auto simp: evm_arity_nat_def split: if_splits)

lemma named_arity:
  "i \<in> unat ` snd ` set (mnemonics_low @ mnemonics_high) \<Longrightarrow> evm_arity_nat i \<noteq> None"
  unfolding mnemonic_bytes_set mnemonic_bytes
  by (auto simp: evm_arity_nat_def)

lemma table_name:
  assumes "(name, b) \<in> set (mnemonics_low @ mnemonics_high)"
  shows "opcode_from_name name = Some b"
proof -
  have "map_of (mnemonics_low @ mnemonics_high) name = Some b"
    using mnemonics_distinct assms by (rule map_of_is_SomeI)
  then have "plain_name name \<Longrightarrow> opcode_from_name name = Some b"
    by (simp add: opcode_from_name_def numbered_mnemonic_other plain_name_def del: map_of_append)
  moreover have "opcode_from_name ''PUSH0'' = Some 0x5f"
  proof -
    have "show_nat 0 = ''0''" by code_simp
    then show ?thesis using push_names [of 0] by simp
  qed
  moreover have "plain_name name \<or> (name, b) = (''PUSH0'', 0x5f)"
    using mnemonics_plain assms by (auto simp: list_all_iff)
  ultimately show ?thesis by auto
qed

lemma numbered_mnemonic_range:
  "numbered_mnemonic family lo hi base name = Some (Some b) \<Longrightarrow>
     \<exists>n. lo \<le> n \<and> n \<le> hi \<and> b = of_nat (base + n)"
  by (auto simp: numbered_mnemonic_def split: option.splits if_splits)

lemma opcode_from_name_cases:
  assumes "opcode_from_name name = Some b"
  shows "(\<exists>n \<le> 0x9f. 0x5f \<le> n \<and> b = of_nat n) \<or> (\<exists>n \<le> 0xa4. 0xa0 \<le> n \<and> b = of_nat n) \<or>
         (name, b) \<in> set (mnemonics_low @ mnemonics_high)"
proof -
  consider (push) "numbered_mnemonic ''PUSH'' 0 32 0x5f name = Some (Some b)"
    | (dup) "numbered_mnemonic ''DUP'' 1 16 0x7f name = Some (Some b)"
    | (swap) "numbered_mnemonic ''SWAP'' 1 16 0x8f name = Some (Some b)"
    | (log) "numbered_mnemonic ''LOG'' 0 4 0xa0 name = Some (Some b)"
    | (table) "map_of (mnemonics_low @ mnemonics_high) name = Some b"
    using assms by (auto simp: opcode_from_name_def split: option.splits)
  then show ?thesis
  proof cases
    case push
    then obtain n where "n \<le> 32" "b = of_nat (0x5f + n)" using numbered_mnemonic_range by blast
    then show ?thesis by (intro disjI1 exI [where x = "0x5f + n"]) simp
  next
    case dup
    then obtain n where "n \<le> 16" "b = of_nat (0x7f + n)" using numbered_mnemonic_range by blast
    then show ?thesis by (intro disjI1 exI [where x = "0x7f + n"]) simp
  next
    case swap
    then obtain n where "n \<le> 16" "b = of_nat (0x8f + n)" using numbered_mnemonic_range by blast
    then show ?thesis by (intro disjI1 exI [where x = "0x8f + n"]) simp
  next
    case log
    then obtain n where "n \<le> 4" "b = of_nat (0xa0 + n)" using numbered_mnemonic_range by blast
    then have "\<exists>n \<le> 0xa4. 0xa0 \<le> n \<and> b = of_nat n" by (intro exI [where x = "0xa0 + n"]) simp
    then show ?thesis by blast
  next
    case table
    then show ?thesis by (intro disjI2 map_of_SomeD)
  qed
qed

lemma byte_word: "n < 256 \<Longrightarrow> unat (of_nat n :: byte) = n"
  by (simp add: unat_of_nat)

lemma family_arity: "0x5f \<le> n \<and> n \<le> 0x9f \<or> 0xa0 \<le> n \<and> n \<le> 0xa4 \<Longrightarrow> evm_arity_nat n \<noteq> None"
proof -
  assume "0x5f \<le> n \<and> n \<le> 0x9f \<or> 0xa0 \<le> n \<and> n \<le> 0xa4"
  then consider "n = 0x5f" | "0x60 \<le> n" "n \<le> 0x7f" | "0x80 \<le> n" "n \<le> 0x8f" | "0x90 \<le> n" "n \<le> 0x9f"
    | "n = 0xa0" | "n = 0xa1" | "n = 0xa2" | "n = 0xa3" | "n = 0xa4" by linarith
  then show ?thesis by cases (simp_all add: evm_arity_nat_def)
qed

lemma word_in_table: "unat op \<in> unat ` snd ` X \<Longrightarrow> op \<in> snd ` X" for op :: byte
  by (auto simp: image_iff) (metis snd_conv word_unat_eq_iff)

text \<open>
  The mnemonics the recorder understands are those of the Cancun instruction set: an opcode
  byte is read from some name exactly when the machine defines it, so no step of a trace is
  skipped by the stack tracker for want of a name, and none is tracked as an undefined opcode.
\<close>

theorem mnemonics_cover_the_machine:
  "(\<exists>name. opcode_from_name name = Some op) \<longleftrightarrow> evm_arity op \<noteq> None"
proof
  assume "\<exists>name. opcode_from_name name = Some op"
  then obtain name where "opcode_from_name name = Some op" by blast
  then show "evm_arity op \<noteq> None"
    by (elim opcode_from_name_cases [elim_format] disjE exE conjE)
      (use family_arity named_arity in \<open>force simp: evm_arity_def byte_word\<close>)+
next
  assume a: "evm_arity op \<noteq> None"
  then consider (push) "0x60 \<le> unat op" "unat op \<le> 0x7f" | (dup) "0x80 \<le> unat op" "unat op \<le> 0x8f"
    | (swap) "0x90 \<le> unat op" "unat op \<le> 0x9f" | (log) "0xa0 \<le> unat op" "unat op \<le> 0xa4"
    | (table) "unat op \<in> unat ` snd ` set (mnemonics_low @ mnemonics_high)"
    using arity_named [of "unat op"] unfolding evm_arity_def by linarith
  then show "\<exists>name. opcode_from_name name = Some op"
  proof cases
    case push
    then show ?thesis using push_names [of "unat op - 0x5f"] by (intro exI [where x = "''PUSH'' @ show_nat (unat op - 0x5f)"]) simp
  next
    case dup
    then have "1 \<le> unat op - 0x7f" "unat op - 0x7f \<le> 16" "0x7f + (unat op - 0x7f) = unat op" by linarith+
    with dup_names [of "unat op - 0x7f"] show ?thesis by (intro exI) simp
  next
    case swap
    then have "1 \<le> unat op - 0x8f" "unat op - 0x8f \<le> 16" "0x8f + (unat op - 0x8f) = unat op" by linarith+
    with swap_names [of "unat op - 0x8f"] show ?thesis by (intro exI) simp
  next
    case log
    then have "numbered_mnemonic ''LOG'' 0 4 0xa0 (''LOG'' @ show_nat (unat op - 0xa0)) = Some (Some op)"
      by (subst numbered_mnemonic_family) simp_all
    then show ?thesis by (intro exI [where x = "''LOG'' @ show_nat (unat op - 0xa0)"])
      (simp add: opcode_from_name_def numbered_mnemonic_other starts_with_def)
  next
    case table
    then obtain p where "op = snd p" "p \<in> set (mnemonics_low @ mnemonics_high)"
      using word_in_table by (elim imageE [OF word_in_table])
    then have "(fst p, op) \<in> set (mnemonics_low @ mnemonics_high)" by simp
    then show ?thesis by (intro exI table_name)
  qed
qed

end
