(* ===== verification/Recorder_Multi.thy ===== *)
theory Recorder_Multi
  imports Recorder Contract_Registry Call_Tree
begin

text \<open>
  \<open>EvmRecorder::record_from_structlog_multi_contract\<close> of \<^verbatim>\<open>src/recorder.rs\<close>: the recording
  loop for a transaction that crosses contracts. At a change of depth it enters or leaves a call
  frame, in the call tree, in the stack of frame contexts and in the tables kept per frame; the
  source map, layout and AST of an entry are those the registry gives for the innermost frame. The
  blocks the code repeats from the single contract loop (the resolution of a jump target, the name
  of a slot, the mapping entry of a hash, the events) are the definitions of theory Recorder;
  those that differ have definitions of their own.
\<close>

section \<open>State\<close>

record frame_context =
  fc_address :: address
  fc_is_delegate :: bool
  fc_delegate_proxy :: "address option"

record current_source =
  cs_source_map :: "source_map option"
  cs_pc_to_idx :: "nat list"
  cs_source_paths :: "string list"
  cs_source_contents :: "string list"
  cs_storage_layout :: "storage_layout option"
  cs_solidity_ast :: "solidity_ast option"

record multi_input =
  mi_env :: writer_env
  mi_keccak :: keccak
  mi_logs :: "struct_log list"
  mi_registry :: contract_registry
  mi_contract_address :: address
  mi_init :: current_source
  mi_main_path :: string
  mi_uint256_type_id :: nat

record multi_state =
  ms_rec :: evm_recorder
  ms_prev_line :: "(int \<times> nat \<times> nat) option"
  ms_prev_depth :: nat
  ms_stacks :: "stack_tracker list"
  ms_mems :: "memory_tracker list"
  ms_storage_states :: "(string \<times> value_record) list list"
  ms_slot_values :: "(nat \<Rightarrow> u256 option) list"
  ms_mapping_names :: "(u256 \<Rightarrow> string option) list"
  ms_frames :: "frame_context list"
  ms_tree :: call_tree

definition on_multi :: "(evm_recorder \<Rightarrow> evm_recorder) \<Rightarrow> multi_state \<Rightarrow> multi_state" where
  "on_multi f s = s\<lparr>ms_rec := f (ms_rec s)\<rparr>"

section \<open>Call frames\<close>

text \<open>The callee of a frame, read off the entry before it: the second word of the stack.\<close>

definition call_target ::
  "string \<Rightarrow> u256 list option \<Rightarrow> frame_context list \<Rightarrow> address \<times> call_type \<times> bool \<times> address option"
where
  "call_target prev_op prev_stack frames =
     (let addr = (case prev_stack of
                    Some stk \<Rightarrow> if 2 \<le> length stk then address_of_word (stk ! (length stk - 2)) else 0
                  | None \<Rightarrow> 0) in
      if prev_op = ''CALL'' \<or> prev_op = ''CALLCODE'' then (addr, Call, False, None)
      else if prev_op = ''DELEGATECALL'' then
        (addr, DelegateCall, True, Some (if frames = [] then 0 else fc_address (last frames)))
      else if prev_op = ''STATICCALL'' then (addr, StaticCall, False, None)
      else if prev_op = ''CREATE'' then (0, Create, False, None)
      else if prev_op = ''CREATE2'' then (0, Create2, False, None)
      else (0, Call, False, None))"

definition previous_log :: "struct_log list \<Rightarrow> nat \<Rightarrow> struct_log option" where
  "previous_log logs i = (if 0 < i then vec_get logs (i - 1) else None)"

definition entered_target ::
  "struct_log list \<Rightarrow> nat \<Rightarrow> frame_context list \<Rightarrow> address \<times> call_type \<times> bool \<times> address option"
where
  "entered_target logs i frames =
     (case previous_log logs i of
        None \<Rightarrow> call_target [] None frames
      | Some l \<Rightarrow> call_target (log_op l) (log_stack l) frames)"

definition grow_tables :: "nat \<Rightarrow> multi_state \<Rightarrow> multi_state" where
  "grow_tables depth s =
     s\<lparr>ms_stacks := grow depth stack_tracker_new (ms_stacks s),
       ms_mems := grow depth memory_tracker_new (ms_mems s),
       ms_storage_states := grow depth [] (ms_storage_states s),
       ms_slot_values := grow depth (\<lambda>_. None) (ms_slot_values s),
       ms_mapping_names := grow depth (\<lambda>_. None) (ms_mapping_names s)\<rparr>"

definition enter_frame :: "multi_input \<Rightarrow> nat \<Rightarrow> struct_log \<Rightarrow> multi_state \<Rightarrow> multi_state option" where
  "enter_frame inp i lg s =
     (let (target_addr, call_ty, is_delegate, delegate_proxy) =
            entered_target (mi_logs inp) i (ms_frames s) in
      case enter_call target_addr call_ty i (ms_tree s) of
        None \<Rightarrow> None
      | Some tree \<Rightarrow>
          let frames = ms_frames s @ [\<lparr>fc_address = target_addr, fc_is_delegate = is_delegate,
                                       fc_delegate_proxy = delegate_proxy\<rparr>];
              s1 = s\<lparr>ms_tree := tree, ms_frames := frames, ms_prev_line := None\<rparr>;
              fn_name = ''external_call_depth_'' @ show_nat (log_depth lg);
              call_path =
                (case ms_prev_line s1 of
                   None \<Rightarrow> mi_main_path inp
                 | Some (fi, _, _) \<Rightarrow>
                     let caller_addr = (case vec_get frames (length frames - 2) of
                                          Some f \<Rightarrow> fc_address f | None \<Rightarrow> mi_contract_address inp) in
                     (case registry_get (mi_registry inp) caller_addr of
                        None \<Rightarrow> mi_main_path inp
                      | Some a \<Rightarrow> path_at (ca_source_paths a) (mi_main_path inp) fi));
              call_line = (case ms_prev_line s1 of Some (_, l, _) \<Rightarrow> l | None \<Rightarrow> 0);
              (fn_id, r1) = ensure_function_id (mi_env inp) fn_name call_path call_line (ms_rec s1) in
          Some (grow_tables (log_depth lg) (s1\<lparr>ms_rec := emit (W_Call fn_id) r1\<rparr>)))"

text \<open>Popping a table, the one of the outermost frame kept.\<close>

definition pop_keep :: "'a list \<Rightarrow> 'a list" where
  "pop_keep v = (if 1 < length v then butlast v else v)"

definition exit_frame :: "multi_input \<Rightarrow> nat \<Rightarrow> multi_state \<Rightarrow> multi_state option" where
  "exit_frame inp i s =
     (case exit_call i (ms_tree s) of
        None \<Rightarrow> None
      | Some tree \<Rightarrow>
          Some (s\<lparr>ms_rec := emit (W_Return (empty_return (mi_uint256_type_id inp))) (ms_rec s),
                  ms_stacks := butlast (ms_stacks s), ms_mems := butlast (ms_mems s),
                  ms_storage_states := pop_keep (ms_storage_states s),
                  ms_slot_values := pop_keep (ms_slot_values s),
                  ms_mapping_names := pop_keep (ms_mapping_names s),
                  ms_tree := tree, ms_frames := pop_keep (ms_frames s)\<rparr>))"

fun exit_frames :: "multi_input \<Rightarrow> nat \<Rightarrow> nat \<Rightarrow> multi_state \<Rightarrow> multi_state option" where
  "exit_frames inp i 0 s = Some s"
| "exit_frames inp i (Suc k) s =
     (case exit_frame inp i s of None \<Rightarrow> None | Some s1 \<Rightarrow> exit_frames inp i k s1)"

definition switch_frame :: "multi_input \<Rightarrow> nat \<Rightarrow> struct_log \<Rightarrow> multi_state \<Rightarrow> multi_state option" where
  "switch_frame inp i lg s =
     (if ms_prev_depth s < log_depth lg then enter_frame inp i lg s
      else if log_depth lg < ms_prev_depth s then
        map_option (\<lambda>s1. s1\<lparr>ms_prev_line := None\<rparr>) (exit_frames inp i (ms_prev_depth s - log_depth lg) s)
      else Some s)"

section \<open>The artifacts of the current frame\<close>

definition no_source :: current_source where
  "no_source = \<lparr>cs_source_map = None, cs_pc_to_idx = [], cs_source_paths = [], cs_source_contents = [],
                cs_storage_layout = None, cs_solidity_ast = None\<rparr>"

definition initial_source :: "contract_registry \<Rightarrow> address \<Rightarrow> current_source" where
  "initial_source registry contract_address =
     (case registry_get registry contract_address of
        None \<Rightarrow> no_source
      | Some a \<Rightarrow>
          \<lparr>cs_source_map = Some (ca_source_map a),
           cs_pc_to_idx = (if ca_runtime_bytecode a \<noteq> []
                           then build_pc_to_instruction_index (ca_runtime_bytecode a) else ca_pc_to_idx a),
           cs_source_paths = ca_source_paths a, cs_source_contents = ca_source_contents a,
           cs_storage_layout = ca_storage_layout a, cs_solidity_ast = ca_solidity_ast a\<rparr>)"

definition frame_source :: "multi_input \<Rightarrow> frame_context list \<Rightarrow> current_source" where
  "frame_source inp frames =
     (let current_addr = (if frames = [] then mi_contract_address inp else fc_address (last frames));
          is_delegate_frame = (frames \<noteq> [] \<and> fc_is_delegate (last frames));
          delegate_proxy = (if frames = [] then None else fc_delegate_proxy (last frames)) in
      if is_delegate_frame then
        (case delegate_proxy of
           None \<Rightarrow> no_source
         | Some proxy_addr \<Rightarrow>
             (case get_delegatecall (mi_registry inp) current_addr proxy_addr of
                None \<Rightarrow> no_source
              | Some v \<Rightarrow>
                  \<lparr>cs_source_map = Some (dv_source_map v), cs_pc_to_idx = dv_pc_to_idx v,
                   cs_source_paths = dv_source_paths v, cs_source_contents = dv_source_contents v,
                   cs_storage_layout = dv_storage_layout v, cs_solidity_ast = dv_solidity_ast v\<rparr>))
      else
        (case registry_get (mi_registry inp) current_addr of
           None \<Rightarrow> mi_init inp
         | Some a \<Rightarrow>
             \<lparr>cs_source_map = Some (ca_source_map a), cs_pc_to_idx = ca_pc_to_idx a,
              cs_source_paths = ca_source_paths a, cs_source_contents = ca_source_contents a,
              cs_storage_layout = ca_storage_layout a, cs_solidity_ast = ca_solidity_ast a\<rparr>))"

text \<open>The arguments the blocks shared with the single contract loop take.\<close>

definition frame_input :: "multi_input \<Rightarrow> current_source \<Rightarrow> source_map \<Rightarrow> rec_input" where
  "frame_input inp cur sm =
     \<lparr>ri_env = mi_env inp, ri_keccak = mi_keccak inp, ri_logs = mi_logs inp, ri_source_map = sm,
      ri_pc_to_idx = cs_pc_to_idx cur, ri_source_paths = cs_source_paths cur,
      ri_source_contents = cs_source_contents cur, ri_layout = cs_storage_layout cur,
      ri_ast = cs_solidity_ast cur, ri_main_path = mi_main_path inp,
      ri_uint256_type_id = mi_uint256_type_id inp\<rparr>"

section \<open>Steps, locals and jumps\<close>

definition emit_frame_step :: "rec_input \<Rightarrow> source_location \<Rightarrow> nat \<Rightarrow> multi_state \<Rightarrow> multi_state" where
  "emit_frame_step inp location ss_idx s =
     (let file_idx = loc_file_index location;
          line = loc_line location;
          column = loc_column location;
          current = (file_idx, line, column) in
      if ms_prev_line s \<noteq> Some current then
        let step_path = path_at (ri_source_paths inp) (ri_main_path inp) file_idx;
            r1 = (case vec_get (ri_source_contents inp) (usize_of_i32 file_idx) of
                    Some src \<Rightarrow> ensure_path_with_line_lengths step_path src (ms_rec s)
                  | None \<Rightarrow> ms_rec s);
            r2 = emit (W_Step step_path line (column + 1)) r1;
            line_changed = map_option (\<lambda>(f, l, _). (f, l)) (ms_prev_line s) \<noteq> Some (file_idx, line);
            r3 = (if line_changed then
                    (case vec_get (ms_storage_states s) ss_idx of
                       Some ss \<Rightarrow> emit_storage (ri_env inp) ss r2 | None \<Rightarrow> r2)
                  else r2) in
        s\<lparr>ms_rec := r3, ms_prev_line := Some current\<rparr>
      else s)"

definition track_frame_stack ::
  "nat \<Rightarrow> byte \<Rightarrow> int option \<Rightarrow> var_decl list \<Rightarrow> multi_state \<Rightarrow> multi_state"
where
  "track_frame_stack idx op source_offset vars s =
     s\<lparr>ms_stacks := (ms_stacks s)
         [idx := fst (st_process_step op source_offset vars (ms_stacks s ! idx))]\<rparr>"

definition track_frame_memory ::
  "nat \<Rightarrow> byte \<Rightarrow> int option \<Rightarrow> var_decl list \<Rightarrow> struct_log \<Rightarrow> multi_state \<Rightarrow> multi_state"
where
  "track_frame_memory idx op source_offset vars lg s =
     (if 0x51 \<le> op \<and> op \<le> 0x53 then
        let pre_stack = (case log_stack lg of Some stk \<Rightarrow> stk | None \<Rightarrow> []);
            pre_memory = decode_struct_log_memory (log_memory lg) in
        s\<lparr>ms_mems := (ms_mems s)
            [idx := fst (mt_process_step op source_offset vars pre_stack pre_memory (ms_mems s ! idx))]\<rparr>
      else s)"

text \<open>Unlike the single contract loop, values are read from the stack of the entry itself.\<close>

definition track_frame_locals ::
  "rec_input \<Rightarrow> struct_log \<Rightarrow> int \<Rightarrow> int option \<Rightarrow> nat \<Rightarrow> multi_state \<Rightarrow> multi_state"
where
  "track_frame_locals inp lg file_idx source_offset idx s =
     (case opcode_from_name (log_op lg) of
        None \<Rightarrow> s
      | Some op \<Rightarrow>
          (case (ri_ast inp, source_offset) of
             (Some ast, Some src_off) \<Rightarrow>
               (case function_at ast src_off file_idx of
                  Some func \<Rightarrow>
                    let in_scope = vars_in_scope_at func src_off;
                        s1 = track_frame_stack idx op (Some src_off) in_scope s;
                        s2 = track_frame_memory idx op (Some src_off) in_scope lg s1 in
                    on_multi (emit_locals (ri_env inp) (ms_stacks s2 ! idx) (log_stack lg) in_scope) s2
                | None \<Rightarrow> track_frame_stack idx op (Some src_off) [] s)
           | _ \<Rightarrow> track_frame_stack idx op source_offset [] s))"

definition frame_internal_call ::
  "rec_input \<Rightarrow> nat \<Rightarrow> struct_log \<Rightarrow> source_location \<Rightarrow> nat \<Rightarrow> multi_state \<Rightarrow> multi_state"
where
  "frame_internal_call inp i lg location idx s =
     (let target_fn = internal_target inp i;
          fn_name = (case target_fn of Some f \<Rightarrow> display_name (ri_ast inp) f
                                     | None \<Rightarrow> fallback_name inp i);
          fn_path = path_at (ri_source_paths inp) (ri_main_path inp) (loc_file_index location);
          (fn_id, r1) = ensure_function_id (ri_env inp) fn_name fn_path (loc_line location) (ms_rec s);
          (tracker, r2) = stage_internal_call_args (ri_env inp) (ms_stacks s ! idx) target_fn
                            (log_stack lg) 1 r1 in
      s\<lparr>ms_stacks := (ms_stacks s)[idx := tracker], ms_rec := emit (W_Call fn_id) r2\<rparr>)"

definition frame_internal_return :: "rec_input \<Rightarrow> nat \<Rightarrow> multi_state \<Rightarrow> multi_state" where
  "frame_internal_return inp idx s =
     (on_multi (emit (W_Return (empty_return (ri_uint256_type_id inp)))) s)
       \<lparr>ms_stacks := (ms_stacks s)[idx := st_reset (ms_stacks s ! idx)]\<rparr>"

definition follow_frame_jump ::
  "rec_input \<Rightarrow> nat \<Rightarrow> struct_log \<Rightarrow> source_location \<Rightarrow> nat \<Rightarrow> multi_state \<Rightarrow> multi_state"
where
  "follow_frame_jump inp i lg location idx s =
     (case get_entry_for_pc (ri_source_map inp) (log_pc lg) (ri_pc_to_idx inp) of
        None \<Rightarrow> s
      | Some entry \<Rightarrow>
          (case sme_jump_type entry of
             Into \<Rightarrow> frame_internal_call inp i lg location idx s
           | OutOf \<Rightarrow> frame_internal_return inp idx s
           | Regular \<Rightarrow> s))"

definition locate_in_frame ::
  "multi_input \<Rightarrow> nat \<Rightarrow> struct_log \<Rightarrow> current_source \<Rightarrow> nat \<Rightarrow> multi_state \<Rightarrow> multi_state"
where
  "locate_in_frame inp i lg cur idx s =
     (let without_location = (\<lambda>source_offset.
            case opcode_from_name (log_op lg) of
              Some op \<Rightarrow> track_frame_stack idx op source_offset [] s | None \<Rightarrow> s) in
      case cs_source_map cur of
        None \<Rightarrow> without_location None
      | Some sm \<Rightarrow>
          let ri = frame_input inp cur sm; source_offset = source_offset_of ri lg in
          (case resolve_pc sm (log_pc lg) (cs_pc_to_idx cur) (cs_source_contents cur) of
             Some location \<Rightarrow>
               follow_frame_jump ri i lg location idx
                 (track_frame_locals ri lg (loc_file_index location) source_offset idx
                   (emit_frame_step ri location (log_depth lg - 1) s))
           | None \<Rightarrow> without_location source_offset))"

section \<open>Storage of the frame\<close>

definition record_frame_keccak :: "multi_input \<Rightarrow> struct_log \<Rightarrow> current_source \<Rightarrow> multi_state \<Rightarrow> multi_state" where
  "record_frame_keccak inp lg cur s =
     (case (keccak_input lg, cs_storage_layout cur) of
        (Some input, Some layout) \<Rightarrow>
          let mn_idx = log_depth lg - 1;
              tables = grow (mn_idx + 1) (\<lambda>_. None) (ms_mapping_names s) in
          s\<lparr>ms_mapping_names := tables
              [mn_idx := derive_mapping_name (mi_keccak inp) layout input (tables ! mn_idx)]\<rparr>
      | _ \<Rightarrow> s)"

definition store_frame_variable :: "nat \<Rightarrow> string \<Rightarrow> value_record \<Rightarrow> multi_state \<Rightarrow> multi_state" where
  "store_frame_variable ss_idx n v s =
     (on_multi (emit (W_Variable n v)) s)
       \<lparr>ms_storage_states := (ms_storage_states s)
          [ss_idx := AList.update n v (ms_storage_states s ! ss_idx)]\<rparr>"

definition store_frame_compound ::
  "multi_input \<Rightarrow> storage_layout \<Rightarrow> nat \<Rightarrow> nat \<Rightarrow> multi_state \<Rightarrow> multi_state"
where
  "store_frame_compound inp layout ss_idx slot s =
     (case containing_compound layout slot of
        None \<Rightarrow> s
      | Some (parent, parent_ti, slot_count) \<Rightarrow>
          let base_slot = (case parse_u64 (se_slot parent) of Some b \<Rightarrow> b | None \<Rightarrow> 0);
              (compound, r1) = build_compound_value (mi_env inp) parent_ti base_slot slot_count
                                 (ms_slot_values s ! ss_idx) (ms_rec s);
              s1 = s\<lparr>ms_rec := r1\<rparr> in
          (case compound of
             None \<Rightarrow> s1
           | Some v \<Rightarrow> store_frame_variable ss_idx (se_label parent) v s1))"

definition record_frame_sstore ::
  "multi_input \<Rightarrow> struct_log \<Rightarrow> current_source \<Rightarrow> multi_state \<Rightarrow> multi_state"
where
  "record_frame_sstore inp lg cur s =
     (case (if log_op lg = ''SSTORE'' then log_stack lg else None) of
        None \<Rightarrow> s
      | Some stack \<Rightarrow>
          if length stack < 2 then s
          else
            let slot = stack ! (length stack - 1);
                val = stack ! (length stack - 2);
                mapping_names = (case vec_get (ms_mapping_names s) (log_depth lg - 1) of
                                   Some t \<Rightarrow> t | None \<Rightarrow> (\<lambda>_. None));
                var_name = slot_name (cs_storage_layout cur) mapping_names slot;
                type_name = slot_type_name (cs_storage_layout cur) slot;
                (type_id, r1) = ensure_type_id (mi_env inp) TkInt type_name (ms_rec s);
                ss_idx = log_depth lg - 1;
                s1 = s\<lparr>ms_rec := r1,
                       ms_storage_states := grow (ss_idx + 1) [] (ms_storage_states s),
                       ms_slot_values := grow (ss_idx + 1) (\<lambda>_. None) (ms_slot_values s)\<rparr>;
                s2 = store_frame_variable ss_idx var_name (VRaw (hex_u256 val) type_id) s1 in
            (case (parse_u64 (show_nat (unat slot)), cs_storage_layout cur) of
               (Some slot_u64, Some layout) \<Rightarrow>
                 store_frame_compound inp layout ss_idx slot_u64
                   (s2\<lparr>ms_slot_values := (ms_slot_values s2)
                         [ss_idx := (ms_slot_values s2 ! ss_idx)(slot_u64 \<mapsto> val)]\<rparr>)
             | _ \<Rightarrow> s2))"

text \<open>The events, by the blocks of the loop over one contract.\<close>

definition record_frame_events :: "struct_log \<Rightarrow> evm_recorder \<Rightarrow> evm_recorder" where
  "record_frame_events lg r = record_precompile lg (record_selfdestruct lg (record_log_event lg r))"

lemma record_frame_events_eq: "record_frame_events lg = record_events lg"
  by (simp add: fun_eq_iff record_frame_events_def record_events_def)

section \<open>The loop\<close>

definition multi_step :: "multi_input \<Rightarrow> nat \<Rightarrow> struct_log \<Rightarrow> multi_state \<Rightarrow> multi_state option" where
  "multi_step inp i lg s =
     (case switch_frame inp i lg s of
        None \<Rightarrow> None
      | Some s0 \<Rightarrow>
          let s1 = s0\<lparr>ms_stacks := grow (log_depth lg) stack_tracker_new (ms_stacks s0),
                      ms_mems := grow (log_depth lg) memory_tracker_new (ms_mems s0)\<rparr>;
              idx = log_depth lg - 1;
              cur = frame_source inp (ms_frames s1) in
          if length (ms_stacks s1) \<le> idx then None
          else Some ((on_multi (record_frame_events lg)
                       (record_frame_sstore inp lg cur
                         (record_frame_keccak inp lg cur (locate_in_frame inp i lg cur idx s1))))
                     \<lparr>ms_prev_depth := log_depth lg\<rparr>))"

fun multi_loop :: "multi_input \<Rightarrow> nat \<Rightarrow> struct_log list \<Rightarrow> multi_state \<Rightarrow> multi_state option" where
  "multi_loop inp i [] s = Some s"
| "multi_loop inp i (lg # logs) s =
     (case multi_step inp i lg s of None \<Rightarrow> None | Some s1 \<Rightarrow> multi_loop inp (i + 1) logs s1)"

definition multi_state_init :: "address \<Rightarrow> evm_recorder \<Rightarrow> multi_state" where
  "multi_state_init contract_address r =
     \<lparr>ms_rec = r, ms_prev_line = None, ms_prev_depth = 1, ms_stacks = [], ms_mems = [],
      ms_storage_states = [[]], ms_slot_values = [\<lambda>_. None], ms_mapping_names = [\<lambda>_. None],
      ms_frames = [\<lparr>fc_address = contract_address, fc_is_delegate = False, fc_delegate_proxy = None\<rparr>],
      ms_tree = call_tree_new contract_address\<rparr>"

definition multi_input_of ::
  "writer_env \<Rightarrow> keccak \<Rightarrow> struct_log list \<Rightarrow> contract_registry \<Rightarrow> address \<Rightarrow> evm_recorder \<Rightarrow>
     multi_input \<times> evm_recorder"
where
  "multi_input_of env keccak256 logs registry contract_address r =
     (let init = initial_source registry contract_address;
          (main_path, uint256_type_id, r1) =
            open_trace env (cs_source_paths init) (cs_source_contents init) r in
      (\<lparr>mi_env = env, mi_keccak = keccak256, mi_logs = logs, mi_registry = registry,
        mi_contract_address = contract_address, mi_init = init, mi_main_path = main_path,
        mi_uint256_type_id = uint256_type_id\<rparr>, r1))"

definition record_from_structlog_multi_contract ::
  "writer_env \<Rightarrow> keccak \<Rightarrow> struct_log list \<Rightarrow> contract_registry \<Rightarrow> address \<Rightarrow> evm_recorder \<Rightarrow>
     (call_tree \<times> evm_recorder) option"
where
  "record_from_structlog_multi_contract env keccak256 logs registry contract_address r =
     (if logs = [] then Some (call_tree_new contract_address, r)
      else
        let (inp, r1) = multi_input_of env keccak256 logs registry contract_address r in
        map_option (\<lambda>s. (ms_tree s, ms_rec s))
          (multi_loop inp 0 logs (multi_state_init contract_address r1)))"

section \<open>Lemmas\<close>

subsection \<open>What a block of the loop leaves alone\<close>

text \<open>The frames, the sizes of the tables and every table but the one at \<open>idx\<close> are as before.\<close>

definition settled :: "nat \<Rightarrow> multi_state \<Rightarrow> multi_state \<Rightarrow> bool" where
  "settled idx s s' \<longleftrightarrow>
     ms_tree s' = ms_tree s \<and> ms_frames s' = ms_frames s \<and> ms_prev_depth s' = ms_prev_depth s \<and>
     length (ms_stacks s') = length (ms_stacks s) \<and> length (ms_mems s') = length (ms_mems s) \<and>
     length (ms_storage_states s') = length (ms_storage_states s) \<and>
     length (ms_slot_values s') = length (ms_slot_values s) \<and>
     length (ms_mapping_names s') = length (ms_mapping_names s) \<and>
     (\<forall>k. k \<noteq> idx \<longrightarrow> ms_storage_states s' ! k = ms_storage_states s ! k \<and>
        ms_slot_values s' ! k = ms_slot_values s ! k \<and> ms_mapping_names s' ! k = ms_mapping_names s ! k \<and>
        ms_stacks s' ! k = ms_stacks s ! k \<and> ms_mems s' ! k = ms_mems s ! k)"

lemma settled_refl [simp]: "settled idx s s"
  by (simp add: settled_def)

lemma settled_trans: "settled idx s s1 \<Longrightarrow> settled idx s1 s2 \<Longrightarrow> settled idx s s2"
  by (simp add: settled_def)

lemma settled_on_multi [simp]: "settled idx s (on_multi f s)"
  by (simp add: settled_def on_multi_def)

lemma settled_rec [simp]: "settled idx s (s\<lparr>ms_rec := r\<rparr>)"
  by (simp add: settled_def)

lemma settled_emit_frame_step: "settled idx s (emit_frame_step inp loc k s)"
  by (simp add: settled_def emit_frame_step_def Let_def)

lemma settled_track_stack: "settled idx s (track_frame_stack idx op off vars s)"
  by (simp add: settled_def track_frame_stack_def)

lemma settled_track_memory: "settled idx s (track_frame_memory idx op off vars lg s)"
  by (simp add: settled_def track_frame_memory_def Let_def)

lemma settled_track_locals: "settled idx s (track_frame_locals inp lg fi off idx s)"
proof -
  have "settled idx s (on_multi f (track_frame_memory idx op o' vars lg (track_frame_stack idx op o' vars s)))"
    for f op o' vars
    by (blast intro: settled_trans settled_track_stack settled_track_memory settled_on_multi)
  then show ?thesis
    by (simp add: track_frame_locals_def Let_def settled_track_stack split: option.split)
qed

lemma settled_follow_jump: "settled idx s (follow_frame_jump inp i lg loc idx s)"
  by (simp add: follow_frame_jump_def frame_internal_call_def frame_internal_return_def on_multi_def
      settled_def Let_def split: option.split jump_type.split prod.split)

lemma settled_locate: "settled idx s (locate_in_frame inp i lg cur idx s)"
proof -
  have "settled idx s (follow_frame_jump ri i lg loc idx
      (track_frame_locals ri lg fi off idx (emit_frame_step ri loc k s)))" for ri loc fi off k
    by (blast intro: settled_trans settled_follow_jump settled_track_locals settled_emit_frame_step)
  then show ?thesis
    by (simp add: locate_in_frame_def Let_def settled_track_stack split: option.split)
qed

lemma grow_id [simp]: "n \<le> length v \<Longrightarrow> grow n x v = v"
  by (simp add: grow_def)

text \<open>The tables of a frame are there once it is entered.\<close>

definition has_tables :: "nat \<Rightarrow> multi_state \<Rightarrow> bool" where
  "has_tables d s \<longleftrightarrow> d \<le> length (ms_storage_states s) \<and> d \<le> length (ms_slot_values s) \<and>
     d \<le> length (ms_mapping_names s)"

lemma settled_has_tables: "settled idx s s' \<Longrightarrow> has_tables d s \<Longrightarrow> has_tables d s'"
  by (simp add: settled_def has_tables_def)

lemma settled_record_keccak:
  assumes "has_tables (log_depth lg) s" "1 \<le> log_depth lg"
  shows "settled (log_depth lg - 1) s (record_frame_keccak inp lg cur s)"
  using assms
  by (simp add: record_frame_keccak_def settled_def has_tables_def Let_def split: option.split)

lemma settled_store_variable: "settled idx s (store_frame_variable idx n v s)"
  by (simp add: settled_def store_frame_variable_def on_multi_def)

lemma settled_slot_values: "settled idx s (s\<lparr>ms_slot_values := (ms_slot_values s)[idx := f]\<rparr>)"
  by (simp add: settled_def)

lemma settled_store_compound: "settled idx s (store_frame_compound inp layout idx slot s)"
  unfolding store_frame_compound_def Let_def
  by (auto split: option.split prod.split
      intro: settled_trans [OF settled_rec settled_store_variable])

lemma settled_record_sstore:
  assumes "has_tables (log_depth lg) s" "1 \<le> log_depth lg"
  shows "settled (log_depth lg - 1) s (record_frame_sstore inp lg cur s)"
proof -
  define idx where "idx = log_depth lg - 1"
  have g: "grow (idx + 1) [] (ms_storage_states s) = ms_storage_states s"
    "grow (idx + 1) (\<lambda>_. None) (ms_slot_values s) = ms_slot_values s"
    using assms by (simp_all add: has_tables_def idx_def)
  have 1: "settled idx s (store_frame_variable idx n v (s\<lparr>ms_rec := r\<rparr>))" for n v r
    by (rule settled_trans [OF settled_rec settled_store_variable])
  have 2: "settled idx s (store_frame_compound inp layout idx slot (s2\<lparr>ms_slot_values :=
      (ms_slot_values s2)[idx := f]\<rparr>))" if "settled idx s s2" for layout slot s2 f
    by (rule settled_trans [OF that settled_trans [OF settled_slot_values settled_store_compound]])
  show ?thesis
    unfolding record_frame_sstore_def Let_def idx_def [symmetric] g
    by (auto split: option.split prod.split intro: 1 2 [OF 1])
qed

subsection \<open>Entering and leaving frames\<close>

definition framed :: "multi_state \<Rightarrow> bool" where
  "framed s \<longleftrightarrow> path_ok (ms_tree s) \<and> length (ms_frames s) = length (ct_path (ms_tree s)) + 1"

lemma entered_target_tree:
  "fst (entered_target logs i frames) = fst (entered_target logs i [])"
  "fst (snd (entered_target logs i frames)) = fst (snd (entered_target logs i []))"
  by (auto simp: entered_target_def call_target_def Let_def split: option.split)

lemma enter_frame_effect:
  assumes "framed s"
  shows "\<exists>s' f t.
    enter_frame inp i lg s = Some s' \<and> framed s' \<and> ms_frames s' = ms_frames s @ [f] \<and>
    enter_call (fst (entered_target (mi_logs inp) i [])) (fst (snd (entered_target (mi_logs inp) i []))) i
      (ms_tree s) = Some (ms_tree s') \<and>
    ms_prev_depth s' = ms_prev_depth s \<and> ms_prev_line s' = None \<and>
    er_calls (ms_rec s') = er_calls (ms_rec s) @
      [W_EnsureFunction (''external_call_depth_'' @ show_nat (log_depth lg)) (mi_main_path inp) 0, W_Call t] \<and>
    ms_stacks s' = grow (log_depth lg) stack_tracker_new (ms_stacks s) \<and>
    ms_mems s' = grow (log_depth lg) memory_tracker_new (ms_mems s) \<and>
    ms_storage_states s' = grow (log_depth lg) [] (ms_storage_states s) \<and>
    ms_slot_values s' = grow (log_depth lg) (\<lambda>_. None) (ms_slot_values s) \<and>
    ms_mapping_names s' = grow (log_depth lg) (\<lambda>_. None) (ms_mapping_names s)"
proof -
  obtain a ty d p where t: "entered_target (mi_logs inp) i (ms_frames s) = (a, ty, d, p)"
    by (metis prod_cases4)
  then have t0: "fst (entered_target (mi_logs inp) i []) = a"
    "fst (snd (entered_target (mi_logs inp) i [])) = ty"
    using entered_target_tree [of "mi_logs inp" i "ms_frames s"] by simp_all
  obtain tree where tree: "enter_call a ty i (ms_tree s) = Some tree" "path_ok tree"
    "length (ct_path tree) = length (ct_path (ms_tree s)) + 1"
    using assms tree_frames.enter_depth [of "ms_tree s" "(a, ty, i)"] by (auto simp: framed_def)
  show ?thesis
    using assms t t0 tree
    by (simp add: enter_frame_def grow_tables_def framed_def Let_def ensure_function_id_def)
qed

lemma exit_frame_effect:
  assumes "framed s"
  shows "\<exists>s'. exit_frame inp i s = Some s' \<and> framed s' \<and> ms_frames s' = pop_keep (ms_frames s) \<and>
    exit_call i (ms_tree s) = Some (ms_tree s') \<and>
    ms_prev_depth s' = ms_prev_depth s \<and> ms_prev_line s' = ms_prev_line s \<and>
    er_calls (ms_rec s') = er_calls (ms_rec s) @ [W_Return (empty_return (mi_uint256_type_id inp))] \<and>
    ms_stacks s' = butlast (ms_stacks s) \<and> ms_mems s' = butlast (ms_mems s) \<and>
    ms_storage_states s' = pop_keep (ms_storage_states s) \<and>
    ms_slot_values s' = pop_keep (ms_slot_values s) \<and>
    ms_mapping_names s' = pop_keep (ms_mapping_names s)"
proof -
  obtain tree where tree: "exit_call i (ms_tree s) = Some tree" "path_ok tree"
    "length (ct_path tree) = length (ct_path (ms_tree s)) - 1"
    using assms tree_frames.leave_depth [of "ms_tree s" i] by (auto simp: framed_def)
  then show ?thesis using assms by (auto simp: exit_frame_def framed_def pop_keep_def)
qed

interpretation multi_frames: frame_stack "\<lambda>(i, lg). enter_frame inp i lg" "exit_frame inp" framed
    "\<lambda>s. tl (ms_frames s)" for inp
proof unfold_locales
  fix s :: multi_state and e :: "nat \<times> struct_log"
  obtain i lg where e: "e = (i, lg)" by fastforce
  assume "framed s"
  with enter_frame_effect [OF this, of inp i lg]
  show "\<exists>s' f. (case e of (i, lg) \<Rightarrow> enter_frame inp i lg) s = Some s' \<and> framed s' \<and>
      tl (ms_frames s') = tl (ms_frames s) @ [f]"
    by (cases "ms_frames s") (auto simp: e framed_def)
next
  fix s :: multi_state and i :: nat
  assume "framed s"
  with exit_frame_effect [OF this, of inp i]
  show "\<exists>s'. exit_frame inp i s = Some s' \<and> framed s' \<and> tl (ms_frames s') = butlast (tl (ms_frames s))"
    by (cases "ms_frames s") (auto simp: framed_def pop_keep_def)
qed

text \<open>Leaving several frames.\<close>

definition cut :: "nat \<Rightarrow> 'a list \<Rightarrow> 'a list" where
  "cut k v = take (max 1 (length v - k)) v"

lemma cut_0 [simp]: "cut 0 v = v"
  by (simp add: cut_def)

lemma cut_pop_keep: "v \<noteq> [] \<Longrightarrow> pop_keep v \<noteq> [] \<and> cut k (pop_keep v) = cut (Suc k) v"
  by (auto simp: cut_def pop_keep_def butlast_conv_take min_def)

lemma length_cut: "v \<noteq> [] \<Longrightarrow> length (cut k v) = max 1 (length v - k)"
  by (cases v) (auto simp: cut_def)

lemma nth_cut: "j < max 1 (length v - k) \<Longrightarrow> cut k v ! j = v ! j"
  by (simp add: cut_def)

lemma exit_frames_effect:
  assumes "framed s"
  shows "\<exists>s'. exit_frames inp i k s = Some s' \<and> framed s' \<and>
    run_tree (replicate k (Leave i)) (ms_tree s) = Some (ms_tree s') \<and>
    ms_prev_depth s' = ms_prev_depth s \<and>
    length (ms_frames s') = max 1 (length (ms_frames s) - k) \<and>
    length (ms_stacks s') = length (ms_stacks s) - k \<and> length (ms_mems s') = length (ms_mems s) - k \<and>
    (ms_storage_states s \<noteq> [] \<longrightarrow> ms_storage_states s' = cut k (ms_storage_states s)) \<and>
    (ms_slot_values s \<noteq> [] \<longrightarrow> ms_slot_values s' = cut k (ms_slot_values s)) \<and>
    (ms_mapping_names s \<noteq> [] \<longrightarrow> ms_mapping_names s' = cut k (ms_mapping_names s))"
  using assms
proof (induction k arbitrary: s)
  case 0
  then show ?case by (auto simp: run_tree_def framed_def)
next
  case (Suc k)
  obtain s1 where s1: "exit_frame inp i s = Some s1" "framed s1" "ms_frames s1 = pop_keep (ms_frames s)"
    "exit_call i (ms_tree s) = Some (ms_tree s1)" "ms_prev_depth s1 = ms_prev_depth s"
    "ms_stacks s1 = butlast (ms_stacks s)" "ms_mems s1 = butlast (ms_mems s)"
    "ms_storage_states s1 = pop_keep (ms_storage_states s)"
    "ms_slot_values s1 = pop_keep (ms_slot_values s)"
    "ms_mapping_names s1 = pop_keep (ms_mapping_names s)"
    using exit_frame_effect [OF Suc.prems, of inp i] by auto
  from Suc.IH [OF s1(2)] obtain s' where s': "exit_frames inp i k s1 = Some s'" "framed s'"
    "run_tree (replicate k (Leave i)) (ms_tree s1) = Some (ms_tree s')"
    "ms_prev_depth s' = ms_prev_depth s1"
    "length (ms_frames s') = max 1 (length (ms_frames s1) - k)"
    "length (ms_stacks s') = length (ms_stacks s1) - k" "length (ms_mems s') = length (ms_mems s1) - k"
    "ms_storage_states s1 \<noteq> [] \<longrightarrow> ms_storage_states s' = cut k (ms_storage_states s1)"
    "ms_slot_values s1 \<noteq> [] \<longrightarrow> ms_slot_values s' = cut k (ms_slot_values s1)"
    "ms_mapping_names s1 \<noteq> [] \<longrightarrow> ms_mapping_names s' = cut k (ms_mapping_names s1)"
    by blast
  have "max 1 (length (pop_keep (ms_frames s)) - k) = max 1 (length (ms_frames s) - Suc k)"
    by (auto simp: pop_keep_def)
  with s1 s' show ?case by (simp add: run_tree_def cut_pop_keep)
qed

subsection \<open>The frames of a run\<close>

text \<open>Everything kept per frame has as many entries as there are frames open.\<close>

definition synchronised :: "multi_state \<Rightarrow> bool" where
  "synchronised s \<longleftrightarrow> framed s \<and> length (ms_frames s) = ms_prev_depth s \<and>
     length (ms_storage_states s) = ms_prev_depth s \<and> length (ms_slot_values s) = ms_prev_depth s \<and>
     length (ms_mapping_names s) = ms_prev_depth s \<and> length (ms_mems s) = length (ms_stacks s) \<and>
     (length (ms_stacks s) = ms_prev_depth s \<or> length (ms_stacks s) = 0 \<and> ms_prev_depth s = 1)"

definition frame_events :: "struct_log list \<Rightarrow> nat \<Rightarrow> nat \<Rightarrow> nat \<Rightarrow> tree_event list" where
  "frame_events logs i prev_depth depth =
     (if prev_depth < depth then
        [Enter (fst (entered_target logs i []), fst (snd (entered_target logs i [])), i)]
      else replicate (prev_depth - depth) (Leave i))"

lemma switch_frame_effect:
  assumes "synchronised s" "1 \<le> log_depth lg" "log_depth lg \<le> ms_prev_depth s + 1"
  shows "\<exists>s'. switch_frame inp i lg s = Some s' \<and> framed s' \<and> length (ms_frames s') = log_depth lg \<and>
    run_tree (frame_events (mi_logs inp) i (ms_prev_depth s) (log_depth lg)) (ms_tree s) = Some (ms_tree s') \<and>
    length (ms_storage_states s') = log_depth lg \<and> length (ms_slot_values s') = log_depth lg \<and>
    length (ms_mapping_names s') = log_depth lg \<and> length (ms_mems s') = length (ms_stacks s') \<and>
    length (ms_stacks s') \<le> log_depth lg \<and>
    (\<forall>k < min (log_depth lg) (ms_prev_depth s). ms_storage_states s' ! k = ms_storage_states s ! k \<and>
       ms_slot_values s' ! k = ms_slot_values s ! k \<and> ms_mapping_names s' ! k = ms_mapping_names s ! k)"
proof -
  note sync = assms(1) [unfolded synchronised_def]
  have fr: "framed s" using sync by simp
  consider (down) "ms_prev_depth s < log_depth lg" | (up) "log_depth lg < ms_prev_depth s"
    | (same) "log_depth lg = ms_prev_depth s" by linarith
  then show ?thesis
  proof cases
    case down
    with enter_frame_effect [OF fr, of inp i lg] sync assms(3) show ?thesis
      by (auto simp: switch_frame_def frame_events_def run_tree_def grow_def nth_append)
  next
    case up
    let ?k = "ms_prev_depth s - log_depth lg"
    have ne: "ms_storage_states s \<noteq> []" "ms_slot_values s \<noteq> []" "ms_mapping_names s \<noteq> []"
      using sync up by auto
    obtain s1 where s1: "exit_frames inp i ?k s = Some s1" "framed s1"
      "run_tree (replicate ?k (Leave i)) (ms_tree s) = Some (ms_tree s1)"
      "length (ms_frames s1) = max 1 (length (ms_frames s) - ?k)"
      "length (ms_stacks s1) = length (ms_stacks s) - ?k" "length (ms_mems s1) = length (ms_mems s) - ?k"
      "ms_storage_states s1 = cut ?k (ms_storage_states s)" "ms_slot_values s1 = cut ?k (ms_slot_values s)"
      "ms_mapping_names s1 = cut ?k (ms_mapping_names s)"
      using exit_frames_effect [OF fr, of inp i ?k] ne by auto
    have "framed (s1\<lparr>ms_prev_line := None\<rparr>)" using s1(2) by (simp add: framed_def)
    with up s1 sync assms(2) ne show ?thesis
      by (auto simp: switch_frame_def frame_events_def length_cut nth_cut)
  next
    case same
    with sync fr show ?thesis
      by (auto simp: switch_frame_def frame_events_def run_tree_def)
  qed
qed

lemma multi_step_effect:
  assumes "synchronised s" "1 \<le> log_depth lg" "log_depth lg \<le> ms_prev_depth s + 1"
  shows "\<exists>s'. multi_step inp i lg s = Some s' \<and> synchronised s' \<and> ms_prev_depth s' = log_depth lg \<and>
    run_tree (frame_events (mi_logs inp) i (ms_prev_depth s) (log_depth lg)) (ms_tree s) = Some (ms_tree s') \<and>
    (\<forall>k < min (log_depth lg - 1) (ms_prev_depth s). ms_storage_states s' ! k = ms_storage_states s ! k \<and>
       ms_slot_values s' ! k = ms_slot_values s ! k \<and> ms_mapping_names s' ! k = ms_mapping_names s ! k)"
proof -
  obtain s0 where s0: "switch_frame inp i lg s = Some s0" "framed s0" "length (ms_frames s0) = log_depth lg"
    "run_tree (frame_events (mi_logs inp) i (ms_prev_depth s) (log_depth lg)) (ms_tree s) = Some (ms_tree s0)"
    "length (ms_storage_states s0) = log_depth lg" "length (ms_slot_values s0) = log_depth lg"
    "length (ms_mapping_names s0) = log_depth lg" "length (ms_mems s0) = length (ms_stacks s0)"
    "length (ms_stacks s0) \<le> log_depth lg"
    "\<forall>k < min (log_depth lg) (ms_prev_depth s). ms_storage_states s0 ! k = ms_storage_states s ! k \<and>
       ms_slot_values s0 ! k = ms_slot_values s ! k \<and> ms_mapping_names s0 ! k = ms_mapping_names s ! k"
    using switch_frame_effect [OF assms, of inp i] by blast
  define s1 where "s1 = s0\<lparr>ms_stacks := grow (log_depth lg) stack_tracker_new (ms_stacks s0),
      ms_mems := grow (log_depth lg) memory_tracker_new (ms_mems s0)\<rparr>"
  define cur where "cur = frame_source inp (ms_frames s1)"
  define idx where "idx = log_depth lg - 1"
  define s2 where "s2 = locate_in_frame inp i lg cur idx s1"
  define s3 where "s3 = record_frame_keccak inp lg cur s2"
  define s4 where "s4 = record_frame_sstore inp lg cur s3"
  have len: "length (ms_stacks s1) = log_depth lg" "length (ms_mems s1) = log_depth lg"
    using s0 by (simp_all add: s1_def)
  have t1: "has_tables (log_depth lg) s1" using s0 by (simp add: s1_def has_tables_def)
  have 2: "settled idx s1 s2" unfolding s2_def by (rule settled_locate)
  have 3: "settled idx s2 s3" unfolding s3_def idx_def
    using settled_has_tables [OF 2 t1] assms(2) by (rule settled_record_keccak)
  have 4: "settled idx s3 s4" unfolding s4_def idx_def
    using settled_has_tables [OF 3 settled_has_tables [OF 2 t1]] assms(2) by (rule settled_record_sstore)
  have all: "settled idx s1 (on_multi (record_events lg) s4)"
    by (rule settled_trans [OF 2 settled_trans [OF 3 settled_trans [OF 4 settled_on_multi]]])
  have "multi_step inp i lg s = Some ((on_multi (record_events lg) s4)\<lparr>ms_prev_depth := log_depth lg\<rparr>)"
    using s0(1) len assms(2)
    unfolding multi_step_def s4_def s3_def s2_def cur_def s1_def idx_def by (auto simp: Let_def record_frame_events_eq)
  moreover have "synchronised ((on_multi (record_events lg) s4)\<lparr>ms_prev_depth := log_depth lg\<rparr>)"
    using all len s0 by (simp add: synchronised_def settled_def framed_def s1_def)
  moreover have "ms_tree (on_multi (record_events lg) s4) = ms_tree s0"
    using all by (simp add: settled_def s1_def)
  moreover have "ms_storage_states (on_multi (record_events lg) s4) ! k = ms_storage_states s ! k \<and>
      ms_slot_values (on_multi (record_events lg) s4) ! k = ms_slot_values s ! k \<and>
      ms_mapping_names (on_multi (record_events lg) s4) ! k = ms_mapping_names s ! k"
    if k: "k < min (log_depth lg - 1) (ms_prev_depth s)" for k
  proof -
    have "k \<noteq> idx" "k < min (log_depth lg) (ms_prev_depth s)" using k by (auto simp: idx_def)
    with s0(10) all show ?thesis by (simp add: settled_def s1_def)
  qed
  ultimately show ?thesis using s0(4) by simp
qed

text \<open>The frame events of a whole trace, read off its depths alone.\<close>

fun trace_events :: "struct_log list \<Rightarrow> nat \<Rightarrow> nat \<Rightarrow> struct_log list \<Rightarrow> tree_event list" where
  "trace_events logs i prev_depth [] = []"
| "trace_events logs i prev_depth (lg # lgs) =
     frame_events logs i prev_depth (log_depth lg) @ trace_events logs (i + 1) (log_depth lg) lgs"

lemma multi_loop_effect:
  assumes "synchronised s" "depths_from (ms_prev_depth s) lgs"
  shows "\<exists>s'. multi_loop inp i lgs s = Some s' \<and> synchronised s' \<and>
    ms_prev_depth s' = last_depth (ms_prev_depth s) lgs \<and>
    run_tree (trace_events (mi_logs inp) i (ms_prev_depth s) lgs) (ms_tree s) = Some (ms_tree s')"
  using assms
proof (induction lgs arbitrary: i s)
  case Nil
  then show ?case by (simp add: last_depth_def run_tree_def)
next
  case (Cons lg lgs)
  then have "1 \<le> log_depth lg" "log_depth lg \<le> ms_prev_depth s + 1" by simp_all
  from multi_step_effect [OF Cons.prems(1) this, of inp i] obtain s1 where
    s1: "multi_step inp i lg s = Some s1" "synchronised s1" "ms_prev_depth s1 = log_depth lg"
    "run_tree (frame_events (mi_logs inp) i (ms_prev_depth s) (log_depth lg)) (ms_tree s) = Some (ms_tree s1)"
    by blast
  from Cons.IH [OF s1(2), of "i + 1"] Cons.prems(2) s1 show ?case
    by (auto simp: run_tree_append last_depth_def)
qed

lemma synchronised_init: "synchronised (multi_state_init a r)"
  by (simp add: synchronised_def framed_def multi_state_init_def path_ok_new)
    (simp add: call_tree_new_def)

lemma multi_input_of_logs:
  "multi_input_of env k logs reg a r = (inp, r1) \<Longrightarrow> mi_logs inp = logs"
  by (auto simp: multi_input_of_def Let_def split: prod.splits)

lemma multi_run_tree:
  assumes "depths_from 1 logs" and "logs \<noteq> []"
  shows "\<exists>t r'. record_from_structlog_multi_contract env k logs registry a r = Some (t, r') \<and>
    run_tree (trace_events logs 0 1 logs) (call_tree_new a) = Some t \<and>
    length (ct_path t) + 1 = log_depth (last logs)"
proof -
  obtain inp r1 where inp: "multi_input_of env k logs registry a r = (inp, r1)" by fastforce
  have init: "ms_prev_depth (multi_state_init a r1) = 1" "ms_tree (multi_state_init a r1) = call_tree_new a"
    by (simp_all add: multi_state_init_def)
  obtain s' where "multi_loop inp 0 logs (multi_state_init a r1) = Some s'" "synchronised s'"
    "ms_prev_depth s' = last_depth 1 logs"
    "run_tree (trace_events logs 0 1 logs) (call_tree_new a) = Some (ms_tree s')"
    using multi_loop_effect [OF synchronised_init, of a r1 logs inp 0] assms(1)
    by (auto simp: init multi_input_of_logs [OF inp])
  with assms(2) inp show ?thesis
    by (simp add: record_from_structlog_multi_contract_def last_depth_def synchronised_def framed_def)
qed

section \<open>Properties\<close>

text \<open>
  C5: recording a transaction over several contracts does not panic on any trace that starts at
  depth one and gains at most one level per entry, and the call tree it returns is the one built
  by the depth changes of the trace: a call at every rise, to the address on the caller's stack and
  of the kind of its opcode, a return at every fall. Its open path is as long as the final depth.
\<close>

theorem call_tree_follows_depths:
  assumes "depths_from 1 logs" and "logs \<noteq> []"
  shows "\<exists>t r'. record_from_structlog_multi_contract env k logs registry a r = Some (t, r') \<and>
    run_tree (trace_events logs 0 1 logs) (call_tree_new a) = Some t \<and>
    length (ct_path t) + 1 = log_depth (last logs)"
  using assms by (rule multi_run_tree)

text \<open>An example: a call from depth one to address 5 and back.\<close>

definition example_call :: "struct_log list" where
  "example_call = [(example_log 0 1)\<lparr>log_op := ''CALL'', log_stack := Some [5, 0]\<rparr>,
                   example_log 0 2, example_log 0 1]"

lemma example_call_depths: "depths_from 1 example_call" "example_call \<noteq> []"
    "log_depth (last example_call) = 1"
  by (simp_all add: example_call_def example_log_def)

lemma example_call_events: "trace_events example_call 0 1 example_call = [Enter (5, Call, 1), Leave 2]"
  by (simp add: example_call_def example_log_def frame_events_def entered_target_def previous_log_def
      vec_get_def call_target_def address_of_word_def)

theorem call_tree_follows_depths_witness:
  "\<exists>r'. record_from_structlog_multi_contract example_env (\<lambda>_. []) example_call registry_new 1
           evm_recorder_new =
         Some (\<lparr>ct_root = CallNode 1 [] Transaction [CallNode 5 [] Call [] (1, 2)] (0, 0), ct_path = []\<rparr>, r')"
proof -
  obtain t r' where t: "record_from_structlog_multi_contract example_env (\<lambda>_. []) example_call registry_new 1
      evm_recorder_new = Some (t, r')" "run_tree [Enter (5, Call, 1), Leave 2] (call_tree_new 1) = Some t"
    using call_tree_follows_depths [OF example_call_depths(1,2), of example_env "\<lambda>_. []" registry_new 1
        evm_recorder_new, unfolded example_call_events] by blast
  from t(2) have "t = \<lparr>ct_root = CallNode 1 [] Transaction [CallNode 5 [] Call [] (1, 2)] (0, 0), ct_path = []\<rparr>"
    by (simp add: run_tree_def call_tree_new_def enter_call_def exit_call_def call_node_new_def
        push_child_def set_children_def set_end_step_def)
  with t(1) show ?thesis by simp
qed

text \<open>
  C15: an instruction of a frame never touches what is remembered for the frames that called it:
  the storage values, slots and mapping names of every outer frame are the same after any entry of
  the trace, the entries that enter and leave frames included.
\<close>

theorem caller_tables_untouched:
  assumes "synchronised s" "1 \<le> log_depth lg" "log_depth lg \<le> ms_prev_depth s + 1"
    and "j + 1 < log_depth lg"
  shows "\<exists>s'. multi_step inp i lg s = Some s' \<and> synchronised s' \<and>
    ms_storage_states s' ! j = ms_storage_states s ! j \<and>
    ms_slot_values s' ! j = ms_slot_values s ! j \<and> ms_mapping_names s' ! j = ms_mapping_names s ! j"
  using multi_step_effect [OF assms(1-3), of inp i] assms(3,4) by fastforce

text \<open>An example: the state of a run two frames deep.\<close>

definition example_multi_input :: multi_input where
  "example_multi_input = \<lparr>mi_env = example_env, mi_keccak = (\<lambda>_. []), mi_logs = example_call,
     mi_registry = registry_new, mi_contract_address = 1, mi_init = no_source,
     mi_main_path = ''A.sol'', mi_uint256_type_id = 0\<rparr>"

theorem caller_tables_untouched_witness:
  "\<exists>s'. multi_step example_multi_input 1 (example_log 0 2)
          ((multi_state_init 1 evm_recorder_new)\<lparr>ms_storage_states := [[(''x'', VInt 3 0)]]\<rparr>) = Some s' \<and>
        ms_storage_states s' ! 0 = [(''x'', VInt 3 0)]"
proof -
  let ?s = "(multi_state_init 1 evm_recorder_new)\<lparr>ms_storage_states := [[(''x'', VInt 3 0)]]\<rparr>"
  have "synchronised ?s"
    using synchronised_init [of 1 evm_recorder_new] by (simp add: synchronised_def framed_def multi_state_init_def)
  moreover have "log_depth (example_log 0 2) = 2" "ms_prev_depth ?s = 1"
    by (simp_all add: example_log_def multi_state_init_def)
  ultimately show ?thesis
    using caller_tables_untouched [of ?s "example_log 0 2" 0 example_multi_input 1] by auto
qed

text \<open>
  The place of an external call is lost: whatever source line the caller was at, the called
  frame is registered under the main path and line 0, because the last line is forgotten before it
  is used.
\<close>

theorem external_call_place_lost:
  assumes "framed s"
  shows "\<exists>s' t. enter_frame inp i lg s = Some s' \<and> er_calls (ms_rec s') = er_calls (ms_rec s) @
    [W_EnsureFunction (''external_call_depth_'' @ show_nat (log_depth lg)) (mi_main_path inp) 0, W_Call t]"
  using enter_frame_effect [OF assms, of inp i lg] by blast

theorem external_call_place_lost_witness:
  "\<exists>s' t. enter_frame example_multi_input 1 (example_log 0 2)
            ((multi_state_init 1 evm_recorder_new)\<lparr>ms_prev_line := Some (0, 17, 3)\<rparr>) = Some s' \<and>
    er_calls (ms_rec s') = [W_EnsureFunction ''external_call_depth_2'' ''A.sol'' 0, W_Call t]"
proof -
  let ?s = "(multi_state_init 1 evm_recorder_new)\<lparr>ms_prev_line := Some (0, 17, 3)\<rparr>"
  have "framed ?s" using synchronised_init [of 1 evm_recorder_new]
    by (simp add: synchronised_def framed_def multi_state_init_def)
  moreover have "show_nat 2 = ''2''" by code_simp
  ultimately show ?thesis
    using external_call_place_lost [of ?s example_multi_input 1 "example_log 0 2"]
    by (simp add: example_log_def multi_state_init_def evm_recorder_new_def example_multi_input_def)
qed

text \<open>
  A DELEGATECALL made from a frame that was itself entered by DELEGATECALL names storage slots
  by the layout of that frame's implementation, not by the layout of the contract whose storage
  both of them write: the proxy of the outer frame plays no part.
\<close>

theorem nested_delegatecall_layout:
  assumes "framed s" and "ms_frames s = frames @ [f]"
    and "previous_log (mi_logs inp) i = Some l" and "log_op l = ''DELEGATECALL''"
    and "log_stack l = Some stk" and "2 \<le> length stk"
    and "registry_get (mi_registry inp) (address_of_word (stk ! (length stk - 2))) = Some impl"
  shows "\<exists>s'. enter_frame inp i lg s = Some s' \<and>
    cs_source_map (frame_source inp (ms_frames s')) = Some (ca_source_map impl) \<and>
    cs_storage_layout (frame_source inp (ms_frames s')) =
      (case cr_contracts (mi_registry inp) (fc_address f) of None \<Rightarrow> None | Some a \<Rightarrow> ca_storage_layout a)"
proof -
  have "entered_target (mi_logs inp) i (ms_frames s) =
      (address_of_word (stk ! (length stk - 2)), DelegateCall, True, Some (fc_address f))"
    using assms(2-6) by (simp add: entered_target_def call_target_def Let_def)
  with enter_frame_effect [OF assms(1), of inp i lg] obtain s' where
    s': "enter_frame inp i lg s = Some s'" and
    fr: "ms_frames s' = ms_frames s @ [\<lparr>fc_address = address_of_word (stk ! (length stk - 2)),
      fc_is_delegate = True, fc_delegate_proxy = Some (fc_address f)\<rparr>]"
    by (auto simp: enter_frame_def grow_tables_def Let_def ensure_function_id_def split: option.splits)
  with assms(7) show ?thesis
    by (simp add: frame_source_def get_delegatecall_def Let_def)
qed

text \<open>An example: a proxy at 1, its implementation at 7, a library at 9.\<close>

definition example_artifacts :: "string \<Rightarrow> contract_artifacts" where
  "example_artifacts label = \<lparr>ca_name = label, ca_source_map = source_map_parse [], ca_runtime_bytecode = [],
     ca_pc_to_idx = [], ca_source_paths = [], ca_source_contents = [],
     ca_storage_layout = Some \<lparr>sl_storage = [example_entry label ''0'' ''t_uint256''], sl_types = (\<lambda>_. None)\<rparr>,
     ca_solidity_ast = None\<rparr>"

definition example_registry :: contract_registry where
  "example_registry = register 1 (example_artifacts ''owner'')
     (register 7 (example_artifacts ''total'') (register 9 (example_artifacts ''x'') registry_new))"

lemma example_registry_contracts:
  "cr_contracts example_registry 1 = Some (example_artifacts ''owner'')"
  "cr_contracts example_registry 7 = Some (example_artifacts ''total'')"
  "cr_contracts example_registry 9 = Some (example_artifacts ''x'')"
  by (simp_all add: example_registry_def registry.lookup_update)

theorem nested_delegatecall_layout_witness:
  "\<exists>s'. enter_frame (example_multi_input\<lparr>mi_registry := example_registry,
           mi_logs := [(example_log 0 2)\<lparr>log_op := ''DELEGATECALL'', log_stack := Some [9, 0]\<rparr>]\<rparr>)
         1 (example_log 0 3)
         ((multi_state_init 1 evm_recorder_new)\<lparr>ms_frames :=
            [\<lparr>fc_address = 7, fc_is_delegate = True, fc_delegate_proxy = Some 1\<rparr>]\<rparr>) = Some s' \<and>
    map_option (\<lambda>l. map se_label (sl_storage l))
      (cs_storage_layout (frame_source (example_multi_input\<lparr>mi_registry := example_registry\<rparr>) (ms_frames s')))
      = Some [''total'']"
proof -
  let ?l = "(example_log 0 2)\<lparr>log_op := ''DELEGATECALL'', log_stack := Some [9, 0]\<rparr>"
  let ?inp = "example_multi_input\<lparr>mi_registry := example_registry, mi_logs := [?l]\<rparr>"
  let ?f = "\<lparr>fc_address = 7, fc_is_delegate = True, fc_delegate_proxy = Some 1\<rparr>"
  let ?s = "(multi_state_init 1 evm_recorder_new)\<lparr>ms_frames := [?f]\<rparr>"
  have f: "framed ?s" "ms_frames ?s = [] @ [?f]"
    using synchronised_init [of 1 evm_recorder_new]
    by (simp_all add: synchronised_def framed_def multi_state_init_def)
  have p: "previous_log (mi_logs ?inp) 1 = Some ?l" "log_op ?l = ''DELEGATECALL''" "log_stack ?l = Some [9, 0]"
    by (simp_all add: previous_log_def vec_get_def)
  have r: "registry_get (mi_registry ?inp) (address_of_word ([9, 0] ! (length [9, 0 :: u256] - 2)))
      = Some (example_artifacts ''x'')"
    by (simp add: registry_get_def address_of_word_def example_registry_contracts)
  have src: "frame_source (example_multi_input\<lparr>mi_registry := example_registry\<rparr>) fs = frame_source ?inp fs" for fs
    by (simp add: frame_source_def Let_def example_multi_input_def split: option.split)
  have two: "2 \<le> length [9, 0 :: u256]" by simp
  obtain s' where s': "enter_frame ?inp 1 (example_log 0 3) ?s = Some s'"
    "cs_storage_layout (frame_source ?inp (ms_frames s')) =
      (case cr_contracts (mi_registry ?inp) (fc_address ?f) of None \<Rightarrow> None | Some a \<Rightarrow> ca_storage_layout a)"
    using nested_delegatecall_layout [OF f p two r, of "example_log 0 3"] by (elim exE conjE)
  from s'(2) have "map_option (\<lambda>l. map se_label (sl_storage l)) (cs_storage_layout (frame_source ?inp (ms_frames s')))
      = Some [''total'']"
    by (simp add: example_registry_contracts example_artifacts_def example_entry_def)
  with s'(1) show ?thesis unfolding src by (intro exI conjI)
qed

end
