(* ===== verification/Recorder_Types.thy ===== *)
theory Recorder_Types
  imports Recorder_Multi
begin

text \<open>
  The typing discipline of the written trace: a value names the identifier of its type, and the
  writer hands identifiers out in answer to \<open>ensure_type_id\<close>. The judgement \<open>typed_value\<close> says that
  the identifier of a value was handed out earlier in the log for a type of a kind that fits the
  value; \<open>well_typed\<close> says it of every value of a log. \<open>session_of\<close> runs the protocol of the writer over a log. Both recorders
  write well typed traces and keep to the protocol.
\<close>

section \<open>The judgements\<close>

definition issued :: "writer_env \<Rightarrow> wcall list \<Rightarrow> nat \<Rightarrow> type_kind \<Rightarrow> bool" where
  "issued env cs t k \<longleftrightarrow> (\<exists>before after n. cs = before @ W_EnsureType k n # after \<and> we_type_id env before k n = t)"

inductive typed_value :: "writer_env \<Rightarrow> wcall list \<Rightarrow> value_record \<Rightarrow> bool" for env cs where
  typed_Int: "issued env cs t TkInt \<Longrightarrow> typed_value env cs (VInt i t)"
| typed_Raw: "issued env cs t k \<Longrightarrow> typed_value env cs (VRaw r t)"
| typed_Struct: "issued env cs t TkStruct \<Longrightarrow> \<forall>v\<in>set vs. typed_value env cs v \<Longrightarrow>
     typed_value env cs (VStruct vs t)"
| typed_Sequence: "issued env cs t TkArray \<Longrightarrow> \<forall>v\<in>set vs. typed_value env cs v \<Longrightarrow>
     typed_value env cs (VSequence vs sl t)"
| typed_None: "typed_value env cs VNone"

inductive_cases typed_StructE: "typed_value env cs (VStruct vs t)"
inductive_cases typed_SequenceE: "typed_value env cs (VSequence vs sl t)"

inductive_simps typed_value_simps:
  "typed_value env cs (VInt i t)" "typed_value env cs (VRaw r t)" "typed_value env cs VNone"

fun call_value :: "wcall \<Rightarrow> value_record option" where
  "call_value (W_Variable n v) = Some v"
| "call_value (W_Arg n v) = Some v"
| "call_value (W_Return v) = Some v"
| "call_value c = None"

inductive well_typed :: "writer_env \<Rightarrow> wcall list \<Rightarrow> bool" for env where
  well_typed_Nil: "well_typed env []"
| well_typed_snoc: "well_typed env cs \<Longrightarrow> (\<And>v. call_value c = Some v \<Longrightarrow> typed_value env cs v) \<Longrightarrow>
     well_typed env (cs @ [c])"

text \<open>
  The order of the calls to the writer: opened, told to record columns before anything else,
  given the types and the lengths of the lines, started once, fed the recording, finished, described
  and closed.
\<close>

datatype session = Unopened | Opened | Column_Aware | Recording | Finished | Described | Closed

fun body_call :: "wcall \<Rightarrow> bool" where
  "body_call (W_PathLineLengths p ls) = True"
| "body_call (W_EnsureType k n) = True"
| "body_call (W_EnsureFunction n p l) = True"
| "body_call (W_Step p l k) = True"
| "body_call (W_Variable n v) = True"
| "body_call (W_Arg n v) = True"
| "body_call (W_Call f) = True"
| "body_call (W_Return v) = True"
| "body_call (W_Event ek m t) = True"
| "body_call c = False"

fun setup_call :: "wcall \<Rightarrow> bool" where
  "setup_call W_ColumnBreakpoints = True"
| "setup_call W_ColumnMotions = True"
| "setup_call (W_RegisterType k n) = True"
| "setup_call (W_PathLineLengths p ls) = True"
| "setup_call c = False"

definition session_step :: "session \<Rightarrow> wcall \<Rightarrow> session option" where
  "session_step s c =
     (case s of
        Unopened \<Rightarrow> (case c of W_Begin p \<Rightarrow> Some Opened | _ \<Rightarrow> None)
      | Opened \<Rightarrow> (if c = W_ColumnSteps then Some Column_Aware else None)
      | Column_Aware \<Rightarrow> (case c of W_Start p l \<Rightarrow> Some Recording
                                | _ \<Rightarrow> if setup_call c then Some Column_Aware else None)
      | Recording \<Rightarrow> if c = W_Finish then Some Finished else if body_call c then Some Recording else None
      | Finished \<Rightarrow> (case c of W_MetaDat n \<Rightarrow> Some Described | _ \<Rightarrow> None)
      | Described \<Rightarrow> if c = W_Close then Some Closed else None
      | Closed \<Rightarrow> None)"

definition session_of :: "wcall list \<Rightarrow> session option" where
  "session_of cs = foldl (\<lambda>s c. Option.bind s (\<lambda>x. session_step x c)) (Some Unopened) cs"

section \<open>Lemmas\<close>

lemma session_of_simps [simp]:
  "session_of [] = Some Unopened"
  "session_of (cs @ [c]) = Option.bind (session_of cs) (\<lambda>s. session_step s c)"
  by (simp_all add: session_of_def)

lemma session_step_body [simp]: "body_call c \<Longrightarrow> session_step Recording c = Some Recording"
  by (cases c) (simp_all add: session_step_def)

lemma session_step_setup: "setup_call c \<Longrightarrow> session_step Column_Aware c = Some Column_Aware"
  by (cases c) (simp_all add: session_step_def)

lemma issued_append: "issued env cs t k \<Longrightarrow> issued env (cs @ ds) t k"
  unfolding issued_def by fastforce

lemma issued_snoc: "issued env (cs @ [W_EnsureType k n]) (we_type_id env cs k n) k"
  unfolding issued_def by fastforce

lemma typed_value_append: "typed_value env cs v \<Longrightarrow> typed_value env (cs @ ds) v"
  by (induction rule: typed_value.induct) (auto intro: typed_value.intros issued_append)

subsection \<open>Operations of the recorder\<close>

text \<open>An operation that only adds to the log and keeps it well typed.\<close>

definition extends :: "writer_env \<Rightarrow> evm_recorder \<Rightarrow> evm_recorder \<Rightarrow> bool" where
  "extends env r r' \<longleftrightarrow> (\<exists>ds. er_calls r' = er_calls r @ ds) \<and>
     (well_typed env (er_calls r) \<longrightarrow> well_typed env (er_calls r')) \<and>
     (session_of (er_calls r) = Some Recording \<longrightarrow> session_of (er_calls r') = Some Recording)"

lemma extends_refl [simp]: "extends env r r"
  by (simp add: extends_def)

lemma extends_trans [trans]: "extends env r r1 \<Longrightarrow> extends env r1 r2 \<Longrightarrow> extends env r r2"
  by (auto simp: extends_def)

lemma extends_emit_value:
  "(\<And>v. call_value c = Some v \<Longrightarrow> typed_value env (er_calls r) v) \<Longrightarrow> body_call c \<Longrightarrow> extends env r (emit c r)"
  by (auto simp: extends_def intro: well_typed_snoc)

lemma extends_emit: "call_value c = None \<Longrightarrow> body_call c \<Longrightarrow> extends env r (emit c r)"
  by (rule extends_emit_value) simp_all

lemma extends_typed: "extends env r r' \<Longrightarrow> typed_value env (er_calls r) v \<Longrightarrow> typed_value env (er_calls r') v"
  by (auto simp: extends_def intro: typed_value_append)

lemma extends_issued: "extends env r r' \<Longrightarrow> issued env (er_calls r) t k \<Longrightarrow> issued env (er_calls r') t k"
  by (auto simp: extends_def intro: issued_append)

lemma ensure_type_id_issued:
  "ensure_type_id env k n r = (t, r') \<Longrightarrow> extends env r r' \<and> issued env (er_calls r') t k"
  by (auto simp: ensure_type_id_def intro: extends_emit issued_snoc)

lemma ensure_function_id_extends: "ensure_function_id env n p l r = (f, r') \<Longrightarrow> extends env r r'"
  by (auto simp: ensure_function_id_def intro: extends_emit)

lemma extends_paths: "extends env r (r\<lparr>er_paths := ps\<rparr>)"
  by (simp add: extends_def)

lemma extends_names: "extends env r (r\<lparr>er_type_names := ns\<rparr>)"
  by (simp add: extends_def)

lemma extends_ensure_path: "extends env r (ensure_path_with_line_lengths p src r)"
  unfolding ensure_path_with_line_lengths_def Let_def
  by (auto intro: extends_trans [OF extends_emit extends_paths] extends_emit extends_trans [OF extends_paths extends_emit])

lemma extends_fold:
  assumes "\<And>x r'. x \<in> set xs \<Longrightarrow> extends env r r' \<Longrightarrow> extends env r' (f x r')"
  shows "extends env r (fold f xs r)"
proof -
  have "extends env r r0 \<Longrightarrow> set ys \<subseteq> set xs \<Longrightarrow> extends env r (fold f ys r0)" for ys r0
  proof (induction ys arbitrary: r0)
    case Nil
    then show ?case by simp
  next
    case (Cons y ys)
    have "extends env r0 (f y r0)" using Cons.prems assms by simp
    with Cons show ?case by (simp add: extends_trans [OF Cons.prems(1)])
  qed
  then show ?thesis by simp
qed

lemma value_record_for_local_typed:
  "issued env cs t (type_kind_for_solidity_type ty) \<Longrightarrow> typed_value env cs (value_record_for_local w ty t)"
  by (auto simp: value_record_for_local_def typed_value_simps Let_def)

lemma extends_emit_local: "extends env r (emit_local env t stk var r)"
proof (cases "st_get_variable_value (vd_name var) stk t")
  case None
  then show ?thesis by (simp add: emit_local_def)
next
  case (Some w)
  obtain ty r1 where ty: "ensure_type_id env (type_kind_for_solidity_type (vd_type_name var)) (vd_type_name var) r
      = (ty, r1)" by fastforce
  note e = ensure_type_id_issued [OF ty]
  have "extends env r1 (emit (W_Variable (vd_name var) (value_record_for_local w (vd_type_name var) ty)) r1)"
    using e by (intro extends_emit_value) (auto intro: value_record_for_local_typed)
  with e Some ty show ?thesis by (auto simp: emit_local_def intro: extends_trans)
qed

lemma extends_emit_locals: "extends env r (emit_locals env t stk vars r)"
  by (auto simp: emit_locals_def intro: extends_fold extends_emit_local split: option.split)

lemma extends_stage_args: "extends env r (stage_args env stk slot ps r)"
proof (induction ps arbitrary: slot r)
  case Nil
  then show ?case by simp
next
  case (Cons p ps)
  obtain ty r1 where ty: "ensure_type_id env (type_kind_for_solidity_type (vd_type_name p)) (vd_type_name p) r
      = (ty, r1)" by fastforce
  note e = ensure_type_id_issued [OF ty]
  have "extends env r1 (emit (W_Arg (vd_name p) (VRaw (hex_u256 (stk ! slot)) ty)) r1)"
    using e by (intro extends_emit_value) (auto simp: typed_value_simps)
  with e Cons.IH ty show ?case by (auto intro: extends_trans)
qed

lemma extends_stage_internal: "extends env r (snd (stage_internal_call_args env t fn stk k r))"
  by (simp add: stage_internal_call_args_def Let_def extends_stage_args split: option.split)

lemma member_values_typed:
  "member_values t base vals ms = Some vs \<Longrightarrow> issued env cs t k \<Longrightarrow> \<forall>v\<in>set vs. typed_value env cs v"
  by (induction ms arbitrary: vs) (auto simp: Let_def intro: typed_Raw split: option.splits)

lemma build_compound_value_typed:
  assumes "build_compound_value env ti base n vals r = (c, r')"
  shows "extends env r r' \<and> (\<forall>v. c = Some v \<longrightarrow> typed_value env (er_calls r') v)"
proof -
  obtain t1 r1 where 1: "ensure_type_id env TkInt ''uint256'' r = (t1, r1)" by fastforce
  obtain t2 r2 where 2: "ensure_type_id env TkStruct (ti_label ti) r1 = (t2, r2)" by fastforce
  obtain t3 r3 where 3: "ensure_type_id env TkArray (ti_label ti) r1 = (t3, r3)" by fastforce
  note e1 = ensure_type_id_issued [OF 1] and e2 = ensure_type_id_issued [OF 2]
    and e3 = ensure_type_id_issued [OF 3]
  have i: "issued env (er_calls r2) t1 TkInt" "issued env (er_calls r3) t1 TkInt"
    using e1 e2 e3 by (auto intro: extends_issued)
  show ?thesis
    using assms 1 2 3 e1 e2 e3 i
    by (auto simp: build_compound_value_def Let_def split: option.splits if_splits
        intro: extends_trans typed_Raw intro!: typed_Struct typed_Sequence dest: member_values_typed)
qed

lemma extends_events: "extends env r (record_events lg r)"
proof -
  have "extends env r (record_log_event lg r)" "extends env r (record_selfdestruct lg r)"
    "extends env r (record_precompile lg r)" for r
    by (simp_all add: record_log_event_def record_selfdestruct_def record_precompile_def extends_emit
        split: option.split prod.split)
  then show ?thesis unfolding record_events_def by (blast intro: extends_trans)
qed

subsection \<open>States\<close>

text \<open>A log, the identifier of \<open>uint256\<close> and the values kept for later are all in order.\<close>

definition sound :: "writer_env \<Rightarrow> nat \<Rightarrow> evm_recorder \<Rightarrow> value_record set \<Rightarrow> bool" where
  "sound env t r V \<longleftrightarrow> well_typed env (er_calls r) \<and> session_of (er_calls r) = Some Recording \<and> issued env (er_calls r) t TkInt \<and>
     (\<forall>v\<in>V. typed_value env (er_calls r) v)"

lemma sound_extends: "sound env t r V \<Longrightarrow> extends env r r' \<Longrightarrow> V' \<subseteq> V \<Longrightarrow> sound env t r' V'"
  by (auto simp: sound_def extends_def intro: issued_append) (meson subsetD typed_value_append)

lemma sound_insert: "sound env t r V \<Longrightarrow> typed_value env (er_calls r) v \<Longrightarrow> V' \<subseteq> insert v V \<Longrightarrow> sound env t r V'"
  by (auto simp: sound_def)

lemma sound_typed: "sound env t r V \<Longrightarrow> v \<in> V \<Longrightarrow> typed_value env (er_calls r) v"
  by (simp add: sound_def)

lemma extends_return: "sound env t r V \<Longrightarrow> extends env r (emit (W_Return (empty_return t)) r)"
  by (rule extends_emit_value) (auto simp: sound_def empty_return_def intro: typed_Raw)

lemma extends_variable: "typed_value env (er_calls r) v \<Longrightarrow> extends env r (emit (W_Variable n v) r)"
  by (rule extends_emit_value) simp_all

text \<open>Iterating over a hash map yields entries of it.\<close>

definition order_ok :: "writer_env \<Rightarrow> bool" where
  "order_ok env \<longleftrightarrow> (\<forall>xs. set (we_order env xs) \<subseteq> set xs)"

lemma extends_emit_storage:
  assumes "order_ok env" "\<forall>v\<in>snd ` set st. typed_value env (er_calls r) v"
  shows "extends env r (emit_storage env st r)"
  unfolding emit_storage_def
proof (rule extends_fold)
  fix x r'
  assume x: "x \<in> set (we_order env st)" and e: "extends env r r'"
  then have "typed_value env (er_calls r) (snd x)" using assms by (auto simp: order_ok_def)
  with e show "extends env r' ((\<lambda>(n, v). emit (W_Variable n v)) x r')"
    by (auto simp: split_beta intro: extends_variable extends_typed)
qed

lemma values_update: "snd ` set (AList.update n v st) \<subseteq> insert v (snd ` set st)"
  by (induction st) auto

lemma extends_path: 
  "extends env r (case c of Some src \<Rightarrow> ensure_path_with_line_lengths p src r | None \<Rightarrow> r)"
  by (simp add: extends_ensure_path split: option.split)

lemma extends_step_path:
  "extends env r (emit (W_Step q l k) (case c of Some src \<Rightarrow> ensure_path_with_line_lengths p src r | None \<Rightarrow> r))"
  by (rule extends_trans [OF extends_path extends_emit]) simp_all

subsection \<open>The single contract loop\<close>

definition kept_values :: "rec_state \<Rightarrow> value_record set" where
  "kept_values s = snd ` set (rs_storage s)"

definition sound_state :: "rec_input \<Rightarrow> rec_state \<Rightarrow> bool" where
  "sound_state inp s \<longleftrightarrow> sound (ri_env inp) (ri_uint256_type_id inp) (rs_rec s) (kept_values s)"

text \<open>Blocks that neither return nor store.\<close>

definition calm :: "rec_input \<Rightarrow> rec_state \<Rightarrow> rec_state \<Rightarrow> bool" where
  "calm inp s s' \<longleftrightarrow> extends (ri_env inp) (rs_rec s) (rs_rec s') \<and> rs_storage s' = rs_storage s"

lemma calm_sound: "calm inp s s' \<Longrightarrow> sound_state inp s \<Longrightarrow> sound_state inp s'"
  by (auto simp: calm_def sound_state_def kept_values_def intro: sound_extends)

lemma calm_trans: "calm inp s s1 \<Longrightarrow> calm inp s1 s2 \<Longrightarrow> calm inp s s2"
  by (auto simp: calm_def intro: extends_trans)

lemma calm_refl [simp]: "calm inp s s"
  by (simp add: calm_def)

lemma calm_on_rec: "(\<And>r. extends (ri_env inp) r (f r)) \<Longrightarrow> calm inp s (on_rec f s)"
  by (simp add: calm_def on_rec_def)

lemma calm_grow_trackers: "calm inp s (grow_trackers d s)"
  by (simp add: calm_def grow_trackers_def)

lemma calm_enter_external: "calm inp s (enter_external inp lg s)"
  by (simp add: calm_def enter_external_def grow_trackers_def ensure_function_id_def Let_def
      extends_trans [OF extends_emit extends_emit])

lemma calm_report_inner_revert: "calm inp s (report_inner_revert inp i s)"
  by (simp add: calm_def report_inner_revert_def on_rec_def extends_emit Let_def split: option.split)

lemma calm_track_stack: "calm inp s (track_stack idx op off vars s)"
  by (simp add: calm_def track_stack_def)

lemma calm_track_memory: "calm inp s (track_memory idx op off vars lg s)"
  by (simp add: calm_def track_memory_def Let_def)

lemma calm_track_locals: "calm inp s (track_locals inp i lg fi off idx s)"
proof -
  have "calm inp s (on_rec (emit_locals (ri_env inp) t stk vars)
      (track_memory idx op o' vars lg (track_stack idx op o' vars s)))" for t stk vars op o'
    by (rule calm_trans [OF calm_trans [OF calm_track_stack calm_track_memory] calm_on_rec])
      (rule extends_emit_locals)
  then show ?thesis
    by (simp add: track_locals_def Let_def calm_track_stack split: option.split)
qed

lemma calm_absorb_call: "calm inp s (absorb_call inp i loc idx s)"
  by (simp add: calm_def absorb_call_def on_rec_def extends_emit Let_def split: option.split)

lemma calm_internal_call: "calm inp s (internal_call inp i lg loc idx s)"
proof -
  define fn_name where "fn_name = (case internal_target inp i of
      Some f \<Rightarrow> display_name (ri_ast inp) f | None \<Rightarrow> fallback_name inp i)"
  let ?p = "path_at (ri_source_paths inp) (ri_main_path inp) (loc_file_index loc)"
  let ?r1 = "emit (W_EnsureFunction fn_name ?p (loc_line loc)) (rs_rec s)"
  obtain t r2 where st: "stage_internal_call_args (ri_env inp) (rs_stacks s ! idx) (internal_target inp i)
      (log_stack lg) 1 ?r1 = (t, r2)" by fastforce
  then have "extends (ri_env inp) ?r1 r2" by (metis extends_stage_internal snd_conv)
  then have "extends (ri_env inp) (rs_rec s) (emit (W_Call f) r2)" for f
    by (rule extends_trans [OF extends_emit extends_trans [OF _ extends_emit], rotated 2]) simp_all
  with st show ?thesis
    by (simp add: internal_call_def ensure_function_id_def Let_def calm_def flip: fn_name_def)
qed

lemma internal_return_sound: "sound_state inp s \<Longrightarrow> sound_state inp (internal_return inp idx s)"
  by (auto simp: sound_state_def internal_return_def reset_tracker_def on_rec_def kept_values_def Let_def
      intro: sound_extends [OF _ extends_return])

lemma leave_frame_sound: "sound_state inp s \<Longrightarrow> sound_state inp (leave_frame inp s)"
  by (auto simp: sound_state_def leave_frame_def on_rec_def kept_values_def
      intro: sound_extends [OF _ extends_return])

lemma depth_change_sound:
  assumes "sound_state inp s"
  shows "sound_state inp (depth_change inp i lg s)"
proof -
  have "sound_state inp ((leave_frame inp ^^ k) s1)" if "sound_state inp s1" for k s1
    using that by (induction k) (auto intro: leave_frame_sound)
  from this [OF calm_sound [OF calm_report_inner_revert assms]] calm_sound [OF calm_enter_external assms] assms
  show ?thesis by (simp add: depth_change_def)
qed

lemma follow_jump_sound: "sound_state inp s \<Longrightarrow> sound_state inp (follow_jump inp i lg loc idx s)"
  by (auto simp: follow_jump_def intro: calm_sound calm_absorb_call calm_internal_call internal_return_sound
      split: option.split jump_type.split)

lemma emit_step_sound:
  assumes "order_ok (ri_env inp)" "sound_state inp s"
  shows "sound_state inp (emit_step inp loc s)"
proof -
  let ?r2 = "\<lambda>p c. emit (W_Step p (loc_line loc) (loc_column loc + 1))
      (case c of Some src \<Rightarrow> ensure_path_with_line_lengths p src (rs_rec s) | None \<Rightarrow> rs_rec s)"
  have 2: "extends (ri_env inp) (rs_rec s) (?r2 p c)" for p c
    by (rule extends_step_path)
  moreover have "\<forall>v\<in>snd ` set (rs_storage s). typed_value (ri_env inp) (er_calls (?r2 p c)) v" for p c
    using assms(2) extends_typed [OF 2] by (auto simp: sound_state_def sound_def kept_values_def)
  then have "extends (ri_env inp) (rs_rec s) (emit_storage (ri_env inp) (rs_storage s) (?r2 p c))" for p c
    by (rule extends_trans [OF 2 extends_emit_storage [OF assms(1)]])
  ultimately have "calm inp s (emit_step inp loc s)" by (simp add: calm_def emit_step_def Let_def)
  then show ?thesis using assms(2) by (rule calm_sound)
qed

lemma locate_sound:
  assumes "order_ok (ri_env inp)" "sound_state inp s"
  shows "sound_state inp (locate inp i lg idx s)"
  using assms
  by (auto simp: locate_def Let_def intro: follow_jump_sound calm_sound [OF calm_track_locals] emit_step_sound
      calm_sound [OF calm_track_stack] split: option.split)

lemma store_variable_sound:
  assumes "sound_state inp s" "typed_value (ri_env inp) (er_calls (rs_rec s)) v"
  shows "sound_state inp (store_variable n v s)"
proof -
  have e: "extends (ri_env inp) (rs_rec s) (emit (W_Variable n v) (rs_rec s))"
    using assms(2) by (rule extends_variable)
  have "sound (ri_env inp) (ri_uint256_type_id inp) (emit (W_Variable n v) (rs_rec s)) (kept_values s)"
    using assms(1) e by (auto simp: sound_state_def intro: sound_extends)
  from sound_insert [OF this extends_typed [OF e assms(2)] values_update [of n v "rs_storage s", folded kept_values_def]] show ?thesis
    by (simp add: sound_state_def store_variable_def on_rec_def kept_values_def)
qed

lemma store_compound_sound:
  assumes "sound_state inp s"
  shows "sound_state inp (store_compound inp layout slot s)"
proof (cases "containing_compound layout slot")
  case None
  with assms show ?thesis by (simp add: store_compound_def)
next
  case (Some c)
  obtain parent parent_ti n where c: "c = (parent, parent_ti, n)" by (cases c)
  obtain compound r1 where b: "build_compound_value (ri_env inp) parent_ti
      (case parse_u64 (se_slot parent) of Some b \<Rightarrow> b | None \<Rightarrow> 0) n (rs_slot_values s) (rs_rec s)
        = (compound, r1)" by fastforce
  note t = build_compound_value_typed [OF b]
  then have "calm inp s (s\<lparr>rs_rec := r1\<rparr>)" by (simp add: calm_def)
  from calm_sound [OF this assms] have "sound_state inp (s\<lparr>rs_rec := r1\<rparr>)" .
  with Some c b t show ?thesis
    by (auto simp: store_compound_def Let_def intro: store_variable_sound split: option.split)
qed

lemma record_sstore_sound:
  assumes "sound_state inp s"
  shows "sound_state inp (record_sstore inp lg s)"
proof -
  have 1: "sound_state inp (store_variable m (VRaw w (fst (ensure_type_id (ri_env inp) TkInt ty (rs_rec s))))
      (s\<lparr>rs_rec := snd (ensure_type_id (ri_env inp) TkInt ty (rs_rec s))\<rparr>))" for m w ty
  proof -
    obtain t r1 where e: "ensure_type_id (ri_env inp) TkInt ty (rs_rec s) = (t, r1)" by fastforce
    note i = ensure_type_id_issued [OF e]
    then have "calm inp s (s\<lparr>rs_rec := r1\<rparr>)" by (simp add: calm_def)
    from calm_sound [OF this assms] have "sound_state inp (s\<lparr>rs_rec := r1\<rparr>)" .
    from store_variable_sound [OF this, of "VRaw w t" m] e i show ?thesis by (auto intro: typed_Raw)
  qed
  have 2: "sound_state inp (s1\<lparr>rs_slot_values := vals\<rparr>)" if "sound_state inp s1" for s1 vals
    using that by (simp add: sound_state_def kept_values_def)
  show ?thesis
    using assms 1
    by (auto simp: record_sstore_def Let_def split_beta intro!: store_compound_sound 2 split: option.split)
qed

lemma log_step_sound:
  assumes "order_ok (ri_env inp)" "sound_state inp s" "log_step inp i lg s = Some s'"
  shows "sound_state inp s'"
proof -
  have k: "calm inp s1 (record_keccak inp lg s1)" for s1
    by (simp add: calm_def record_keccak_def split: option.split)
  have d: "sound_state inp (s1\<lparr>rs_prev_depth := d\<rparr>)" if "sound_state inp s1" for s1 d
    using that by (simp add: sound_state_def kept_values_def)
  let ?s1 = "grow_trackers (log_depth lg) (depth_change inp i lg s)"
  have "sound_state inp (locate inp i lg (log_depth lg - 1) ?s1)"
    using assms by (intro locate_sound calm_sound [OF calm_grow_trackers] depth_change_sound)
  then have "sound_state inp (on_rec (record_events lg)
      (record_sstore inp lg (record_keccak inp lg (locate inp i lg (log_depth lg - 1) ?s1))))"
    by (intro calm_sound [OF calm_on_rec [OF extends_events]] record_sstore_sound calm_sound [OF k])
  from d [OF this] assms(3) show ?thesis by (auto simp: log_step_def Let_def split: if_splits)
qed

lemma log_loop_sound:
  "order_ok (ri_env inp) \<Longrightarrow> sound_state inp s \<Longrightarrow> log_loop inp i logs s = Some s' \<Longrightarrow> sound_state inp s'"
  by (induction logs arbitrary: i s) (auto dest: log_step_sound split: option.splits)

subsection \<open>The multi contract loop\<close>

definition kept_in :: "(string \<times> value_record) list list \<Rightarrow> value_record set" where
  "kept_in sts = (\<Union>st\<in>set sts. snd ` set st)"

definition kept_multi :: "multi_state \<Rightarrow> value_record set" where
  "kept_multi s = kept_in (ms_storage_states s)"

definition sound_multi :: "multi_input \<Rightarrow> multi_state \<Rightarrow> bool" where
  "sound_multi inp s \<longleftrightarrow> sound (mi_env inp) (mi_uint256_type_id inp) (ms_rec s) (kept_multi s)"

definition calm_multi :: "multi_input \<Rightarrow> multi_state \<Rightarrow> multi_state \<Rightarrow> bool" where
  "calm_multi inp s s' \<longleftrightarrow> extends (mi_env inp) (ms_rec s) (ms_rec s') \<and> kept_multi s' \<subseteq> kept_multi s"

lemma calm_multi_sound: "calm_multi inp s s' \<Longrightarrow> sound_multi inp s \<Longrightarrow> sound_multi inp s'"
  by (auto simp: calm_multi_def sound_multi_def intro: sound_extends)

lemma calm_multi_refl [simp]: "calm_multi inp s s"
  by (simp add: calm_multi_def)

lemma calm_multi_trans: "calm_multi inp s s1 \<Longrightarrow> calm_multi inp s1 s2 \<Longrightarrow> calm_multi inp s s2"
  by (auto simp: calm_multi_def intro: extends_trans)

lemma calm_on_multi: "(\<And>r. extends (mi_env inp) r (f r)) \<Longrightarrow> calm_multi inp s (on_multi f s)"
  by (simp add: calm_multi_def on_multi_def kept_multi_def)

lemma frame_input_simps [simp]:
  "ri_env (frame_input inp cur sm) = mi_env inp"
  "ri_uint256_type_id (frame_input inp cur sm) = mi_uint256_type_id inp"
  by (simp_all add: frame_input_def)

lemma kept_grow: "kept_in (grow n [] v) = kept_in v"
  by (auto simp: grow_def kept_in_def)

lemma kept_pop: "kept_in (pop_keep v) \<subseteq> kept_in v"
  by (auto simp: kept_in_def pop_keep_def dest!: in_set_butlastD)

lemma kept_mem: "st \<in> set v \<Longrightarrow> snd ` set st \<subseteq> kept_in v"
  by (auto simp: kept_in_def)

lemma calm_enter_frame:
  assumes "enter_frame inp i lg s = Some s'"
  shows "calm_multi inp s s'"
proof -
  have "ms_storage_states s' = grow (log_depth lg) [] (ms_storage_states s) \<and>
      extends (mi_env inp) (ms_rec s) (ms_rec s')"
    using assms
    by (auto simp: enter_frame_def grow_tables_def Let_def ensure_function_id_def
        extends_trans [OF extends_emit extends_emit] split: prod.splits option.splits)
  then show ?thesis by (simp add: calm_multi_def kept_multi_def kept_grow)
qed

lemma exit_frames_sound: "exit_frames inp i k s = Some s' \<Longrightarrow> sound_multi inp s \<Longrightarrow> sound_multi inp s'"
proof (induction k arbitrary: s)
  case 0
  then show ?case by simp
next
  case (Suc k)
  then obtain s1 where s1: "exit_frame inp i s = Some s1" "exit_frames inp i k s1 = Some s'"
    by (auto split: option.splits)
  from Suc.prems(2) have "extends (mi_env inp) (ms_rec s) (emit (W_Return (empty_return (mi_uint256_type_id inp))) (ms_rec s))"
    unfolding sound_multi_def by (rule extends_return)
  with s1(1) have "calm_multi inp s s1"
    by (auto simp: exit_frame_def calm_multi_def kept_multi_def split: option.splits dest: subsetD [OF kept_pop])
  from Suc.IH [OF s1(2) calm_multi_sound [OF this Suc.prems(2)]] show ?case .
qed

lemma switch_frame_sound:
  assumes "switch_frame inp i lg s = Some s'" "sound_multi inp s"
  shows "sound_multi inp s'"
proof -
  have "sound_multi inp (s1\<lparr>ms_prev_line := l\<rparr>)" if "sound_multi inp s1" for s1 l
    using that by (simp add: sound_multi_def kept_multi_def)
  then show ?thesis
    using assms calm_multi_sound [OF calm_enter_frame assms(2)] exit_frames_sound [OF _ assms(2)]
    by (simp add: switch_frame_def split: if_splits) blast
qed

lemma calm_track_frame_stack: "calm_multi inp s (track_frame_stack idx op off vars s)"
  by (simp add: calm_multi_def track_frame_stack_def kept_multi_def)

lemma calm_track_frame_memory: "calm_multi inp s (track_frame_memory idx op off vars lg s)"
  by (simp add: calm_multi_def track_frame_memory_def kept_multi_def Let_def)

lemma calm_track_frame_locals:
  "calm_multi inp s (track_frame_locals (frame_input inp cur sm) lg fi off idx s)"
proof -
  have "calm_multi inp s (on_multi (emit_locals (mi_env inp) t stk vars)
      (track_frame_memory idx op o' vars lg (track_frame_stack idx op o' vars s)))" for t stk vars op o'
    by (rule calm_multi_trans [OF calm_multi_trans [OF calm_track_frame_stack calm_track_frame_memory] calm_on_multi])
      (rule extends_emit_locals)
  then show ?thesis
    by (simp add: track_frame_locals_def Let_def calm_track_frame_stack split: option.split)
qed

lemma calm_frame_internal_call:
  "calm_multi inp s (frame_internal_call (frame_input inp cur sm) i lg loc idx s)"
proof -
  let ?ri = "frame_input inp cur sm"
  define fn_name where "fn_name = (case internal_target ?ri i of
      Some f \<Rightarrow> display_name (ri_ast ?ri) f | None \<Rightarrow> fallback_name ?ri i)"
  let ?p = "path_at (ri_source_paths ?ri) (ri_main_path ?ri) (loc_file_index loc)"
  let ?r1 = "emit (W_EnsureFunction fn_name ?p (loc_line loc)) (ms_rec s)"
  obtain t r2 where st: "stage_internal_call_args (mi_env inp) (ms_stacks s ! idx) (internal_target ?ri i)
      (log_stack lg) 1 ?r1 = (t, r2)" by fastforce
  then have "extends (mi_env inp) ?r1 r2" by (metis extends_stage_internal snd_conv)
  then have "extends (mi_env inp) (ms_rec s) (emit (W_Call f) r2)" for f
    by (rule extends_trans [OF extends_emit extends_trans [OF _ extends_emit], rotated 2]) simp_all
  with st show ?thesis
    by (simp add: frame_internal_call_def ensure_function_id_def Let_def calm_multi_def kept_multi_def
        flip: fn_name_def)
qed

lemma frame_internal_return_sound:
  assumes "sound_multi inp s"
  shows "sound_multi inp (frame_internal_return (frame_input inp cur sm) idx s)"
proof -
  have "extends (mi_env inp) (ms_rec s) (emit (W_Return (empty_return (mi_uint256_type_id inp))) (ms_rec s))"
    using assms unfolding sound_multi_def by (rule extends_return)
  then have "calm_multi inp s (frame_internal_return (frame_input inp cur sm) idx s)"
    by (simp add: calm_multi_def frame_internal_return_def on_multi_def kept_multi_def)
  then show ?thesis using assms by (rule calm_multi_sound)
qed

lemma follow_frame_jump_sound:
  "sound_multi inp s \<Longrightarrow> sound_multi inp (follow_frame_jump (frame_input inp cur sm) i lg loc idx s)"
  by (auto simp: follow_frame_jump_def intro: calm_multi_sound [OF calm_frame_internal_call]
      frame_internal_return_sound split: option.split jump_type.split)

lemma emit_frame_step_sound:
  assumes "order_ok (mi_env inp)" "sound_multi inp s"
  shows "sound_multi inp (emit_frame_step (frame_input inp cur sm) loc k s)"
proof -
  let ?r2 = "\<lambda>p c. emit (W_Step p (loc_line loc) (loc_column loc + 1))
      (case c of Some src \<Rightarrow> ensure_path_with_line_lengths p src (ms_rec s) | None \<Rightarrow> ms_rec s)"
  have 2: "extends (mi_env inp) (ms_rec s) (?r2 p c)" for p c
    by (rule extends_step_path)
  have "\<forall>v\<in>snd ` set st. typed_value (mi_env inp) (er_calls (?r2 p c)) v"
    if "vec_get (ms_storage_states s) k = Some st" for p c st
  proof -
    have "st \<in> set (ms_storage_states s)" using that by (auto simp: vec_get_def split: if_splits)
    from kept_mem [OF this] assms(2) have "\<forall>v\<in>snd ` set st. typed_value (mi_env inp) (er_calls (ms_rec s)) v"
      by (auto simp: sound_multi_def sound_def kept_multi_def)
    then show ?thesis using extends_typed [OF 2] by blast
  qed
  then have "extends (mi_env inp) (ms_rec s) (emit_storage (mi_env inp) st (?r2 p c))"
    if "vec_get (ms_storage_states s) k = Some st" for p c st
    using that by (intro extends_trans [OF 2 extends_emit_storage [OF assms(1)]])
  with 2 have "calm_multi inp s (emit_frame_step (frame_input inp cur sm) loc k s)"
    by (simp add: calm_multi_def emit_frame_step_def kept_multi_def Let_def split: option.split)
  then show ?thesis using assms(2) by (rule calm_multi_sound)
qed

lemma locate_in_frame_sound:
  assumes "order_ok (mi_env inp)" "sound_multi inp s"
  shows "sound_multi inp (locate_in_frame inp i lg cur idx s)"
  using assms
  by (auto simp: locate_in_frame_def Let_def intro!: follow_frame_jump_sound
      calm_multi_sound [OF calm_track_frame_locals] emit_frame_step_sound
      calm_multi_sound [OF calm_track_frame_stack] split: option.split)

lemma kept_store:
  assumes "idx < length sts"
  shows "kept_in (sts[idx := AList.update n v (sts ! idx)]) \<subseteq> insert v (kept_in sts)"
proof
  fix w
  assume "w \<in> kept_in (sts[idx := AList.update n v (sts ! idx)])"
  then obtain st where st: "st \<in> set (sts[idx := AList.update n v (sts ! idx)])" "w \<in> snd ` set st"
    unfolding kept_in_def by blast
  then have "st = AList.update n v (sts ! idx) \<or> st \<in> set sts"
    using set_update_subset_insert by fastforce
  then show "w \<in> insert v (kept_in sts)"
    using st(2) values_update [of n v "sts ! idx"] kept_mem [of st sts] kept_mem [OF nth_mem [OF assms]] by blast
qed

lemma store_frame_variable_sound:
  assumes "sound_multi inp s" "typed_value (mi_env inp) (er_calls (ms_rec s)) v"
    and "idx < length (ms_storage_states s)"
  shows "sound_multi inp (store_frame_variable idx n v s)"
proof -
  have e: "extends (mi_env inp) (ms_rec s) (emit (W_Variable n v) (ms_rec s))"
    using assms(2) by (rule extends_variable)
  have "sound (mi_env inp) (mi_uint256_type_id inp) (emit (W_Variable n v) (ms_rec s)) (kept_multi s)"
    using assms(1) e by (auto simp: sound_multi_def intro: sound_extends)
  from sound_insert [OF this extends_typed [OF e assms(2)] kept_store [OF assms(3), of n v, folded kept_multi_def]]
  show ?thesis by (simp add: sound_multi_def store_frame_variable_def on_multi_def kept_multi_def)
qed

lemma store_frame_compound_sound:
  assumes "sound_multi inp s" "idx < length (ms_storage_states s)"
  shows "sound_multi inp (store_frame_compound inp layout idx slot s)"
proof (cases "containing_compound layout slot")
  case None
  with assms show ?thesis by (simp add: store_frame_compound_def)
next
  case (Some c)
  obtain parent parent_ti n where c: "c = (parent, parent_ti, n)" by (cases c)
  obtain compound r1 where b: "build_compound_value (mi_env inp) parent_ti
      (case parse_u64 (se_slot parent) of Some b \<Rightarrow> b | None \<Rightarrow> 0) n (ms_slot_values s ! idx) (ms_rec s)
        = (compound, r1)" by fastforce
  note t = build_compound_value_typed [OF b]
  then have "calm_multi inp s (s\<lparr>ms_rec := r1\<rparr>)" by (simp add: calm_multi_def kept_multi_def)
  from calm_multi_sound [OF this assms(1)] have s1: "sound_multi inp (s\<lparr>ms_rec := r1\<rparr>)" .
  from Some c b t s1 store_frame_variable_sound [OF s1] assms(2) show ?thesis
    by (auto simp: store_frame_compound_def Let_def split: option.split)
qed

lemma record_frame_sstore_sound:
  assumes "sound_multi inp s"
  shows "sound_multi inp (record_frame_sstore inp lg cur s)"
proof -
  define idx where "idx = log_depth lg - 1"
  define s1 where "s1 ty = s\<lparr>ms_rec := snd (ensure_type_id (mi_env inp) TkInt ty (ms_rec s)),
    ms_storage_states := grow (idx + 1) [] (ms_storage_states s),
    ms_slot_values := grow (idx + 1) (\<lambda>_. None) (ms_slot_values s)\<rparr>" for ty
  define t where "t ty = fst (ensure_type_id (mi_env inp) TkInt ty (ms_rec s))" for ty
  have e: "extends (mi_env inp) (ms_rec s) (ms_rec (s1 ty)) \<and> issued (mi_env inp) (er_calls (ms_rec (s1 ty))) (t ty) TkInt"
    for ty using ensure_type_id_issued [of "mi_env inp" TkInt ty "ms_rec s" "t ty" "emit (W_EnsureType TkInt ty) (ms_rec s)"]
    by (simp add: s1_def t_def ensure_type_id_def)
  then have "calm_multi inp s (s1 ty)" for ty
    by (simp add: calm_multi_def kept_multi_def s1_def kept_grow)
  from calm_multi_sound [OF this assms] have s1: "sound_multi inp (s1 ty)" for ty .
  have len: "idx < length (ms_storage_states (s1 ty))" for ty by (simp add: s1_def)
  have 2: "sound_multi inp (store_frame_variable idx m (VRaw w (t ty)) (s1 ty))" for m w ty
    using e s1 len by (intro store_frame_variable_sound) (auto intro: typed_Raw)
  have 3: "sound_multi inp (store_frame_compound inp layout idx slot
      ((store_frame_variable idx m (VRaw w (t ty)) (s1 ty))\<lparr>ms_slot_values := vals\<rparr>))"
    for layout slot m w ty vals
    using 2 [of m w ty] len [of ty]
    by (intro store_frame_compound_sound) (simp_all add: sound_multi_def kept_multi_def store_frame_variable_def on_multi_def)
  show ?thesis
    using assms 2 3
    unfolding record_frame_sstore_def Let_def split_beta idx_def [symmetric] s1_def [symmetric] t_def [symmetric]
    by (simp split: option.split)
qed

lemma multi_step_sound:
  assumes "order_ok (mi_env inp)" "sound_multi inp s" "multi_step inp i lg s = Some s'"
  shows "sound_multi inp s'"
proof -
  obtain s0 where s0: "switch_frame inp i lg s = Some s0" using assms(3)
    by (auto simp: multi_step_def split: option.splits)
  define s1 where "s1 = s0\<lparr>ms_stacks := grow (log_depth lg) stack_tracker_new (ms_stacks s0),
      ms_mems := grow (log_depth lg) memory_tracker_new (ms_mems s0)\<rparr>"
  define cur where "cur = frame_source inp (ms_frames s1)"
  have k: "calm_multi inp s2 (record_frame_keccak inp lg cur s2)" for s2
    by (simp add: calm_multi_def kept_multi_def record_frame_keccak_def Let_def split: option.split)
  have d: "sound_multi inp (s2\<lparr>ms_prev_depth := d\<rparr>)" if "sound_multi inp s2" for s2 d
    using that by (simp add: sound_multi_def kept_multi_def)
  have "sound_multi inp s1" using switch_frame_sound [OF s0 assms(2)]
    by (simp add: s1_def sound_multi_def kept_multi_def)
  then have "sound_multi inp (on_multi (record_events lg) (record_frame_sstore inp lg cur
      (record_frame_keccak inp lg cur (locate_in_frame inp i lg cur (log_depth lg - 1) s1))))"
    by (intro calm_multi_sound [OF calm_on_multi [OF extends_events]] record_frame_sstore_sound
        calm_multi_sound [OF k] locate_in_frame_sound assms(1))
  from d [OF this] assms(3) s0 show ?thesis
    by (auto simp: multi_step_def Let_def s1_def cur_def record_frame_events_eq split: if_splits)
qed

lemma multi_loop_sound:
  "order_ok (mi_env inp) \<Longrightarrow> sound_multi inp s \<Longrightarrow> multi_loop inp i logs s = Some s' \<Longrightarrow> sound_multi inp s'"
  by (induction logs arbitrary: i s) (auto dest: multi_step_sound split: option.splits)

section \<open>Property\<close>

lemma well_typed_plain: "well_typed env cs \<Longrightarrow> \<forall>c\<in>set ds. call_value c = None \<Longrightarrow> well_typed env (cs @ ds)"
proof (induction ds rule: rev_induct)
  case (snoc d ds)
  then have "well_typed env ((cs @ ds) @ [d])" by (intro well_typed_snoc) auto
  then show ?case by simp
qed simp

lemma session_setup: "\<forall>c\<in>set ds. setup_call c \<Longrightarrow> session_of cs = Some Column_Aware \<Longrightarrow>
    session_of (cs @ ds) = Some Column_Aware"
proof (induction ds rule: rev_induct)
  case (snoc d ds)
  then have "session_of ((cs @ ds) @ [d]) = Some Column_Aware" unfolding session_of_simps by (simp add: session_step_setup)
  then show ?case by simp
qed simp

text \<open>The recorder once it is initialised.\<close>

definition ready :: "writer_env \<Rightarrow> evm_recorder \<Rightarrow> bool" where
  "ready env r \<longleftrightarrow> well_typed env (er_calls r) \<and> session_of (er_calls r) = Some Column_Aware"

lemma initialize_ready:
  assumes "initialize_trace env d evm_recorder_new = (True, r)"
  shows "ready env r"
proof -
  have cs: "er_calls r = [] @ opening_calls d"
    using initialize_trace_calls [OF assms] by (simp add: evm_recorder_new_def)
  have "well_typed env ([] @ opening_calls d)"
    by (rule well_typed_plain [OF well_typed_Nil]) (auto simp: opening_calls_def)
  moreover have "session_of (([[]] ! 0 @ [W_Begin (path_join d ''trace.json'')]) @ [W_ColumnSteps]) = Some Column_Aware"
    unfolding session_of_simps by (simp add: session_step_def)
  then have "session_of ([W_Begin (path_join d ''trace.json''), W_ColumnSteps] @
      (W_ColumnBreakpoints # W_ColumnMotions # map (\<lambda>(n, k). W_RegisterType k n) evm_types)) = Some Column_Aware"
    by (intro session_setup) auto
  ultimately show ?thesis unfolding ready_def cs by (simp add: opening_calls_def)
qed

lemma ready_path: "ready env r \<Longrightarrow> ready env (ensure_path_with_line_lengths p src r)"
  by (auto simp: ready_def ensure_path_with_line_lengths_def Let_def session_step_setup intro: well_typed_snoc)

lemma open_trace_sound:
  assumes "ready env r" "open_trace env paths contents r = (main_path, t, r1)"
  shows "sound env t r1 {}"
proof -
  define main where "main = (case paths of [] \<Rightarrow> ''<unknown>'' | p # _ \<Rightarrow> p)"
  define r0 where "r0 = (case (paths, contents) of
      (_ # _, src # _) \<Rightarrow> ensure_path_with_line_lengths main src r | _ \<Rightarrow> r)"
  define r2 where "r2 = emit (W_Start main 1) r0"
  have "ready env r0" unfolding r0_def using assms(1) ready_path by (auto split: list.split)
  then have "well_typed env (er_calls r2)" "session_of (er_calls r2) = Some Recording"
    unfolding r2_def ready_def by (auto simp: session_step_def intro: well_typed_snoc)
  moreover have "ensure_type_id env TkInt ''uint256'' r2 = (t, r1)"
    using assms(2) unfolding open_trace_def Let_def main_def r0_def r2_def by (auto split: prod.splits)
  from ensure_type_id_issued [OF this] have "extends env r2 r1" "issued env (er_calls r1) t TkInt" by simp_all
  ultimately show ?thesis by (auto simp: sound_def extends_def)
qed

text \<open>Closing the trace: the log stays well typed and in order, and is complete when all calls succeed.\<close>

lemma sound_finalize:
  assumes "sound env t r V" "finalize_trace env r = (closed, r')"
  shows "well_typed env (er_calls r')"
    "session_of (er_calls r') \<noteq> None" "closed \<Longrightarrow> session_of (er_calls r') = Some Closed"
proof -
  define r1 where "r1 = emit (W_Return VNone) r"
  have "extends env r r1" unfolding r1_def by (rule extends_emit_value) (auto intro: typed_None)
  with assms(1) have 1: "well_typed env (er_calls r1)" "session_of (er_calls r1) = Some Recording"
    by (simp_all add: sound_def extends_def)
  have plain: "well_typed env cs \<Longrightarrow> call_value c = None \<Longrightarrow> well_typed env (cs @ [c])" for cs c
    by (rule well_typed_snoc) simp_all
  have step: "session_of cs = Some x \<Longrightarrow> session_of (cs @ [c]) = session_step x c" for cs x c by simp
  have 2: "well_typed env (er_calls r1 @ [W_Finish])" "session_of (er_calls r1 @ [W_Finish]) = Some Finished"
    using plain [OF 1(1), of W_Finish] step [OF 1(2), of W_Finish] by (simp_all add: session_step_def)
  have 3: "well_typed env ((er_calls r1 @ [W_Finish]) @ [W_MetaDat m])"
    "session_of ((er_calls r1 @ [W_Finish]) @ [W_MetaDat m]) = Some Described" for m
    using plain [OF 2(1), of "W_MetaDat m"] step [OF 2(2), of "W_MetaDat m"] by (simp_all add: session_step_def)
  have 4: "well_typed env (((er_calls r1 @ [W_Finish]) @ [W_MetaDat m]) @ [W_Close])"
    "session_of (((er_calls r1 @ [W_Finish]) @ [W_MetaDat m]) @ [W_Close]) = Some Closed" for m
    using plain [OF 3(1) [of m], of W_Close] step [OF 3(2) [of m], of W_Close] by (simp_all add: session_step_def)
  have cases: "\<not> closed \<and> (er_calls r' = er_calls r1 @ [W_Finish] \<or>
      (\<exists>m. er_calls r' = (er_calls r1 @ [W_Finish]) @ [W_MetaDat m])) \<or>
    (\<exists>m. er_calls r' = ((er_calls r1 @ [W_Finish]) @ [W_MetaDat m]) @ [W_Close])"
    using assms(2) by (auto simp: finalize_trace_def attempt_def r1_def Let_def split: if_splits)
  from cases 2(1) 3(1) 4(1) show "well_typed env (er_calls r')" by metis
  from cases 2(2) 3(2) 4(2) show "session_of (er_calls r') \<noteq> None" by (metis option.distinct(1))
  from cases 4(2) show "session_of (er_calls r') = Some Closed" if closed using that by metis
qed

lemma recorded_sound:
  assumes "order_ok env" "ready env r" "logs \<noteq> []"
  shows "record_from_structlog env k logs sm code paths contents layout ast r = Some r' \<Longrightarrow> \<exists>u V. sound env u r' V"
    and "record_from_structlog_multi_contract env k logs registry a r = Some (t, r') \<Longrightarrow> \<exists>u V. sound env u r' V"
proof -
  assume rec: "record_from_structlog env k logs sm code paths contents layout ast r = Some r'"
  obtain inp r1 where inp: "recorder_input env k logs sm code paths contents layout ast r = (inp, r1)"
    by fastforce
  then have env: "ri_env inp = env" and "open_trace env paths contents r = (ri_main_path inp, ri_uint256_type_id inp, r1)"
    by (auto simp: recorder_input_def Let_def split: prod.splits)
  from open_trace_sound [OF assms(2) this(2)]
  have "sound_state inp (rec_state_init r1)"
    by (simp add: sound_state_def env kept_values_def) (simp add: rec_state_init_def)
  moreover obtain s' where "log_loop inp 0 logs (rec_state_init r1) = Some s'" "r' = rs_rec s'"
    using rec inp assms(3) by (auto simp: record_from_structlog_def)
  ultimately have "sound_state inp s'" using assms(1) by (auto intro: log_loop_sound simp: env)
  then show "\<exists>u V. sound env u r' V"
    unfolding sound_state_def env \<open>r' = rs_rec s'\<close> by blast
next
  assume rec: "record_from_structlog_multi_contract env k logs registry a r = Some (t, r')"
  obtain inp r1 where inp: "multi_input_of env k logs registry a r = (inp, r1)" by fastforce
  define init where "init = initial_source registry a"
  have env: "mi_env inp = env" and "open_trace env (cs_source_paths init) (cs_source_contents init) r =
      (mi_main_path inp, mi_uint256_type_id inp, r1)"
    using inp by (auto simp: multi_input_of_def Let_def init_def split: prod.splits)
  from open_trace_sound [OF assms(2) this(2)]
  have "sound_multi inp (multi_state_init a r1)"
    by (simp add: sound_multi_def env kept_multi_def multi_state_init_def kept_in_def)
  moreover obtain s' where "multi_loop inp 0 logs (multi_state_init a r1) = Some s'" "r' = ms_rec s'"
    using rec inp assms(3) by (auto simp: record_from_structlog_multi_contract_def)
  ultimately have "sound_multi inp s'" using assms(1) by (auto intro: multi_loop_sound simp: env)
  then show "\<exists>u V. sound env u r' V"
    unfolding sound_multi_def env \<open>r' = ms_rec s'\<close> by blast
qed

lemma sound_reverts:
  assumes "sound env t r V"
  shows "sound env t (fold (\<lambda>(metadata, reason). register_revert metadata reason) reasons r) V"
proof (rule sound_extends [OF assms])
  have e: "extends env r' (register_revert m n r')" for m n r' by (simp add: register_revert_def extends_emit)
  show "extends env r (fold (\<lambda>(metadata, reason). register_revert metadata reason) reasons r)"
    by (rule extends_fold) (simp add: split_beta e)
qed simp

text \<open>
  C6: both recorders write well typed traces: every value of a variable, an argument or a return,
  and every element of a compound value, carries the identifier of a type the writer handed out
  earlier in the same trace, an integer that of a type of integer kind, a struct that of a struct,
  a sequence that of an array. This needs of the hash map only that iterating over it yields
  entries it holds.
\<close>

theorem recorded_traces_well_typed:
  assumes "order_ok env" and "initialize_trace env d evm_recorder_new = (True, r)" and "logs \<noteq> []"
  shows "(record_from_structlog env k logs sm code paths contents layout ast r = Some r' \<longrightarrow>
            well_typed env (er_calls (snd (finalize_trace env r')))) \<and>
         (record_from_structlog_multi_contract env k logs registry a r = Some (t, r') \<longrightarrow>
            well_typed env (er_calls (snd (finalize_trace env r'))))"
proof -
  note s = recorded_sound [OF assms(1) initialize_ready [OF assms(2)] assms(3)]
  show ?thesis using s sound_finalize(1) [OF _ surjective_pairing] by blast
qed

lemma example_initialized: "\<exists>r. initialize_trace example_env d evm_recorder_new = (True, r)"
  by (simp add: initialize_trace_def attempt_def example_env_def Let_def)

lemma example_order: "order_ok example_env"
  by (simp add: order_ok_def example_env_def)

theorem recorded_traces_well_typed_witness:
  "\<exists>r t r'. initialize_trace example_env ''/out'' evm_recorder_new = (True, r) \<and>
     record_from_structlog_multi_contract example_env (\<lambda>_. []) example_call registry_new 1 r = Some (t, r') \<and>
     well_typed example_env (er_calls (snd (finalize_trace example_env r')))"
proof -
  obtain r where r: "initialize_trace example_env ''/out'' evm_recorder_new = (True, r)"
    using example_initialized by blast
  obtain t r' where r': "record_from_structlog_multi_contract example_env (\<lambda>_. []) example_call registry_new 1 r
      = Some (t, r')"
    using multi_run_tree [OF example_call_depths(1,2)] by blast
  with recorded_traces_well_typed [OF example_order r example_call_depths(2)] r show ?thesis by blast
qed

text \<open>
  C7: the writer is called in one order, by either recorder, whatever reverts are reported
  and wherever the closing fails: opened once, told to keep columns before any step and before the
  types and line lengths, started once before the first step, and, when the closing succeeds,
  finished, described and closed in this order with nothing after.
\<close>

theorem writer_called_in_order:
  assumes "order_ok env" and "initialize_trace env d evm_recorder_new = (True, r)" and "logs \<noteq> []"
    and "record_from_structlog env k logs sm code paths contents layout ast r = Some r' \<or>
         record_from_structlog_multi_contract env k logs registry a r = Some (t, r')"
    and "finalize_trace env (fold (\<lambda>(metadata, reason). register_revert metadata reason) reasons r') = (closed, r'')"
  shows "session_of (er_calls r'') \<noteq> None \<and> (closed \<longrightarrow> session_of (er_calls r'') = Some Closed)"
proof -
  obtain u V where "sound env u r' V"
    using recorded_sound [OF assms(1) initialize_ready [OF assms(2)] assms(3)] assms(4) by blast
  from sound_finalize(2,3) [OF sound_reverts [OF this] assms(5)] show ?thesis by blast
qed

theorem writer_called_in_order_witness:
  "\<exists>r t r' r''. initialize_trace example_env ''/out'' evm_recorder_new = (True, r) \<and>
     record_from_structlog_multi_contract example_env (\<lambda>_. []) example_call registry_new 1 r = Some (t, r') \<and>
     finalize_trace example_env (register_revert ''m'' ''r'' r') = (True, r'') \<and>
     session_of (er_calls r'') = Some Closed"
proof -
  obtain r where r: "initialize_trace example_env ''/out'' evm_recorder_new = (True, r)"
    using example_initialized by blast
  obtain t r' where r': "record_from_structlog_multi_contract example_env (\<lambda>_. []) example_call registry_new 1 r
      = Some (t, r')"
    using multi_run_tree [OF example_call_depths(1,2)] by blast
  obtain r'' where r'': "finalize_trace example_env (register_revert ''m'' ''r'' r') = (True, r'')"
    by (simp add: finalize_trace_def attempt_def example_env_def Let_def)
  have "finalize_trace example_env (fold (\<lambda>(metadata, reason). register_revert metadata reason) [(''m'', ''r'')] r') =
      (True, r'')" using r'' by simp
  from writer_called_in_order [OF example_order r example_call_depths(2) disjI2 [OF r'] this] r r' r''
  show ?thesis by blast
qed

end
