(* ===== verification/Recorder_Steps.thy ===== *)
theory Recorder_Steps
  imports Recorder_Multi
begin

text \<open>
  Which steps the loop over several contracts writes. A trace is cut into runs of entries at one
  depth; each run is stepped through the artifacts of the innermost frame, as the loop over one
  contract steps through its only source map. The two loops write the same steps on a trace that
  never leaves its first frame.
\<close>

section \<open>The steps of a run\<close>

text \<open>The frames open at an entry, from those open before it and the two depths.\<close>

definition frames_at ::
  "struct_log list \<Rightarrow> nat \<Rightarrow> nat \<Rightarrow> nat \<Rightarrow> frame_context list \<Rightarrow> frame_context list"
where
  "frames_at logs i prev_depth depth frames =
     (if prev_depth < depth then
        (let (addr, _, is_delegate, proxy) = entered_target logs i frames in
         frames @ [\<lparr>fc_address = addr, fc_is_delegate = is_delegate, fc_delegate_proxy = proxy\<rparr>])
      else cut (prev_depth - depth) frames)"

text \<open>The runs of entries at one depth, each with the frames open while it is executed.\<close>

function depth_runs ::
  "struct_log list \<Rightarrow> nat \<Rightarrow> nat \<Rightarrow> frame_context list \<Rightarrow> struct_log list \<Rightarrow>
     (frame_context list \<times> struct_log list) list"
where
  "depth_runs logs i d frames [] = []"
| "depth_runs logs i d frames (lg # lgs) =
     (let frames1 = frames_at logs i d (log_depth lg) frames;
          same = takeWhile (\<lambda>l. log_depth l = log_depth lg) lgs in
      (frames1, lg # same) #
        depth_runs logs (i + 1 + length same) (log_depth lg) frames1
          (dropWhile (\<lambda>l. log_depth l = log_depth lg) lgs))"
  by pat_completeness auto
termination
  by (relation "measure (\<lambda>(_, _, _, _, lgs). length lgs)") (auto simp: le_imp_less_Suc length_dropWhile_le)

text \<open>The steps of entries executed under some artifacts, after a step at \<open>p\<close>.\<close>

definition steps_after ::
  "multi_input \<Rightarrow> current_source \<Rightarrow> (int \<times> nat \<times> nat) option \<Rightarrow> struct_log list \<Rightarrow> (string \<times> nat \<times> nat) list"
where
  "steps_after inp cur p lgs =
     (case cs_source_map cur of
        None \<Rightarrow> []
      | Some sm \<Rightarrow> map (step_at (frame_input inp cur sm)) (changes p (places (frame_input inp cur sm) lgs)))"

text \<open>The steps of a whole run: its source places, consecutive repetitions dropped.\<close>

definition run_steps :: "multi_input \<Rightarrow> frame_context list \<times> struct_log list \<Rightarrow> (string \<times> nat \<times> nat) list" where
  "run_steps inp = (\<lambda>(frames, lgs).
     let cur = frame_source inp frames in
     case cs_source_map cur of
       None \<Rightarrow> []
     | Some sm \<Rightarrow> let ri = frame_input inp cur sm in map (step_at ri) (remdups_adj (places ri lgs)))"

text \<open>The jumps into functions of a run less its jumps out of them.\<close>

definition run_jumps :: "multi_input \<Rightarrow> frame_context list \<times> struct_log list \<Rightarrow> int" where
  "run_jumps inp = (\<lambda>(frames, lgs).
     let cur = frame_source inp frames in
     case cs_source_map cur of None \<Rightarrow> 0 | Some sm \<Rightarrow> jumps (frame_input inp cur sm) lgs)"

lemma run_steps_after: "run_steps inp (frames, lgs) = steps_after inp (frame_source inp frames) None lgs"
  by (simp add: run_steps_def steps_after_def changes_None Let_def split: option.split)

section \<open>Blocks that write no step\<close>

definition still :: "multi_state \<Rightarrow> multi_state \<Rightarrow> bool" where
  "still s s' \<longleftrightarrow> ms_prev_line s' = ms_prev_line s \<and> quiet (ms_rec s) (ms_rec s')"

named_theorems still_intros

lemma still_refl [simp]: "still s s"
  by (simp add: still_def)

lemma still_trans: "still s s1 \<Longrightarrow> still s1 s2 \<Longrightarrow> still s s2"
  by (auto simp: still_def intro: quiet_trans)

lemma still_quiet: "(\<And>r. quiet r (f r)) \<Longrightarrow> still s (on_multi f s)"
  by (simp add: still_def on_multi_def)

lemma still_rec: "quiet (ms_rec s) r \<Longrightarrow> still s (s\<lparr>ms_rec := r\<rparr>)"
  by (simp add: still_def)

lemma still_track_stack [still_intros]: "still s (track_frame_stack idx op off vars s)"
  by (simp add: still_def track_frame_stack_def)

lemma still_track_memory [still_intros]: "still s (track_frame_memory idx op off vars lg s)"
  by (simp add: still_def track_frame_memory_def Let_def)

lemma still_track_locals: "still s (track_frame_locals inp lg fi off idx s)"
proof -
  have "still s (on_multi (emit_locals env t stk vars)
      (track_frame_memory idx op o' vars lg (track_frame_stack idx op o' vars s)))" for env t stk vars op o'
    by (blast intro: still_trans still_intros still_quiet quiet_emit_locals)
  then show ?thesis
    by (simp add: track_frame_locals_def Let_def still_track_stack split: option.split)
qed

text \<open>A jump writes no step either, but may write a call or a return.\<close>

definition jumped :: "int \<Rightarrow> multi_state \<Rightarrow> multi_state \<Rightarrow> bool" where
  "jumped d s s' \<longleftrightarrow> ms_prev_line s' = ms_prev_line s \<and> steps_of (ms_rec s') = steps_of (ms_rec s) \<and>
     net_calls (ms_rec s') = net_calls (ms_rec s) + d"

lemma still_jumped: "still s s1 \<Longrightarrow> jumped d s1 s2 \<Longrightarrow> jumped d s s2"
  by (simp add: still_def jumped_def quiet_def)

lemma jumped_internal_call: "jumped 1 s (frame_internal_call inp i lg loc idx s)"
proof -
  obtain fid r1 where f: "ensure_function_id (ri_env inp)
      (case internal_target inp i of Some f \<Rightarrow> display_name (ri_ast inp) f | None \<Rightarrow> fallback_name inp i)
      (path_at (ri_source_paths inp) (ri_main_path inp) (loc_file_index loc)) (loc_line loc) (ms_rec s)
        = (fid, r1)" by fastforce
  obtain t r2 where a: "stage_internal_call_args (ri_env inp) (ms_stacks s ! idx) (internal_target inp i)
      (log_stack lg) 1 r1 = (t, r2)" by fastforce
  have "steps_of r1 = steps_of (ms_rec s)" "net_calls r1 = net_calls (ms_rec s)"
    using f by (auto simp: ensure_function_id_def)
  moreover have "steps_of r2 = steps_of r1" "net_calls r2 = net_calls r1"
    using quiet_stage_internal [of r1 "ri_env inp" "ms_stacks s ! idx" "internal_target inp i" "log_stack lg" 1] a
    by (simp_all add: quiet_def)
  ultimately show ?thesis using f a by (simp add: frame_internal_call_def jumped_def Let_def)
qed

lemma jumped_follow_jump:
  "jumped (jump_delta (case get_entry_for_pc (ri_source_map inp) (log_pc lg) (ri_pc_to_idx inp) of
       None \<Rightarrow> Regular | Some e \<Rightarrow> sme_jump_type e)) s (follow_frame_jump inp i lg loc idx s)"
  using jumped_internal_call
  by (simp add: follow_frame_jump_def frame_internal_return_def jumped_def on_multi_def jump_delta_def
      split: option.split jump_type.split)

lemma still_record_keccak: "still s (record_frame_keccak inp lg cur s)"
  by (simp add: record_frame_keccak_def still_def Let_def split: option.split)

lemma still_store_variable: "still s (store_frame_variable idx n v s)"
  by (simp add: store_frame_variable_def still_def on_multi_def quiet_emit)

lemma still_tables:
  "still s s1 \<Longrightarrow> still s (s1\<lparr>ms_slot_values := vals\<rparr>)"
  "still s s1 \<Longrightarrow> still s (s1\<lparr>ms_storage_states := tables, ms_slot_values := vals\<rparr>)"
  by (simp_all add: still_def)

lemma still_store_compound: "still s (store_frame_compound inp layout idx slot s)"
proof (cases "containing_compound layout slot")
  case None
  then show ?thesis by (simp add: store_frame_compound_def)
next
  case (Some c)
  obtain parent parent_ti n where c: "c = (parent, parent_ti, n)" by (cases c)
  obtain compound r1 where b: "build_compound_value (mi_env inp) parent_ti
      (case parse_u64 (se_slot parent) of Some b \<Rightarrow> b | None \<Rightarrow> 0) n (ms_slot_values s ! idx) (ms_rec s)
        = (compound, r1)" by fastforce
  then have "quiet (ms_rec s) r1" by (metis quiet_build_compound snd_conv)
  with Some c b show ?thesis
    by (auto simp: store_frame_compound_def Let_def split: option.split
        intro: still_rec still_trans still_store_variable)
qed

lemma still_record_sstore: "still s (record_frame_sstore inp lg cur s)"
proof -
  have 1: "still s (store_frame_variable idx n v (s\<lparr>ms_rec := emit (W_EnsureType k m) (ms_rec s),
      ms_storage_states := tables, ms_slot_values := vals\<rparr>))" for idx n v k m tables vals
    by (rule still_trans [OF _ still_store_variable]) (simp add: still_def quiet_emit)
  have 2: "still s (store_frame_compound inp layout idx slot (s2\<lparr>ms_slot_values := vals\<rparr>))"
    if "still s s2" for layout idx slot s2 vals
    by (rule still_trans [OF still_tables(1) [OF that] still_store_compound])
  show ?thesis
    unfolding record_frame_sstore_def Let_def ensure_type_id_def
    by (auto split: option.split intro: 1 2)
qed

lemma still_events: "still s (on_multi (record_frame_events lg) s)"
  by (rule still_quiet) (simp add: record_frame_events_eq quiet_events)

section \<open>An entry of the trace\<close>

lemma emit_frame_step_steps:
  "ms_prev_line (emit_frame_step inp loc k s) = Some (place loc)"
  "steps_of (ms_rec (emit_frame_step inp loc k s)) = steps_of (ms_rec s) @
     map (step_at inp) (changes (ms_prev_line s) [place loc])"
  "net_calls (ms_rec (emit_frame_step inp loc k s)) = net_calls (ms_rec s)"
proof -
  let ?c = "vec_get (ri_source_contents inp) (usize_of_i32 (loc_file_index loc))"
  let ?p = "path_at (ri_source_paths inp) (ri_main_path inp) (loc_file_index loc)"
  let ?r1 = "case ?c of Some src \<Rightarrow> ensure_path_with_line_lengths ?p src (ms_rec s) | None \<Rightarrow> ms_rec s"
  let ?r2 = "emit (W_Step ?p (loc_line loc) (loc_column loc + 1)) ?r1"
  have 1: "quiet (ms_rec s) ?r1" by (rule quiet_path_or_same)
  have 2: "quiet ?r2 (emit_storage (ri_env inp) ss ?r2)" for ss by (rule quiet_emit_storage)
  show "ms_prev_line (emit_frame_step inp loc k s) = Some (place loc)"
    by (simp add: emit_frame_step_def Let_def place_def)
  have "steps_of (ms_rec (emit_frame_step inp loc k s)) = steps_of ?r2"
    if "ms_prev_line s \<noteq> Some (place loc)"
    using that 2 by (simp add: emit_frame_step_def Let_def place_def quiet_def split: option.split)
  with 1 show "steps_of (ms_rec (emit_frame_step inp loc k s)) = steps_of (ms_rec s) @
      map (step_at inp) (changes (ms_prev_line s) [place loc])"
    by (auto simp: quiet_def step_at_def place_def emit_frame_step_def Let_def)
  show "net_calls (ms_rec (emit_frame_step inp loc k s)) = net_calls (ms_rec s)"
    using 1 2 by (simp add: emit_frame_step_def Let_def quiet_def split: option.split)
qed

definition place_in :: "multi_input \<Rightarrow> current_source \<Rightarrow> struct_log \<Rightarrow> (int \<times> nat \<times> nat) option" where
  "place_in inp cur lg =
     (case cs_source_map cur of None \<Rightarrow> None | Some sm \<Rightarrow> place_of (frame_input inp cur sm) lg)"

definition jump_in :: "multi_input \<Rightarrow> current_source \<Rightarrow> struct_log \<Rightarrow> jump_type" where
  "jump_in inp cur lg =
     (case cs_source_map cur of None \<Rightarrow> Regular | Some sm \<Rightarrow> jump_at (frame_input inp cur sm) lg)"

lemma steps_after_Nil [simp]: "steps_after inp cur p [] = []"
  by (simp add: steps_after_def split: option.split)

lemma steps_after_Cons:
  "steps_after inp cur p (lg # lgs) = steps_after inp cur p [lg] @
     steps_after inp cur (case place_in inp cur lg of None \<Rightarrow> p | Some q \<Rightarrow> Some q) lgs"
  by (auto simp: steps_after_def place_in_def split: option.split)

lemma locate_in_frame_steps:
  "ms_prev_line (locate_in_frame inp i lg cur idx s) =
     (case place_in inp cur lg of None \<Rightarrow> ms_prev_line s | Some q \<Rightarrow> Some q)"
  "steps_of (ms_rec (locate_in_frame inp i lg cur idx s)) =
     steps_of (ms_rec s) @ steps_after inp cur (ms_prev_line s) [lg]"
  "net_calls (ms_rec (locate_in_frame inp i lg cur idx s)) =
     net_calls (ms_rec s) + jump_delta (jump_in inp cur lg)"
proof -
  have track: "ms_prev_line (track_frame_stack idx op off [] s) = ms_prev_line s"
    "ms_rec (track_frame_stack idx op off [] s) = ms_rec s" for op off
    by (simp_all add: track_frame_stack_def)
  have follow: "jumped (jump_delta (case get_entry_for_pc (ri_source_map ri) (log_pc lg) (ri_pc_to_idx ri) of
       None \<Rightarrow> Regular | Some e \<Rightarrow> sme_jump_type e)) (emit_frame_step ri loc k s) (follow_frame_jump ri i lg loc idx
      (track_frame_locals ri lg fi off idx (emit_frame_step ri loc k s)))" for ri loc fi off k
    by (rule still_jumped [OF still_track_locals jumped_follow_jump])
  show "ms_prev_line (locate_in_frame inp i lg cur idx s) =
      (case place_in inp cur lg of None \<Rightarrow> ms_prev_line s | Some q \<Rightarrow> Some q)"
    using track follow
    by (simp add: locate_in_frame_def place_in_def place_of_def frame_input_def jumped_def
        emit_frame_step_steps Let_def split: option.split)
  show "steps_of (ms_rec (locate_in_frame inp i lg cur idx s)) =
      steps_of (ms_rec s) @ steps_after inp cur (ms_prev_line s) [lg]"
    using track follow
    by (simp add: locate_in_frame_def steps_after_def place_of_def frame_input_def jumped_def
        emit_frame_step_steps Let_def split: option.split)
  show "net_calls (ms_rec (locate_in_frame inp i lg cur idx s)) =
      net_calls (ms_rec s) + jump_delta (jump_in inp cur lg)"
    using track follow
    by (simp add: locate_in_frame_def jump_in_def jump_at_def frame_input_def jumped_def
        emit_frame_step_steps jump_delta_def Let_def split: option.split)
qed

lemma exit_frames_steps:
  assumes "ms_frames s \<noteq> []" "exit_frames inp i k s = Some s'"
  shows "ms_frames s' = cut k (ms_frames s) \<and> steps_of (ms_rec s') = steps_of (ms_rec s) \<and>
    net_calls (ms_rec s') = net_calls (ms_rec s) - int k"
  using assms
proof (induction k arbitrary: s)
  case 0
  then show ?case by simp
next
  case (Suc k)
  then obtain s1 where s1: "exit_frame inp i s = Some s1" "exit_frames inp i k s1 = Some s'"
    by (auto split: option.splits)
  then have f: "ms_frames s1 = pop_keep (ms_frames s)" "steps_of (ms_rec s1) = steps_of (ms_rec s)"
    "net_calls (ms_rec s1) = net_calls (ms_rec s) - 1"
    by (auto simp: exit_frame_def split: option.splits)
  with cut_pop_keep [OF Suc.prems(1)] Suc.IH [OF _ s1(2)] show ?case by simp
qed

text \<open>A change of depth writes no step, opens the frames the specification says and forgets the place.\<close>

lemma switch_frame_steps:
  assumes "ms_frames s \<noteq> []" "switch_frame inp i lg s = Some s'"
  shows "ms_frames s' = frames_at (mi_logs inp) i (ms_prev_depth s) (log_depth lg) (ms_frames s) \<and>
    ms_prev_line s' = (if log_depth lg = ms_prev_depth s then ms_prev_line s else None) \<and>
    steps_of (ms_rec s') = steps_of (ms_rec s) \<and>
    (log_depth lg \<le> ms_prev_depth s + 1 \<longrightarrow>
       net_calls (ms_rec s') = net_calls (ms_rec s) + int (log_depth lg) - int (ms_prev_depth s))"
proof -
  consider (down) "ms_prev_depth s < log_depth lg" | (up) "log_depth lg < ms_prev_depth s"
    | (same) "log_depth lg = ms_prev_depth s" by linarith
  then show ?thesis
  proof cases
    case down
    obtain a ty d p where t: "entered_target (mi_logs inp) i (ms_frames s) = (a, ty, d, p)"
      by (metis prod_cases4)
    with down assms(2) show ?thesis
      by (auto simp: switch_frame_def enter_frame_def frames_at_def grow_tables_def Let_def
          ensure_function_id_def split: option.splits)
  next
    case up
    with assms(2) obtain s1 where "exit_frames inp i (ms_prev_depth s - log_depth lg) s = Some s1"
      "s' = s1\<lparr>ms_prev_line := None\<rparr>" by (auto simp: switch_frame_def)
    with up exit_frames_steps [OF assms(1)] show ?thesis by (simp add: frames_at_def)
  next
    case same
    with assms(2) show ?thesis by (simp add: switch_frame_def frames_at_def)
  qed
qed

lemma multi_step_steps:
  assumes "synchronised s" "1 \<le> log_depth lg" "log_depth lg \<le> ms_prev_depth s + 1"
    and frames_def: "frames = frames_at (mi_logs inp) i (ms_prev_depth s) (log_depth lg) (ms_frames s)"
    and p_def: "p = (if log_depth lg = ms_prev_depth s then ms_prev_line s else None)"
  shows "\<exists>s'. multi_step inp i lg s = Some s' \<and> synchronised s' \<and> ms_prev_depth s' = log_depth lg \<and>
    ms_frames s' = frames \<and>
    ms_prev_line s' = (case place_in inp (frame_source inp frames) lg of None \<Rightarrow> p | Some q \<Rightarrow> Some q) \<and>
    steps_of (ms_rec s') = steps_of (ms_rec s) @ steps_after inp (frame_source inp frames) p [lg] \<and>
    net_calls (ms_rec s') = net_calls (ms_rec s) + int (log_depth lg) - int (ms_prev_depth s) +
      jump_delta (jump_in inp (frame_source inp frames) lg)"
proof -
  obtain s' where s': "multi_step inp i lg s = Some s'" "synchronised s'" "ms_prev_depth s' = log_depth lg"
    using multi_step_effect [OF assms(1-3), of inp i] by blast
  obtain s0 where s0: "switch_frame inp i lg s = Some s0" "has_tables (log_depth lg) s0"
    using switch_frame_effect [OF assms(1-3), of inp i] by (auto simp: has_tables_def)
  have ne: "ms_frames s \<noteq> []" using assms(1) by (auto simp: synchronised_def framed_def)
  note sw = switch_frame_steps [OF ne s0(1), folded frames_def p_def]
  define s1 where "s1 = s0\<lparr>ms_stacks := grow (log_depth lg) stack_tracker_new (ms_stacks s0),
      ms_mems := grow (log_depth lg) memory_tracker_new (ms_mems s0)\<rparr>"
  define s2 where "s2 = locate_in_frame inp i lg (frame_source inp frames) (log_depth lg - 1) s1"
  define s3 where "s3 = record_frame_keccak inp lg (frame_source inp frames) s2"
  define s4 where "s4 = on_multi (record_frame_events lg) (record_frame_sstore inp lg (frame_source inp frames) s3)"
  have one: "ms_frames s1 = frames" "ms_prev_line s1 = p" "steps_of (ms_rec s1) = steps_of (ms_rec s)"
    "has_tables (log_depth lg) s1"
    "net_calls (ms_rec s1) = net_calls (ms_rec s) + int (log_depth lg) - int (ms_prev_depth s)"
    using sw s0(2) assms(3) by (simp_all add: s1_def has_tables_def)
  have eq: "s' = s4\<lparr>ms_prev_depth := log_depth lg\<rparr>"
    using s'(1) s0(1) sw unfolding multi_step_def s4_def s3_def s2_def s1_def
    by (simp add: Let_def split: if_splits)
  have q: "still s2 s4" unfolding s4_def s3_def
    by (blast intro: still_trans still_record_keccak still_record_sstore still_events)
  have t2: "settled (log_depth lg - 1) s1 s2" unfolding s2_def by (rule settled_locate)
  have t3: "settled (log_depth lg - 1) s2 s3" unfolding s3_def
    using settled_has_tables [OF t2 one(4)] assms(2) by (rule settled_record_keccak)
  have t4: "settled (log_depth lg - 1) s3 s4" unfolding s4_def
    using settled_has_tables [OF t3 settled_has_tables [OF t2 one(4)]] assms(2)
    by (blast intro: settled_trans settled_record_sstore settled_on_multi)
  have "ms_frames s' = frames" using t2 t3 t4 one(1) by (simp add: settled_def eq)
  moreover have "ms_prev_line s' = (case place_in inp (frame_source inp frames) lg of None \<Rightarrow> p | Some q \<Rightarrow> Some q)"
    using q one by (simp add: eq still_def quiet_def s2_def locate_in_frame_steps split: option.split)
  moreover have "steps_of (ms_rec s') = steps_of (ms_rec s) @ steps_after inp (frame_source inp frames) p [lg]"
    using q one by (simp add: eq still_def quiet_def s2_def locate_in_frame_steps)
  moreover have "net_calls (ms_rec s') = net_calls (ms_rec s) + int (log_depth lg) - int (ms_prev_depth s) +
      jump_delta (jump_in inp (frame_source inp frames) lg)"
    using q one by (simp add: eq still_def quiet_def s2_def locate_in_frame_steps)
  ultimately show ?thesis using s' by blast
qed

section \<open>A run of entries and the whole trace\<close>

text \<open>The steps of entries at one depth; the loop goes through them without changing frames.\<close>

lemma multi_loop_append:
  "multi_loop inp i (xs @ ys) s =
     (case multi_loop inp i xs s of None \<Rightarrow> None | Some s1 \<Rightarrow> multi_loop inp (i + length xs) ys s1)"
  by (induction xs arbitrary: i s) (auto split: option.split)

lemma run_jumps_simps:
  "run_jumps inp (frames, []) = 0"
  "run_jumps inp (frames, lg # lgs) =
     jump_delta (jump_in inp (frame_source inp frames) lg) + run_jumps inp (frames, lgs)"
  by (simp_all add: run_jumps_def jump_in_def jumps_def jump_delta_def Let_def split: option.split)

lemma run_at_depth:
  assumes "synchronised s" "\<forall>l\<in>set lgs. log_depth l = ms_prev_depth s" "1 \<le> ms_prev_depth s"
  shows "\<exists>s'. multi_loop inp i lgs s = Some s' \<and> synchronised s' \<and>
    ms_prev_depth s' = ms_prev_depth s \<and> ms_frames s' = ms_frames s \<and>
    steps_of (ms_rec s') = steps_of (ms_rec s) @
      steps_after inp (frame_source inp (ms_frames s)) (ms_prev_line s) lgs \<and>
    net_calls (ms_rec s') = net_calls (ms_rec s) + run_jumps inp (ms_frames s, lgs)"
  using assms
proof (induction lgs arbitrary: i s)
  case Nil
  then show ?case by (simp add: run_jumps_simps)
next
  case (Cons lg lgs)
  have d: "log_depth lg = ms_prev_depth s" using Cons.prems(2) by simp
  obtain s1 where s1: "multi_step inp i lg s = Some s1" "synchronised s1" "ms_prev_depth s1 = ms_prev_depth s"
    "ms_frames s1 = ms_frames s"
    "ms_prev_line s1 = (case place_in inp (frame_source inp (ms_frames s)) lg of
       None \<Rightarrow> ms_prev_line s | Some q \<Rightarrow> Some q)"
    "steps_of (ms_rec s1) = steps_of (ms_rec s) @
       steps_after inp (frame_source inp (ms_frames s)) (ms_prev_line s) [lg]"
    "net_calls (ms_rec s1) = net_calls (ms_rec s) + jump_delta (jump_in inp (frame_source inp (ms_frames s)) lg)"
    using multi_step_steps [OF Cons.prems(1) _ _ refl refl, of lg inp i] Cons.prems(3)
    by (auto simp: d frames_at_def)
  from Cons.IH [OF s1(2), of "i + 1"] Cons.prems(2,3) s1 show ?case
    by (auto simp: steps_after_Cons [of _ _ _ lg lgs] run_jumps_simps)
qed

lemma depths_from_dropWhile:
  "depths_from d lgs \<Longrightarrow> depths_from d (dropWhile (\<lambda>l. log_depth l = d) lgs)"
  by (induction lgs) auto

lemma depth_runs_steps:
  assumes "synchronised s" "depths_from (ms_prev_depth s) lgs"
    and "lgs = [] \<or> log_depth (hd lgs) \<noteq> ms_prev_depth s \<or> ms_prev_line s = None"
  shows "\<exists>s'. multi_loop inp i lgs s = Some s' \<and>
    steps_of (ms_rec s') = steps_of (ms_rec s) @
      concat (map (run_steps inp) (depth_runs (mi_logs inp) i (ms_prev_depth s) (ms_frames s) lgs)) \<and>
    net_calls (ms_rec s') = net_calls (ms_rec s) + int (last_depth (ms_prev_depth s) lgs) - int (ms_prev_depth s) +
      sum_list (map (run_jumps inp) (depth_runs (mi_logs inp) i (ms_prev_depth s) (ms_frames s) lgs))"
  using assms
proof (induction "mi_logs inp" i "ms_prev_depth s" "ms_frames s" lgs arbitrary: s rule: depth_runs.induct)
  case (1 i)
  then show ?case by (simp add: last_depth_def)
next
  case (2 i lg lgs)
  define frames where "frames = frames_at (mi_logs inp) i (ms_prev_depth s) (log_depth lg) (ms_frames s)"
  define same where "same = takeWhile (\<lambda>l. log_depth l = log_depth lg) lgs"
  define rest where "rest = dropWhile (\<lambda>l. log_depth l = log_depth lg) lgs"
  have lgs: "lgs = same @ rest" by (simp add: same_def rest_def)
  have d: "1 \<le> log_depth lg" "log_depth lg \<le> ms_prev_depth s + 1" using 2(3) by simp_all
  have p: "(if log_depth lg = ms_prev_depth s then ms_prev_line s else None) = None" using 2(4) by auto
  obtain s1 where s1: "multi_step inp i lg s = Some s1" "synchronised s1" "ms_prev_depth s1 = log_depth lg"
    "ms_frames s1 = frames"
    "ms_prev_line s1 = (case place_in inp (frame_source inp frames) lg of None \<Rightarrow> None | Some q \<Rightarrow> Some q)"
    "steps_of (ms_rec s1) = steps_of (ms_rec s) @ steps_after inp (frame_source inp frames) None [lg]"
    "net_calls (ms_rec s1) = net_calls (ms_rec s) + int (log_depth lg) - int (ms_prev_depth s) +
       jump_delta (jump_in inp (frame_source inp frames) lg)"
    using multi_step_steps [OF 2(2) d frames_def p [symmetric]] by blast
  have "\<forall>l\<in>set same. log_depth l = ms_prev_depth s1"
    using s1(3) by (auto simp: same_def dest: set_takeWhileD)
  then obtain s2 where s2: "multi_loop inp (i + 1) same s1 = Some s2" "synchronised s2"
    "ms_prev_depth s2 = log_depth lg" "ms_frames s2 = frames"
    "steps_of (ms_rec s2) = steps_of (ms_rec s1) @
       steps_after inp (frame_source inp frames) (ms_prev_line s1) same"
    "net_calls (ms_rec s2) = net_calls (ms_rec s1) + run_jumps inp (frames, same)"
    using run_at_depth [OF s1(2), of same inp "i + 1"] s1(3,4) d(1) by auto
  have run: "steps_of (ms_rec s2) = steps_of (ms_rec s) @ run_steps inp (frames, lg # same)"
    by (simp add: s2(5) s1(5,6) run_steps_after steps_after_Cons [of _ _ _ lg same])
  have net: "net_calls (ms_rec s2) = net_calls (ms_rec s) + int (log_depth lg) - int (ms_prev_depth s) +
      run_jumps inp (frames, lg # same)"
    by (simp add: s2(6) s1(7) run_jumps_simps)
  have last: "last_depth (ms_prev_depth s) (lg # lgs) = last_depth (log_depth lg) rest"
  proof (cases "rest = []")
    case True
    then have "\<forall>l\<in>set (lg # lgs). log_depth l = log_depth lg" by (simp add: rest_def)
    then have "log_depth (last (lg # lgs)) = log_depth lg" using last_in_set [of "lg # lgs"] by blast
    with True show ?thesis by (simp add: last_depth_def)
  qed (simp add: last_depth_def lgs)
  have "depths_from (ms_prev_depth s2) rest"
    using 2(3) s2(3) depths_from_dropWhile [of "log_depth lg" lgs] by (simp add: rest_def)
  moreover have "rest = [] \<or> log_depth (hd rest) \<noteq> ms_prev_depth s2 \<or> ms_prev_line s2 = None"
    using hd_dropWhile [of "\<lambda>l. log_depth l = log_depth lg" lgs] s2(3) by (auto simp: rest_def)
  ultimately obtain s' where s': "multi_loop inp (i + 1 + length same) rest s2 = Some s'"
    "steps_of (ms_rec s') = steps_of (ms_rec s2) @
      concat (map (run_steps inp) (depth_runs (mi_logs inp) (i + 1 + length same) (log_depth lg) frames rest))"
    "net_calls (ms_rec s') = net_calls (ms_rec s2) + int (last_depth (log_depth lg) rest) - int (log_depth lg) +
      sum_list (map (run_jumps inp) (depth_runs (mi_logs inp) (i + 1 + length same) (log_depth lg) frames rest))"
    using 2(1) [OF s2(4) [unfolded frames_def] same_def s2(3) [symmetric] s2(2)] s2(3,4)
    unfolding rest_def by auto
  have "multi_loop inp i (lg # lgs) s = Some s'"
    using s1(1) s2(1) s'(1) by (simp add: lgs multi_loop_append)
  moreover have "depth_runs (mi_logs inp) i (ms_prev_depth s) (ms_frames s) (lg # lgs) =
      (frames, lg # same) # depth_runs (mi_logs inp) (i + 1 + length same) (log_depth lg) frames rest"
    unfolding depth_runs.simps Let_def frames_def same_def rest_def by (rule refl)
  ultimately show ?case using s'(2,3) run net last by simp
qed

lemma depth_runs_level:
  assumes "\<forall>l\<in>set (lg # lgs). log_depth l = d"
  shows "depth_runs logs i d frames (lg # lgs) = [(frames, lg # lgs)]"
proof -
  have d: "log_depth lg = d" "takeWhile (\<lambda>l. log_depth l = d) lgs = lgs" "dropWhile (\<lambda>l. log_depth l = d) lgs = []"
    using assms by simp_all
  have "frames_at logs i d d frames = frames" by (simp add: frames_at_def)
  then show ?thesis unfolding depth_runs.simps Let_def d by simp
qed

section \<open>Properties\<close>

definition entry_frame :: "address \<Rightarrow> frame_context" where
  "entry_frame a = \<lparr>fc_address = a, fc_is_delegate = False, fc_delegate_proxy = None\<rparr>"

lemma multi_state_init_simps:
  "ms_prev_depth (multi_state_init a r) = 1" "ms_prev_line (multi_state_init a r) = None"
  "ms_frames (multi_state_init a r) = [entry_frame a]" "ms_rec (multi_state_init a r) = r"
  by (simp_all add: multi_state_init_def entry_frame_def)

lemma quiet_multi_input: "multi_input_of env k logs reg a r = (inp, r1) \<Longrightarrow> steps_of r1 = steps_of r \<and> net_calls r1 = net_calls r"
  using quiet_open_trace [of env "cs_source_paths (initial_source reg a)" "cs_source_contents (initial_source reg a)" r]
  by (auto simp: multi_input_of_def Let_def split: prod.splits)

lemma multi_steps:
  assumes "depths_from 1 logs" and "logs \<noteq> []"
    and inp: "multi_input_of env k logs registry a r = (inp, r1)"
  shows "\<exists>t r'. record_from_structlog_multi_contract env k logs registry a r = Some (t, r') \<and>
    steps_of r' = steps_of r @ concat (map (run_steps inp) (depth_runs logs 0 1 [entry_frame a] logs)) \<and>
    net_calls r' = net_calls r + int (log_depth (last logs)) - 1 +
      sum_list (map (run_jumps inp) (depth_runs logs 0 1 [entry_frame a] logs))"
proof -
  obtain s' where s': "multi_loop inp 0 logs (multi_state_init a r1) = Some s'"
    "steps_of (ms_rec s') = steps_of r1 @
      concat (map (run_steps inp) (depth_runs logs 0 1 [entry_frame a] logs))"
    "net_calls (ms_rec s') = net_calls r1 + int (last_depth 1 logs) - 1 +
      sum_list (map (run_jumps inp) (depth_runs logs 0 1 [entry_frame a] logs))"
    using depth_runs_steps [OF synchronised_init, of a r1 logs inp 0] assms(1) multi_input_of_logs [OF inp]
    by (auto simp: multi_state_init_simps)
  with assms quiet_multi_input [OF inp] show ?thesis
    by (simp add: record_from_structlog_multi_contract_def last_depth_def)
qed

text \<open>The frame of the entry contract is stepped through as the loop over one contract does.\<close>

lemma level_steps:
  assumes "\<forall>lg\<in>set logs. log_depth lg = 1" and "registry_get registry a = Some artifacts"
    and "ca_pc_to_idx artifacts = build_pc_to_instruction_index (ca_runtime_bytecode artifacts)"
    and "logs \<noteq> []" and one: "recorder_input env k logs (ca_source_map artifacts) (ca_runtime_bytecode artifacts)
      (ca_source_paths artifacts) (ca_source_contents artifacts) layout ast r = (one, r2)"
  shows "\<exists>t r'. record_from_structlog_multi_contract env k logs registry a r = Some (t, r') \<and>
    steps_of r' = steps_of r @ map (step_at one) (remdups_adj (places one logs))"
proof -
  obtain lg lgs where logs: "logs = lg # lgs" using assms(4) by (cases logs) auto
  define sm where "sm = ca_source_map artifacts"
  obtain inp r1 where inp: "multi_input_of env k logs registry a r = (inp, r1)" by fastforce
  have depths: "depths_from 1 logs" using assms(1) by (induction logs) auto
  have runs: "depth_runs logs 0 1 [entry_frame a] logs = [([entry_frame a], logs)]"
    unfolding logs using assms(1) unfolding logs by (rule depth_runs_level)
  have init: "initial_source registry a = \<lparr>cs_source_map = Some sm,
      cs_pc_to_idx = (if ca_runtime_bytecode artifacts \<noteq> []
        then build_pc_to_instruction_index (ca_runtime_bytecode artifacts) else ca_pc_to_idx artifacts),
      cs_source_paths = ca_source_paths artifacts, cs_source_contents = ca_source_contents artifacts,
      cs_storage_layout = ca_storage_layout artifacts, cs_solidity_ast = ca_solidity_ast artifacts\<rparr>"
    using assms(2) by (simp add: initial_source_def sm_def)
  define cur where "cur = frame_source inp [entry_frame a]"
  have cur: "cs_source_map cur = Some sm" "cs_pc_to_idx cur = ca_pc_to_idx artifacts"
      "cs_source_paths cur = ca_source_paths artifacts" "cs_source_contents cur = ca_source_contents artifacts"
    using inp assms(2)
    by (auto simp: cur_def frame_source_def entry_frame_def multi_input_of_def sm_def Let_def split: prod.splits)
  have main: "mi_main_path inp = ri_main_path one"
    using inp one
    by (auto simp: multi_input_of_def recorder_input_def init open_trace_def Let_def split: prod.splits)
  have given: "ri_source_map one = sm" "ri_pc_to_idx one = ca_pc_to_idx artifacts"
    "ri_source_paths one = ca_source_paths artifacts" "ri_source_contents one = ca_source_contents artifacts"
    using one assms(3) by (auto simp: recorder_input_def sm_def split: prod.splits)
  have same: "step_at (frame_input inp cur sm) = step_at one" "place_of (frame_input inp cur sm) = place_of one"
    by (simp_all add: fun_eq_iff step_at_def place_of_def frame_input_def cur main given)
  have "run_steps inp ([entry_frame a], logs) = map (step_at one) (remdups_adj (places one logs))"
    by (simp add: run_steps_def same places_def Let_def cur flip: cur_def)
  then have "concat (map (run_steps inp) (depth_runs logs 0 1 [entry_frame a] logs)) =
      map (step_at one) (remdups_adj (places one logs))" unfolding runs by simp
  then show ?thesis using multi_steps [OF depths assms(4) inp] by auto
qed

text \<open>
  C2: the steps written for a transaction over several contracts are, run by run of entries at one
  call depth, the source places of the entries in the artifacts of the contract executing them
  (the callee on the caller's stack, or the implementation behind a DELEGATECALL), consecutive
  repetitions dropped: none is lost, and after every change of depth the place is written afresh.
\<close>

theorem frame_steps_follow_artifacts:
  assumes "depths_from 1 logs" and "logs \<noteq> []"
    and "multi_input_of env k logs registry a r = (inp, r1)"
  shows "\<exists>t r'. record_from_structlog_multi_contract env k logs registry a r = Some (t, r') \<and>
    steps_of r' = steps_of r @ concat (map (run_steps inp) (depth_runs logs 0 1 [entry_frame a] logs))"
  using multi_steps [OF assms] by blast

text \<open>
  C4: the calls and returns written for a transaction over several contracts balance the depth of the
  machine and the jumps: their difference is the final depth below the entry frame, plus the jumps
  into functions, minus the jumps out of them, every entry read with the source map of the contract
  executing it. Unlike the loop over one contract, no call is absorbed into the top level.
\<close>

theorem frame_calls_balance:
  assumes "depths_from 1 logs" and "logs \<noteq> []"
    and "multi_input_of env k logs registry a r = (inp, r1)"
  shows "\<exists>t r'. record_from_structlog_multi_contract env k logs registry a r = Some (t, r') \<and>
    net_calls r' = net_calls r + int (log_depth (last logs)) - 1 +
      sum_list (map (run_jumps inp) (depth_runs logs 0 1 [entry_frame a] logs))"
  using multi_steps [OF assms] by blast

text \<open>An example: two contracts, one source file each, and a call from the first to the second and back.\<close>

definition example_unit :: "string \<Rightarrow> contract_artifacts" where
  "example_unit path = \<lparr>ca_name = path, ca_source_map = example_map, ca_runtime_bytecode = [0x01],
     ca_pc_to_idx = [0], ca_source_paths = [path], ca_source_contents = [example_source],
     ca_storage_layout = None, ca_solidity_ast = None\<rparr>"

definition two_contracts :: contract_registry where
  "two_contracts = register 5 (example_unit ''B.sol'') (register 1 (example_unit ''A.sol'') registry_new)"

lemma two_contracts_get:
  "registry_get two_contracts 1 = Some (example_unit ''A.sol'')"
  "registry_get two_contracts 5 = Some (example_unit ''B.sol'')"
  by (simp_all add: two_contracts_def registry_get_def registry.lookup_update)

lemma example_call_runs:
  "depth_runs example_call 0 1 [entry_frame 1] example_call =
     [([entry_frame 1], [example_call ! 0]), ([entry_frame 1, entry_frame 5], [example_call ! 1]),
      ([entry_frame 1], [example_call ! 2])]"
  by (simp add: example_call_def example_log_def frames_at_def Let_def entry_frame_def cut_def
      entered_target_def previous_log_def vec_get_def call_target_def address_of_word_def)

text \<open>Two entries of the callee: the second is a jump into a function.\<close>

definition example_jump :: "struct_log list" where
  "example_jump = [(example_log 0 1)\<lparr>log_op := ''CALL'', log_stack := Some [5, 0]\<rparr>, example_log 1 2]"

theorem frame_calls_balance_witness:
  "\<exists>t r'. record_from_structlog_multi_contract example_env (\<lambda>_. []) example_jump
            (register 5 ((example_unit ''B.sol'')\<lparr>ca_pc_to_idx := [0, 1]\<rparr>) two_contracts) 1
            evm_recorder_new = Some (t, r') \<and> net_calls r' = 2"
proof -
  let ?reg = "register 5 ((example_unit ''B.sol'')\<lparr>ca_pc_to_idx := [0, 1]\<rparr>) two_contracts"
  obtain inp r1 where inp: "multi_input_of example_env (\<lambda>_. []) example_jump ?reg 1
      evm_recorder_new = (inp, r1)" by fastforce
  have lc: "offset_to_line_col example_source 0 = (1, 0)" "offset_to_line_col example_source 2 = (2, 0)"
    unfolding example_source_def by code_simp+
  have d: "depths_from 1 example_jump" "example_jump \<noteq> []" "log_depth (last example_jump) = 2"
    by (simp_all add: example_jump_def example_log_def)
  have runs: "depth_runs example_jump 0 1 [entry_frame 1] example_jump =
     [([entry_frame 1], [example_jump ! 0]), ([entry_frame 1, entry_frame 5], [example_jump ! 1])]"
    by (simp add: example_jump_def example_log_def frames_at_def Let_def entry_frame_def cut_def
        entered_target_def previous_log_def vec_get_def call_target_def address_of_word_def)
  have "mi_registry inp = ?reg"
    using inp by (auto simp: multi_input_of_def Let_def split: prod.splits)
  moreover have "registry_get ?reg 1 = Some (example_unit ''A.sol'')"
    "registry_get ?reg 5 = Some ((example_unit ''B.sol'')\<lparr>ca_pc_to_idx := [0, 1]\<rparr>)"
    by (simp_all add: two_contracts_def registry_get_def registry.lookup_update)
  ultimately have "sum_list (map (run_jumps inp) (depth_runs example_jump 0 1 [entry_frame 1] example_jump)) = 1"
    unfolding runs
    by (simp add: run_jumps_def frame_source_def entry_frame_def example_unit_def jumps_def jump_at_def jump_delta_def
        frame_input_def resolve_pc_def get_entry_for_pc_def vec_get_def example_jump_def example_log_def
        example_map_def example_source_def usize_of_i32_def lc [unfolded example_source_def])
  with frame_calls_balance [OF d(1,2) inp] show ?thesis
    by (auto simp: d(3) evm_recorder_new_def net_calls_def)
qed

theorem frame_steps_follow_artifacts_witness:
  "\<exists>t r'. record_from_structlog_multi_contract example_env (\<lambda>_. []) example_call two_contracts 1
            evm_recorder_new = Some (t, r') \<and>
          steps_of r' = [(''A.sol'', 1, 1), (''B.sol'', 1, 1), (''A.sol'', 1, 1)]"
proof -
  obtain inp r1 where inp: "multi_input_of example_env (\<lambda>_. []) example_call two_contracts 1
      evm_recorder_new = (inp, r1)" by fastforce
  have lc: "offset_to_line_col example_source 0 = (1, 0)" unfolding example_source_def by code_simp
  have "mi_registry inp = two_contracts"
    using inp by (auto simp: multi_input_of_def Let_def split: prod.splits)
  then have "concat (map (run_steps inp) (depth_runs example_call 0 1 [entry_frame 1] example_call)) =
      [(''A.sol'', 1, 1), (''B.sol'', 1, 1), (''A.sol'', 1, 1)]"
    unfolding example_call_runs
    by (simp add: run_steps_def frame_source_def entry_frame_def two_contracts_get example_unit_def
        frame_input_def place_of_def place_def resolve_pc_def vec_get_def example_call_def example_log_def
        example_map_def example_source_def step_at_def path_at_def usize_of_i32_def
        lc [unfolded example_source_def])
  with frame_steps_follow_artifacts [OF example_call_depths(1,2) inp] show ?thesis
    by (auto simp: evm_recorder_new_def steps_of_def)
qed

text \<open>
  C8: on a trace that never leaves the entry contract, the loop over several contracts writes the
  same steps as the loop over one contract run on the artifacts registered for that contract, when
  its instruction table is the one built from its code. The storage layouts and ASTs given play no part.
\<close>

theorem single_contract_steps_agree:
  assumes "\<forall>lg\<in>set logs. log_depth lg = 1" and "registry_get registry a = Some artifacts"
    and "ca_pc_to_idx artifacts = build_pc_to_instruction_index (ca_runtime_bytecode artifacts)"
  shows "\<exists>t r1 r2. record_from_structlog_multi_contract env k logs registry a r = Some (t, r1) \<and>
    record_from_structlog env k logs (ca_source_map artifacts) (ca_runtime_bytecode artifacts)
      (ca_source_paths artifacts) (ca_source_contents artifacts) layout ast r = Some r2 \<and>
    steps_of r1 = steps_of r2"
proof (cases "logs = []")
  case True
  then show ?thesis by (simp add: record_from_structlog_multi_contract_def record_from_structlog_def)
next
  case False
  obtain one r2 where one: "recorder_input env k logs (ca_source_map artifacts) (ca_runtime_bytecode artifacts)
      (ca_source_paths artifacts) (ca_source_contents artifacts) layout ast r = (one, r2)" by fastforce
  have "\<forall>lg\<in>set logs. 1 \<le> log_depth lg" using assms(1) by simp
  from single_steps [OF this False one] level_steps [OF assms False one] show ?thesis by auto
qed

theorem single_contract_steps_agree_witness:
  "\<exists>t r1 r2. record_from_structlog_multi_contract example_env (\<lambda>_. []) [example_log 0 1, example_log 0 1]
        two_contracts 1 evm_recorder_new = Some (t, r1) \<and>
      record_from_structlog example_env (\<lambda>_. []) [example_log 0 1, example_log 0 1] example_map [0x01]
        [''A.sol''] [example_source] None None evm_recorder_new = Some r2 \<and>
      steps_of r1 = steps_of r2"
proof -
  have "build_pc_to_instruction_index [0x01] = [0]" by code_simp
  then show ?thesis
    using single_contract_steps_agree [OF _ two_contracts_get(1), of "[example_log 0 1, example_log 0 1]"
        example_env "\<lambda>_. []" evm_recorder_new None None]
    by (simp add: example_unit_def example_log_def)
qed

end
