(* ===== verification/Inspector.thy ===== *)
theory Inspector
  imports Frame_Stack
begin

text \<open>
  \<^verbatim>\<open>src/inspector.rs\<close>: the inspector that revm calls back while it executes a
  transaction. Every hook appends to the execution data; the hooks that open and close a frame also
  move the current depth. A run of revm is a sequence of hooks; what a hook reads from the
  interpreter is an argument. The table of opcode names is revm's and a parameter. The depth, a
  \<open>u64\<close>, is a \<open>nat\<close>: it counts open frames.
\<close>

section \<open>Data\<close>

record step_data =
  sd_pc :: nat
  sd_opcode :: byte
  sd_opcode_name :: string
  sd_depth :: nat
  sd_stack :: "u256 list"
  sd_memory_size :: nat

datatype call_kind = KCall | KCallCode | KDelegateCall | KStaticCall | KCreate | KCreate2

record call_data =
  cd_kind :: call_kind
  cd_caller :: address
  cd_target :: address
  cd_value :: u256
  cd_gas_limit :: nat

record log_entry =
  le_address :: address
  le_topics :: "u256 list"
  le_data :: "byte list"

record execution_data =
  ed_steps :: "step_data list"
  ed_calls :: "call_data list"
  ed_logs :: "log_entry list"
  ed_selfdestructs :: "(address \<times> address \<times> u256) list"

record inspector =
  in_data :: execution_data
  in_current_depth :: nat

text \<open>What revm passes to the hooks.\<close>

datatype call_scheme = SchemeCall | SchemeCallCode | SchemeDelegateCall | SchemeStaticCall

record call_inputs =
  ci_scheme :: call_scheme
  ci_transfer_value :: "u256 option"
  ci_caller :: address
  ci_target_address :: address
  ci_gas_limit :: nat

datatype create_scheme = SchemeCreate | SchemeCreate2 u256 | SchemeCustom

record create_inputs =
  cr_scheme :: create_scheme
  cr_caller :: address
  cr_value :: u256
  cr_gas_limit :: nat

record interpreter =
  ip_pc :: nat
  ip_opcode :: byte
  ip_stack :: "u256 list"
  ip_memory_size :: nat

section \<open>Operations\<close>

definition execution_data_empty :: execution_data where
  "execution_data_empty = \<lparr>ed_steps = [], ed_calls = [], ed_logs = [], ed_selfdestructs = []\<rparr>"

definition inspector_new :: inspector where
  "inspector_new = \<lparr>in_data = execution_data_empty, in_current_depth = 0\<rparr>"

definition is_empty_data :: "execution_data \<Rightarrow> bool" where
  "is_empty_data d = (ed_steps d = [])"

definition step_count :: "execution_data \<Rightarrow> nat" where
  "step_count d = length (ed_steps d)"

definition upper_hex_digit :: "nat \<Rightarrow> char" where
  "upper_hex_digit n = (if n < 10 then char_of (48 + n) else char_of (55 + n))"

definition opcode_name :: "(byte \<Rightarrow> string option) \<Rightarrow> byte \<Rightarrow> string" where
  "opcode_name table opcode =
     (case table opcode of
        Some n \<Rightarrow> n
      | None \<Rightarrow> ''UNKNOWN_0x'' @ [upper_hex_digit (unat opcode div 16), upper_hex_digit (unat opcode mod 16)])"

definition on_step :: "(byte \<Rightarrow> string option) \<Rightarrow> interpreter \<Rightarrow> inspector \<Rightarrow> inspector" where
  "on_step table interp s =
     s\<lparr>in_data := (in_data s)\<lparr>ed_steps := ed_steps (in_data s) @
         [\<lparr>sd_pc = ip_pc interp, sd_opcode = ip_opcode interp,
           sd_opcode_name = opcode_name table (ip_opcode interp), sd_depth = in_current_depth s,
           sd_stack = ip_stack interp, sd_memory_size = ip_memory_size interp\<rparr>]\<rparr>\<rparr>"

definition push_call :: "call_data \<Rightarrow> inspector \<Rightarrow> inspector" where
  "push_call c s = s\<lparr>in_data := (in_data s)\<lparr>ed_calls := ed_calls (in_data s) @ [c]\<rparr>\<rparr>"

definition call_of :: "call_inputs \<Rightarrow> call_data" where
  "call_of i =
     \<lparr>cd_kind = (case ci_scheme i of SchemeCall \<Rightarrow> KCall | SchemeDelegateCall \<Rightarrow> KDelegateCall
                                    | SchemeStaticCall \<Rightarrow> KStaticCall | SchemeCallCode \<Rightarrow> KCallCode),
      cd_caller = ci_caller i, cd_target = ci_target_address i,
      cd_value = (case ci_transfer_value i of Some v \<Rightarrow> v | None \<Rightarrow> 0), cd_gas_limit = ci_gas_limit i\<rparr>"

definition on_call :: "call_inputs \<Rightarrow> inspector \<Rightarrow> inspector" where
  "on_call i s = push_call (call_of i) (s\<lparr>in_current_depth := in_current_depth s + 1\<rparr>)"

definition create_of :: "create_inputs \<Rightarrow> call_data" where
  "create_of i =
     \<lparr>cd_kind = (case cr_scheme i of SchemeCreate \<Rightarrow> KCreate | SchemeCreate2 salt \<Rightarrow> KCreate2
                                    | SchemeCustom \<Rightarrow> KCreate),
      cd_caller = cr_caller i, cd_target = 0, cd_value = cr_value i, cd_gas_limit = cr_gas_limit i\<rparr>"

definition on_create :: "create_inputs \<Rightarrow> inspector \<Rightarrow> inspector" where
  "on_create i s = push_call (create_of i) (s\<lparr>in_current_depth := in_current_depth s + 1\<rparr>)"

text \<open>\<open>call_end\<close>, and \<open>create_end\<close>, which does the same.\<close>

definition on_frame_end :: "inspector \<Rightarrow> inspector" where
  "on_frame_end s = (if 0 < in_current_depth s then s\<lparr>in_current_depth := in_current_depth s - 1\<rparr> else s)"

definition on_create_end :: "inspector \<Rightarrow> inspector" where
  "on_create_end s = (if 0 < in_current_depth s then s\<lparr>in_current_depth := in_current_depth s - 1\<rparr> else s)"

definition into_execution_data :: "inspector \<Rightarrow> execution_data" where
  "into_execution_data s = in_data s"

declare into_execution_data_def [simp]

definition on_log :: "log_entry \<Rightarrow> inspector \<Rightarrow> inspector" where
  "on_log l s = s\<lparr>in_data := (in_data s)\<lparr>ed_logs := ed_logs (in_data s) @ [l]\<rparr>\<rparr>"

definition on_selfdestruct :: "address \<Rightarrow> address \<Rightarrow> u256 \<Rightarrow> inspector \<Rightarrow> inspector" where
  "on_selfdestruct contract target val s =
     s\<lparr>in_data := (in_data s)\<lparr>ed_selfdestructs := ed_selfdestructs (in_data s) @ [(contract, target, val)]\<rparr>\<rparr>"

section \<open>Executions\<close>

text \<open>The hooks, and the order in which an execution calls them: a frame is opened, its steps,
  logs and inner frames follow, and it is closed.\<close>

datatype hook =
    HStep interpreter
  | HCall call_inputs
  | HCreate create_inputs
  | HEnd
  | HCreateEnd
  | HLog log_entry
  | HSelfdestruct address address u256

fun run_hook :: "(byte \<Rightarrow> string option) \<Rightarrow> hook \<Rightarrow> inspector \<Rightarrow> inspector" where
  "run_hook table (HStep i) s = on_step table i s"
| "run_hook table (HCall i) s = on_call i s"
| "run_hook table (HCreate i) s = on_create i s"
| "run_hook table HEnd s = on_frame_end s"
| "run_hook table HCreateEnd s = on_create_end s"
| "run_hook table (HLog l) s = on_log l s"
| "run_hook table (HSelfdestruct c t v) s = on_selfdestruct c t v s"

definition run_hooks :: "(byte \<Rightarrow> string option) \<Rightarrow> hook list \<Rightarrow> inspector \<Rightarrow> inspector" where
  "run_hooks table hs s = fold (run_hook table) hs s"

fun closing :: "hook \<Rightarrow> hook" where
  "closing (HCreate i) = HCreateEnd"
| "closing h = HEnd"

inductive execution :: "hook list \<Rightarrow> bool" where
  execution_Nil: "execution []"
| execution_plain: "execution hs \<Longrightarrow> h \<notin> {HEnd, HCreateEnd} \<union> range HCall \<union> range HCreate \<Longrightarrow> execution (h # hs)"
| execution_frame: "execution body \<Longrightarrow> execution hs \<Longrightarrow> f \<in> range HCall \<union> range HCreate \<Longrightarrow>
     execution (f # body @ closing f # hs)"

text \<open>The contract of the call depth.\<close>

definition open_hook :: "call_inputs + create_inputs \<Rightarrow> inspector \<Rightarrow> inspector option" where
  "open_hook h s = Some (case h of Inl i \<Rightarrow> on_call i s | Inr i \<Rightarrow> on_create i s)"

interpretation inspector_depth: call_depth open_hook "\<lambda>_. Some \<circ> on_frame_end" "\<lambda>_. True" in_current_depth
  by unfold_locales
    (auto simp: open_hook_def on_call_def on_create_def push_call_def on_frame_end_def split: sum.split)

section \<open>Lemmas\<close>

text \<open>The depth a sequence of hooks leads to, computed without the inspector.\<close>

fun hook_depth :: "hook list \<Rightarrow> nat \<Rightarrow> nat" where
  "hook_depth [] d = d"
| "hook_depth (HCall i # hs) d = hook_depth hs (d + 1)"
| "hook_depth (HCreate i # hs) d = hook_depth hs (d + 1)"
| "hook_depth (HEnd # hs) d = hook_depth hs (d - 1)"
| "hook_depth (HCreateEnd # hs) d = hook_depth hs (d - 1)"
| "hook_depth (h # hs) d = hook_depth hs d"

text \<open>The steps, calls, logs and selfdestructs of a sequence.\<close>

fun hook_steps :: "(byte \<Rightarrow> string option) \<Rightarrow> hook list \<Rightarrow> nat \<Rightarrow> step_data list" where
  "hook_steps table [] d = []"
| "hook_steps table (HStep i # hs) d =
     \<lparr>sd_pc = ip_pc i, sd_opcode = ip_opcode i, sd_opcode_name = opcode_name table (ip_opcode i),
      sd_depth = d, sd_stack = ip_stack i, sd_memory_size = ip_memory_size i\<rparr> # hook_steps table hs d"
| "hook_steps table (HCall i # hs) d = hook_steps table hs (d + 1)"
| "hook_steps table (HCreate i # hs) d = hook_steps table hs (d + 1)"
| "hook_steps table (HEnd # hs) d = hook_steps table hs (d - 1)"
| "hook_steps table (HCreateEnd # hs) d = hook_steps table hs (d - 1)"
| "hook_steps table (h # hs) d = hook_steps table hs d"

definition hook_calls :: "hook list \<Rightarrow> call_data list" where
  "hook_calls hs = List.map_filter
     (\<lambda>h. case h of HCall i \<Rightarrow> Some (call_of i) | HCreate i \<Rightarrow> Some (create_of i) | _ \<Rightarrow> None) hs"

definition hook_logs :: "hook list \<Rightarrow> log_entry list" where
  "hook_logs hs = List.map_filter (\<lambda>h. case h of HLog l \<Rightarrow> Some l | _ \<Rightarrow> None) hs"

lemmas hook_effects = on_step_def on_call_def on_create_def on_frame_end_def on_create_end_def on_log_def
  on_selfdestruct_def push_call_def

lemma run_hooks_Cons: "run_hooks table (h # hs) s = run_hooks table hs (run_hook table h s)"
  by (simp add: run_hooks_def)

lemma run_hooks_effect:
  "in_current_depth (run_hooks table hs s) = hook_depth hs (in_current_depth s) \<and>
   ed_steps (in_data (run_hooks table hs s)) = ed_steps (in_data s) @ hook_steps table hs (in_current_depth s) \<and>
   ed_calls (in_data (run_hooks table hs s)) = ed_calls (in_data s) @ hook_calls hs \<and>
   ed_logs (in_data (run_hooks table hs s)) = ed_logs (in_data s) @ hook_logs hs"
proof (induction hs arbitrary: s)
  case Nil
  then show ?case by (simp add: run_hooks_def hook_calls_def hook_logs_def map_filter_simps)
next
  case (Cons h hs)
  then show ?case
    by (cases h) (simp_all add: run_hooks_Cons hook_effects hook_calls_def hook_logs_def map_filter_simps)
qed

lemma hook_depth_append: "hook_depth (xs @ ys) d = hook_depth ys (hook_depth xs d)"
  by (induction xs d rule: hook_depth.induct) simp_all

lemma hook_steps_append: "hook_steps table (xs @ ys) d = hook_steps table xs d @ hook_steps table ys (hook_depth xs d)"
  by (induction table xs d rule: hook_steps.induct) simp_all

lemma hook_depth_plain:
  "h \<notin> {HEnd, HCreateEnd} \<union> range HCall \<union> range HCreate \<Longrightarrow> hook_depth (h # hs) d = hook_depth hs d"
  by (cases h) auto

lemma hook_depth_frame: "f \<in> range HCall \<union> range HCreate \<Longrightarrow> hook_depth (f # hs) d = hook_depth hs (d + 1)"
  by auto

lemma hook_closing [simp]:
  "hook_depth (closing f # hs) d = hook_depth hs (d - 1)"
  "hook_steps table (closing f # hs) d = hook_steps table hs (d - 1)"
  by (cases f; simp)+

lemma execution_depth: "execution hs \<Longrightarrow> hook_depth hs d = d"
proof (induction arbitrary: d rule: execution.induct)
  case execution_Nil
  then show ?case by simp
next
  case (execution_plain hs h)
  then show ?case using hook_depth_plain by simp
next
  case (execution_frame body hs f)
  then show ?case by (simp add: hook_depth_frame hook_depth_append del: Un_iff)
qed

lemma hook_steps_depth: "execution hs \<Longrightarrow> \<forall>x\<in>set (hook_steps table hs d). d \<le> sd_depth x"
proof (induction arbitrary: d rule: execution.induct)
  case execution_Nil
  then show ?case by simp
next
  case (execution_plain hs h)
  then show ?case by (cases h) auto
next
  case (execution_frame body hs f)
  have "\<forall>x\<in>set (hook_steps table body (Suc d)). d \<le> sd_depth x"
    using execution_frame.IH(1) [of "Suc d"] by auto
  with execution_frame show ?case
    by (auto simp: hook_steps_append execution_depth)
qed

lemma hook_calls_append: "hook_calls (xs @ ys) = hook_calls xs @ hook_calls ys"
  and hook_logs_append: "hook_logs (xs @ ys) = hook_logs xs @ hook_logs ys"
  by (simp_all add: hook_calls_def hook_logs_def List.map_filter_def)

lemma hook_ends: "hook_calls [closing f] = []" "hook_logs [closing f] = []"
  by (cases f; simp add: hook_calls_def hook_logs_def map_filter_simps)+

lemma hook_frame_end: "hook_calls (f # body @ [closing f]) = hook_calls (f # body)"
  by (simp add: hook_calls_append [of "f # body" "[closing f]", simplified] hook_ends)

lemma hook_logs_frame:
  "f \<in> range HCall \<union> range HCreate \<Longrightarrow> hook_logs (f # body @ [closing f]) = hook_logs body"
  using hook_logs_append [of body "[closing f]"] hook_ends(2) [of f]
  by (auto simp: hook_logs_def map_filter_simps)

section \<open>Property\<close>

text \<open>
  C19: for every execution of a transaction, whose outermost call opens one frame, the inspector
  records exactly the steps, calls and logs of that execution, in order, each step with the number
  of frames open around it: depth one in the outermost frame. Once the execution is over the depth
  is back at zero, so the inspector can be used for another.
\<close>

theorem inspector_records_execution:
  assumes "execution body" and "f \<in> range HCall \<union> range HCreate"
    and "s = run_hooks table (f # body @ [closing f]) inspector_new"
  shows "in_current_depth s = 0 \<and>
    ed_steps (in_data s) = hook_steps table body 1 \<and>
    (\<forall>x\<in>set (ed_steps (in_data s)). 1 \<le> sd_depth x) \<and>
    ed_calls (in_data s) = hook_calls (f # body) \<and> ed_logs (in_data s) = hook_logs body"
proof -
  have steps: "hook_steps table (f # body @ [closing f]) 0 = hook_steps table body 1"
    using assms(2) by (auto simp: hook_steps_append)
  have depth: "hook_depth (f # body @ [closing f]) 0 = 0"
    using execution_depth [OF execution_frame [OF assms(1) execution_Nil assms(2)], of 0] by simp
  from hook_steps_depth [OF assms(1), of table 1] steps depth assms(3)
    run_hooks_effect [of table "f # body @ [closing f]" inspector_new]
  show ?thesis
    by (simp add: inspector_new_def execution_data_empty_def hook_frame_end hook_logs_frame [OF assms(2)])
qed

definition sample_call :: hook where
  "sample_call = HCall \<lparr>ci_scheme = SchemeCall, ci_transfer_value = None, ci_caller = 1, ci_target_address = 2,
                         ci_gas_limit = 9\<rparr>"

definition sample_hook_step :: "nat \<Rightarrow> hook" where
  "sample_hook_step p = HStep \<lparr>ip_pc = p, ip_opcode = 0xf1, ip_stack = [], ip_memory_size = 0\<rparr>"

lemma inspector_records_execution_witness:
  "map sd_depth (ed_steps (in_data (run_hooks (\<lambda>_. Some ''CALL'')
     [sample_call, sample_hook_step 0, sample_call, sample_hook_step 0, HEnd, sample_hook_step 1, HEnd]
     inspector_new))) = [1, 2, 1]"
proof -
  have "execution [sample_hook_step 0, sample_call, sample_hook_step 0, HEnd, sample_hook_step 1]"
    using execution_plain [OF execution_frame [OF execution_plain [OF execution_Nil, of "sample_hook_step 0"]
        execution_plain [OF execution_Nil, of "sample_hook_step 1"], of sample_call], of "sample_hook_step 0"]
    by (auto simp: sample_hook_step_def sample_call_def)
  from inspector_records_execution [OF this, of sample_call _ "\<lambda>_. Some ''CALL''", OF _ refl]
  show ?thesis by (simp add: sample_hook_step_def sample_call_def)
qed

end
