(* ===== verification/Replay.thy ===== *)
theory Replay
  imports Host_Interface Inspector
begin

text \<open>
  \<^verbatim>\<open>src/replay.rs\<close>: a transaction of a mined block is executed again on a fork of the chain, after
  the transactions that precede it in the block, under the inspector. The node behind the RPC
  address and revm are parameters: the node as a record of its answers, revm as a record of the
  state of a fork and of the two ways of executing a transaction on it.
\<close>

section \<open>Hard forks\<close>

text \<open>The values of revm's \<open>SpecId\<close> the sources name, in the order of the forks.\<close>

datatype spec_id = BERLIN | LONDON | SHANGHAI | CANCUN | PRAGUE

fun spec_rank :: "spec_id \<Rightarrow> nat" where
  "spec_rank BERLIN = 0"
| "spec_rank LONDON = 1"
| "spec_rank SHANGHAI = 2"
| "spec_rank CANCUN = 3"
| "spec_rank PRAGUE = 4"

lemma spec_rank_inject: "spec_rank a = spec_rank b \<longleftrightarrow> a = b"
  by (cases a; cases b) simp_all

instantiation spec_id :: linorder
begin

definition less_eq_spec_id :: "spec_id \<Rightarrow> spec_id \<Rightarrow> bool" where
  "less_eq_spec_id a b \<longleftrightarrow> spec_rank a \<le> spec_rank b"

definition less_spec_id :: "spec_id \<Rightarrow> spec_id \<Rightarrow> bool" where
  "less_spec_id a b \<longleftrightarrow> spec_rank a < spec_rank b"

instance
  by standard (auto simp: less_eq_spec_id_def less_spec_id_def spec_rank_inject)

end

record block_header =
  bh_beneficiary :: address
  bh_timestamp :: nat
  bh_difficulty :: u256
  bh_base_fee_per_gas :: "nat option"
  bh_gas_limit :: nat
  bh_mix_hash :: "u256 option"
  bh_excess_blob_gas :: "nat option"
  bh_withdrawals_root :: "u256 option"
  bh_requests_hash :: "u256 option"

definition spec_from_block_header :: "block_header \<Rightarrow> spec_id" where
  "spec_from_block_header h =
     (if bh_requests_hash h \<noteq> None then PRAGUE
      else if bh_excess_blob_gas h \<noteq> None then CANCUN
      else if bh_withdrawals_root h \<noteq> None then SHANGHAI
      else if bh_base_fee_per_gas h \<noteq> None then LONDON
      else BERLIN)"

section \<open>Transactions\<close>

text \<open>A transaction as the node describes it. The last two fields are part of a transaction and
  are read by nothing below.\<close>

record chain_tx =
  tx_from :: address
  tx_to :: "address option"
  tx_gas_price :: "nat option"
  tx_max_fee_per_gas :: nat
  tx_max_priority_fee_per_gas :: "nat option"
  tx_gas_limit :: nat
  tx_value :: u256
  tx_input :: "byte list"
  tx_nonce :: nat
  tx_chain_id :: "nat option"
  tx_access_list :: "(address \<times> u256 list) list option"
  tx_blob_versioned_hashes :: "u256 list option"

datatype tx_kind = KindCall address | KindCreate

text \<open>What is set on revm's \<open>TxEnvBuilder\<close>. The fields it fills in itself are revm's.\<close>

record tx_env =
  te_caller :: address
  te_gas_limit :: nat
  te_gas_price :: nat
  te_kind :: tx_kind
  te_value :: u256
  te_data :: "byte list"
  te_nonce :: nat
  te_gas_priority_fee :: "nat option"
  te_chain_id :: "nat option"

definition alloy_tx_to_revm_tx :: "chain_tx \<Rightarrow> tx_env" where
  "alloy_tx_to_revm_tx tx =
     (let kind = (case tx_to tx of Some addr \<Rightarrow> KindCall addr | None \<Rightarrow> KindCreate);
          gas_price = (case tx_gas_price tx of Some p \<Rightarrow> p | None \<Rightarrow> tx_max_fee_per_gas tx);
          builder = \<lparr>te_caller = tx_from tx, te_gas_limit = tx_gas_limit tx, te_gas_price = gas_price,
                     te_kind = kind, te_value = tx_value tx, te_data = tx_input tx,
                     te_nonce = tx_nonce tx, te_gas_priority_fee = None, te_chain_id = None\<rparr>;
          builder = (case tx_max_priority_fee_per_gas tx of
                       Some fee \<Rightarrow> builder\<lparr>te_gas_priority_fee := Some fee\<rparr> | None \<Rightarrow> builder) in
      (case tx_chain_id tx of
         Some chain_id \<Rightarrow> builder\<lparr>te_chain_id := Some chain_id\<rparr> | None \<Rightarrow> builder))"

section \<open>The environment\<close>

record block_env =
  be_number :: nat
  be_beneficiary :: address
  be_timestamp :: nat
  be_difficulty :: u256
  be_basefee :: nat
  be_gas_limit :: nat
  be_prevrandao :: "u256 option"
  be_blob_gas :: "(nat \<times> nat) option"

datatype block_transactions = FullTxs "chain_tx list" | HashTxs "u256 list" | UncleTxs

record chain_block =
  cb_header :: block_header
  cb_transactions :: block_transactions

text \<open>What the node says of a transaction, and the answers of the node: an error, or a value.\<close>

record located_tx =
  lt_block_number :: "nat option"
  lt_index :: "nat option"

record rpc_node =
  rpc_url_parses :: bool
  rpc_transaction :: "u256 \<Rightarrow> string + located_tx option"
  rpc_block :: "nat \<Rightarrow> string + chain_block option"
  rpc_chain_id :: "string + nat"

text \<open>Everything an execution depends on besides the state: chain, fork and block.\<close>

record vm_config =
  vc_spec :: spec_id
  vc_chain_id :: nat
  vc_block :: block_env

text \<open>revm: the fork of the chain after a block, the execution of a transaction (it answers the
  committed state), the execution under an inspector (it answers the hooks it called as well), the
  price constructor of blob gas, and the names of the opcodes.\<close>

record 's revm =
  vm_fork :: "nat \<Rightarrow> 's"
  vm_transact_commit :: "vm_config \<Rightarrow> tx_env \<Rightarrow> 's \<Rightarrow> string + 's"
  vm_inspect_tx_commit :: "vm_config \<Rightarrow> tx_env \<Rightarrow> 's \<Rightarrow> string + ('s \<times> hook list)"
  vm_new_blob_price :: "nat \<Rightarrow> nat \<times> nat"
  vm_opcode_names :: "byte \<Rightarrow> string option"

definition block_env_of :: "(nat \<Rightarrow> nat \<times> nat) \<Rightarrow> nat \<Rightarrow> block_header \<Rightarrow> block_env" where
  "block_env_of new_blob_price block_number h =
     \<lparr>be_number = block_number, be_beneficiary = bh_beneficiary h, be_timestamp = bh_timestamp h,
      be_difficulty = bh_difficulty h,
      be_basefee = (case bh_base_fee_per_gas h of Some f \<Rightarrow> f | None \<Rightarrow> 0),
      be_gas_limit = bh_gas_limit h, be_prevrandao = bh_mix_hash h,
      be_blob_gas = map_option new_blob_price (bh_excess_blob_gas h)\<rparr>"

section \<open>Replay\<close>

datatype replay_error =
    BadUrl
  | RpcFailed string
  | TransactionNotFound u256
  | TransactionPending
  | TransactionHasNoIndex
  | BlockNotFound nat
  | NoFullTransactions
  | PriorTxFailed nat string
  | TargetTxFailed string

fun replay_prior ::
  "(tx_env \<Rightarrow> 's \<Rightarrow> string + 's) \<Rightarrow> nat \<Rightarrow> nat \<Rightarrow> chain_tx list \<Rightarrow> 's \<Rightarrow> (replay_error, 's) outcome"
where
  "replay_prior transact tx_index i [] s = Returns s"
| "replay_prior transact tx_index i (prior_tx # txs) s =
     (if tx_index \<le> i then Returns s
      else and_then (map_err (PriorTxFailed i) (transact (alloy_tx_to_revm_tx prior_tx) s))
             (\<lambda>s'. replay_prior transact tx_index (i + 1) txs s'))"

definition replay_target ::
  "'s revm \<Rightarrow> vm_config \<Rightarrow> chain_tx list \<Rightarrow> nat \<Rightarrow> 's \<Rightarrow> (replay_error, execution_data) outcome"
where
  "replay_target vm cfg transactions tx_index s =
     (case vec_get transactions tx_index of
        None \<Rightarrow> Panics
      | Some target_tx \<Rightarrow>
          and_then (map_err TargetTxFailed (vm_inspect_tx_commit vm cfg (alloy_tx_to_revm_tx target_tx) s))
            (\<lambda>(_, hooks). Returns (into_execution_data (run_hooks (vm_opcode_names vm) hooks inspector_new))))"

definition replay_transaction ::
  "rpc_node \<Rightarrow> 's revm \<Rightarrow> u256 \<Rightarrow> (replay_error, execution_data) outcome"
where
  "replay_transaction node vm tx_hash =
     and_then (guard_that (rpc_url_parses node) BadUrl) (\<lambda>_.
     and_then (map_err RpcFailed (rpc_transaction node tx_hash)) (\<lambda>found.
     and_then (ok_or (TransactionNotFound tx_hash) found) (\<lambda>tx.
     and_then (ok_or TransactionPending (lt_block_number tx)) (\<lambda>block_number.
     and_then (ok_or TransactionHasNoIndex (lt_index tx)) (\<lambda>tx_index.
     and_then (map_err RpcFailed (rpc_block node block_number)) (\<lambda>block_found.
     and_then (ok_or (BlockNotFound block_number) block_found) (\<lambda>block.
     and_then (map_err RpcFailed (rpc_chain_id node)) (\<lambda>chain_id.
       let parent_block_id = (block_number + 2 ^ 64 - 1) mod 2 ^ 64;
           cfg = \<lparr>vc_spec = spec_from_block_header (cb_header block), vc_chain_id = chain_id,
                  vc_block = block_env_of (vm_new_blob_price vm) block_number (cb_header block)\<rparr> in
       (case cb_transactions block of
          FullTxs transactions \<Rightarrow>
            and_then (replay_prior (vm_transact_commit vm cfg) tx_index 0 transactions
                        (vm_fork vm parent_block_id))
              (replay_target vm cfg transactions tx_index)
        | _ \<Rightarrow> Fails NoFullTransactions)))))))))"

section \<open>Lemmas\<close>

text \<open>The state of the block after some of its transactions, each committed on top of the last.\<close>

inductive commits :: "(tx_env \<Rightarrow> 's \<Rightarrow> string + 's) \<Rightarrow> chain_tx list \<Rightarrow> 's \<Rightarrow> 's \<Rightarrow> bool"
  for transact where
  commits_Nil: "commits transact [] s s"
| commits_Cons: "transact (alloy_tx_to_revm_tx tx) s = Inr s1 \<Longrightarrow> commits transact txs s1 s2 \<Longrightarrow>
     commits transact (tx # txs) s s2"

inductive_simps commits_Nil_iff [simp]: "commits transact [] s s'"
inductive_simps commits_Cons_iff: "commits transact (tx # txs) s s'"

lemma replay_prior_Returns:
  "replay_prior transact k i txs s = Returns s' \<longleftrightarrow> commits transact (take (k - i) txs) s s'"
proof (induction transact k i txs s arbitrary: s' rule: replay_prior.induct)
  case (2 transact k i tx txs s)
  show ?case
  proof (cases "k \<le> i")
    case False
    then have "k - i = Suc (k - (i + 1))" by simp
    with 2 [OF False] False show ?thesis by (auto simp: and_then_Returns commits_Cons_iff)
  qed auto
qed auto

lemma replay_prior_no_panic: "replay_prior transact k i txs s \<noteq> Panics"
  by (induction transact k i txs s rule: replay_prior.induct) (auto simp: and_then_def map_err_def split: sum.split)

lemma replay_prior_Fails:
  "replay_prior transact k i txs s = Fails e \<longleftrightarrow>
     (\<exists>j < length txs. i + j < k \<and> (\<exists>s1 m. commits transact (take j txs) s s1 \<and>
        transact (alloy_tx_to_revm_tx (txs ! j)) s1 = Inl m \<and> e = PriorTxFailed (i + j) m))"
proof (induction transact k i txs s rule: replay_prior.induct)
  case (1 transact k i s)
  then show ?case by simp
next
  case (2 transact k i tx txs s)
  show ?case
  proof (cases "k \<le> i")
    case True
    then show ?thesis by simp
  next
    case False
    show ?thesis
    proof (cases "transact (alloy_tx_to_revm_tx tx) s")
      case (Inl m)
      with False show ?thesis by (auto simp: less_Suc_eq_0_disj commits_Cons_iff)
    next
      case (Inr s1)
      with 2 [OF False, of s1] False show ?thesis by (simp add: Ex_less_Suc2 commits_Cons_iff)
    qed
  qed
qed

text \<open>The header of a block mined under a fork has the optional fields of that fork and of those
  before it.\<close>

definition header_of_fork :: "spec_id \<Rightarrow> block_header \<Rightarrow> bool" where
  "header_of_fork f h \<longleftrightarrow>
     (bh_base_fee_per_gas h \<noteq> None \<longleftrightarrow> LONDON \<le> f) \<and>
     (bh_withdrawals_root h \<noteq> None \<longleftrightarrow> SHANGHAI \<le> f) \<and>
     (bh_excess_blob_gas h \<noteq> None \<longleftrightarrow> CANCUN \<le> f) \<and>
     (bh_requests_hash h \<noteq> None \<longleftrightarrow> PRAGUE \<le> f)"

lemma spec_le_simps [simp]: "a \<le> b \<longleftrightarrow> spec_rank a \<le> spec_rank b"
  by (simp add: less_eq_spec_id_def)

lemma spec_of_fork: "header_of_fork f h \<Longrightarrow> spec_from_block_header h = f"
  by (cases f) (auto simp: header_of_fork_def spec_from_block_header_def)

text \<open>The configuration under which a block is executed again.\<close>

definition config_of :: "'s revm \<Rightarrow> nat \<Rightarrow> nat \<Rightarrow> block_header \<Rightarrow> vm_config" where
  "config_of vm chain_id n h =
     \<lparr>vc_spec = spec_from_block_header h, vc_chain_id = chain_id,
      vc_block = block_env_of (vm_new_blob_price vm) n h\<rparr>"

text \<open>A node that answers every question about one transaction.\<close>

definition serves :: "rpc_node \<Rightarrow> u256 \<Rightarrow> nat \<Rightarrow> nat \<Rightarrow> block_header \<Rightarrow> chain_tx list \<Rightarrow> nat \<Rightarrow> bool" where
  "serves node tx_hash n k h txs chain_id \<longleftrightarrow>
     rpc_url_parses node \<and>
     rpc_transaction node tx_hash = Inr (Some \<lparr>lt_block_number = Some n, lt_index = Some k\<rparr>) \<and>
     rpc_block node n = Inr (Some \<lparr>cb_header = h, cb_transactions = FullTxs txs\<rparr>) \<and>
     rpc_chain_id node = Inr chain_id \<and> 0 < n \<and> n < 2 ^ 64"

lemma parent_block: "0 < n \<Longrightarrow> n < 2 ^ 64 \<Longrightarrow> (n + 2 ^ 64 - 1) mod 2 ^ 64 = (n - 1 :: nat)"
proof -
  assume n: "0 < n" "n < 2 ^ 64"
  then have "n + 2 ^ 64 - 1 = (n - 1) + 2 ^ 64" by simp
  with n show ?thesis by (simp only: mod_add_self2) simp
qed

lemma replay_served:
  assumes "serves node tx_hash n k h txs chain_id"
  shows "replay_transaction node vm tx_hash =
    and_then (replay_prior (vm_transact_commit vm (config_of vm chain_id n h)) k 0 txs (vm_fork vm (n - 1)))
      (replay_target vm (config_of vm chain_id n h) txs k)"
proof -
  note s = assms [unfolded serves_def]
  have parent: "(n + 2 ^ 64 - 1) mod 2 ^ 64 = n - 1" by (rule parent_block) (use s in blast)+
  show ?thesis
    unfolding replay_transaction_def
    by (simp only: s and_then_simps guard_that_simps map_err_simps ok_or_simps located_tx.simps
        chain_block.simps block_transactions.simps Let_def parent config_of_def)
qed

section \<open>Properties\<close>

text \<open>
  C14: replaying a transaction answers data exactly when every transaction before it in the block
  commits, in the order of the block, on the fork of the parent block, and the transaction itself
  then executes. The data is what the inspector records during that execution, under the fork, the
  chain and the block environment of the header.
\<close>

theorem replay_traces_target_on_prestate:
  assumes "serves node tx_hash n k h txs chain_id" and "k < length txs" and "cfg = config_of vm chain_id n h"
  shows "replay_transaction node vm tx_hash = Returns d \<longleftrightarrow>
    (\<exists>s s' hooks. commits (vm_transact_commit vm cfg) (take k txs) (vm_fork vm (n - 1)) s \<and>
       vm_inspect_tx_commit vm cfg (alloy_tx_to_revm_tx (txs ! k)) s = Inr (s', hooks) \<and>
       d = in_data (run_hooks (vm_opcode_names vm) hooks inspector_new))"
proof -
  have get: "vec_get txs k = Some (txs ! k)" using assms(2) by simp
  show ?thesis
    unfolding replay_served [OF assms(1)] assms(3) [symmetric] and_then_Returns replay_prior_Returns
      replay_target_def get
    by (auto simp: and_then_Returns split: prod.splits)
qed

text \<open>
  C40: a replay stops at the first transaction of the block, before the target, that revm refuses,
  and names its position; it panics when the node gives the transaction a position outside the
  block and every transaction of the block commits.
\<close>

theorem failed_predecessor_reported:
  assumes "serves node tx_hash n k h txs chain_id" and "cfg = config_of vm chain_id n h"
  shows "(replay_transaction node vm tx_hash = Fails (PriorTxFailed j m) \<longleftrightarrow>
      j < length txs \<and> j < k \<and>
      (\<exists>s. commits (vm_transact_commit vm cfg) (take j txs) (vm_fork vm (n - 1)) s \<and>
         vm_transact_commit vm cfg (alloy_tx_to_revm_tx (txs ! j)) s = Inl m)) \<and>
    (replay_transaction node vm tx_hash = Panics \<longleftrightarrow>
      length txs \<le> k \<and> (\<exists>s. commits (vm_transact_commit vm cfg) txs (vm_fork vm (n - 1)) s))"
proof -
  let ?P = "replay_prior (vm_transact_commit vm cfg) k 0 txs (vm_fork vm (n - 1))"
  have target: "replay_target vm cfg txs k s \<noteq> Fails (PriorTxFailed j m)" for s
    by (auto simp: replay_target_def and_then_def map_err_def split: option.splits sum.splits)
  have panics: "replay_target vm cfg txs k s = Panics \<longleftrightarrow> length txs \<le> k" for s
    by (auto simp: replay_target_def and_then_def map_err_def split: option.splits sum.splits)
  have run: "replay_transaction node vm tx_hash = and_then ?P (replay_target vm cfg txs k)"
    using replay_served [OF assms(1)] assms(2) by simp
  have "and_then ?P (replay_target vm cfg txs k) = Fails (PriorTxFailed j m) \<longleftrightarrow> ?P = Fails (PriorTxFailed j m)"
    using target by (cases ?P) simp_all
  moreover have "and_then ?P (replay_target vm cfg txs k) = Panics \<longleftrightarrow> length txs \<le> k \<and> (\<exists>s. ?P = Returns s)"
    using panics replay_prior_no_panic [of "vm_transact_commit vm cfg" k 0 txs] by (cases ?P) auto
  ultimately show ?thesis
    unfolding run replay_prior_Fails replay_prior_Returns by (auto simp: take_all)
qed

text \<open>
  The fork of a block is recovered from the optional fields of its header, and a block of a
  later fork never gets an earlier one.
\<close>

theorem fork_recovered:
  assumes "header_of_fork f h" and "header_of_fork g h'"
  shows "spec_from_block_header h = f \<and>
    (f \<le> g \<longleftrightarrow> spec_from_block_header h \<le> spec_from_block_header h')"
  using spec_of_fork [OF assms(1)] spec_of_fork [OF assms(2)] by simp

text \<open>
  A replay does not depend on the access lists and blob hashes of the transactions of the
  block: they are not handed to revm, which charges gas by them.
\<close>

definition without_access_list :: "chain_tx \<Rightarrow> chain_tx" where
  "without_access_list tx = tx\<lparr>tx_access_list := None, tx_blob_versioned_hashes := None\<rparr>"

lemma alloy_tx_without: "alloy_tx_to_revm_tx (without_access_list tx) = alloy_tx_to_revm_tx tx"
  by (simp add: alloy_tx_to_revm_tx_def without_access_list_def Let_def split: option.split)

lemma replay_prior_without:
  "replay_prior transact k i (map without_access_list txs) s = replay_prior transact k i txs s"
  by (induction transact k i txs s rule: replay_prior.induct)
    (simp_all add: alloy_tx_without and_then_def map_err_def split: sum.split)

theorem access_lists_not_replayed:
  assumes "serves node tx_hash n k h txs chain_id"
    and "serves node' tx_hash n k h (map without_access_list txs) chain_id"
  shows "replay_transaction node' vm tx_hash = replay_transaction node vm tx_hash"
proof -
  have "vec_get (map without_access_list txs) k = map_option without_access_list (vec_get txs k)"
    by (simp add: vec_get_def)
  then have "replay_target vm cfg (map without_access_list txs) k s = replay_target vm cfg txs k s" for cfg s
    by (simp add: replay_target_def alloy_tx_without split: option.split)
  then show ?thesis
    by (simp add: replay_served [OF assms(1)] replay_served [OF assms(2)] replay_prior_without and_then_def
        split: outcome.split)
qed

section \<open>Witnesses\<close>

definition sample_header :: block_header where
  "sample_header = \<lparr>bh_beneficiary = 7, bh_timestamp = 1, bh_difficulty = 0, bh_base_fee_per_gas = Some 9,
     bh_gas_limit = 100, bh_mix_hash = None, bh_excess_blob_gas = None, bh_withdrawals_root = Some 5,
     bh_requests_hash = None\<rparr>"

definition sample_tx :: "nat \<Rightarrow> chain_tx" where
  "sample_tx v = \<lparr>tx_from = 1, tx_to = Some 2, tx_gas_price = None, tx_max_fee_per_gas = 3,
     tx_max_priority_fee_per_gas = Some 1, tx_gas_limit = 21000, tx_value = 0, tx_input = [], tx_nonce = v,
     tx_chain_id = Some 1, tx_access_list = Some [(2, [0])], tx_blob_versioned_hashes = None\<rparr>"

definition sample_node :: "chain_tx list \<Rightarrow> nat \<Rightarrow> rpc_node" where
  "sample_node txs k = \<lparr>rpc_url_parses = True,
     rpc_transaction = (\<lambda>_. Inr (Some \<lparr>lt_block_number = Some 8, lt_index = Some k\<rparr>)),
     rpc_block = (\<lambda>_. Inr (Some \<lparr>cb_header = sample_header, cb_transactions = FullTxs txs\<rparr>)),
     rpc_chain_id = Inr 1\<rparr>"

text \<open>An executor whose state is the list of nonces committed; it refuses nonce 99.\<close>

definition sample_vm :: "nat list revm" where
  "sample_vm = \<lparr>vm_fork = (\<lambda>n. [n]),
     vm_transact_commit = (\<lambda>_ tx s. if te_nonce tx = 99 then Inl ''nonce'' else Inr (s @ [te_nonce tx])),
     vm_inspect_tx_commit = (\<lambda>_ tx s. Inr (s, [HSelfdestruct 1 2 (of_nat (sum_list s))])),
     vm_new_blob_price = (\<lambda>g. (g, 1)), vm_opcode_names = (\<lambda>_. None)\<rparr>"

lemma sample_serves: "serves (sample_node txs k) h 8 k sample_header txs 1"
  by (simp add: serves_def sample_node_def)

lemma replay_traces_target_on_prestate_witness:
  "replay_transaction (sample_node [sample_tx 10, sample_tx 20, sample_tx 30] 2) sample_vm 5 =
     Returns (execution_data_empty\<lparr>ed_selfdestructs := [(1, 2, 37)]\<rparr>)"
  by (subst replay_traces_target_on_prestate [OF sample_serves _ refl])
    (simp_all add: sample_vm_def numeral_2_eq_2 commits_Cons_iff run_hooks_def on_selfdestruct_def
      inspector_new_def execution_data_empty_def alloy_tx_to_revm_tx_def sample_tx_def)

lemma failed_predecessor_reported_witness:
  "replay_transaction (sample_node [sample_tx 10, sample_tx 99, sample_tx 30] 2) sample_vm 5 =
     Fails (PriorTxFailed 1 ''nonce'')"
  by (rule failed_predecessor_reported [OF sample_serves refl, THEN conjunct1, THEN iffD2])
    (simp add: sample_vm_def commits_Cons_iff alloy_tx_to_revm_tx_def sample_tx_def)

lemma fork_recovered_witness: "spec_from_block_header sample_header = SHANGHAI"
  using fork_recovered [of SHANGHAI sample_header SHANGHAI sample_header]
  by (simp add: header_of_fork_def sample_header_def)

lemma access_lists_not_replayed_witness:
  "replay_transaction (sample_node (map without_access_list [sample_tx 10, sample_tx 20]) 1) sample_vm 5 =
     replay_transaction (sample_node [sample_tx 10, sample_tx 20] 1) sample_vm 5 \<and>
   sample_tx 10 \<noteq> without_access_list (sample_tx 10)"
proof
  show "sample_tx 10 \<noteq> without_access_list (sample_tx 10)"
    by (simp add: sample_tx_def without_access_list_def)
qed (rule access_lists_not_replayed [OF sample_serves sample_serves])

end
