(* ===== verification/Yul_Compile.thy ===== *)
theory Yul_Compile
  imports Host_Interface Source_Map
begin

text \<open>
  \<^verbatim>\<open>src/yul_compile.rs\<close>: compiling a pure Yul file. solc prints the deploy bytecode and an assembly
  document as text; the bytecode is decoded and a source map is made of the document, one entry for
  each item but the labels. Running solc, parsing JSON and decoding hexadecimal digits are
  parameters.
\<close>

section \<open>Operations\<close>

record yul_compile_output =
  yc_deploy_bytecode :: "byte list"
  yc_runtime_source_map :: source_map

datatype yul_error =
    SolcNotRun string
  | SolcFailed "byte list" "byte list"
  | OutputNotUtf8
  | MissingHeader string
  | NoHexLine
  | InvalidHex
  | NoJson
  | InvalidJson
  | MissingRuntimeCode
  | InstructionMissingName

definition BINARY_MARKER :: string where
  "BINARY_MARKER = ''Binary representation:''"

definition ASSEMBLY_MARKER :: string where
  "ASSEMBLY_MARKER = ''EVM assembly:''"

definition parse_binary_representation ::
  "(string \<Rightarrow> byte list option) \<Rightarrow> string \<Rightarrow> (yul_error, byte list) outcome"
where
  "parse_binary_representation hex_decode stdout =
     and_then (ok_or (MissingHeader BINARY_MARKER) (str_find BINARY_MARKER stdout)) (\<lambda>found.
     let after = found + length BINARY_MARKER in
     and_then (ok_or NoHexLine (List.find (\<lambda>l. l \<noteq> []) (map trim (str_lines (drop after stdout))))) (\<lambda>hex_line.
     ok_or InvalidHex (hex_decode hex_line)))"

definition extract_asm_json :: "string \<Rightarrow> (yul_error, string) outcome" where
  "extract_asm_json stdout =
     and_then (ok_or (MissingHeader ASSEMBLY_MARKER) (str_find ASSEMBLY_MARKER stdout)) (\<lambda>found.
     let after = drop (found + length ASSEMBLY_MARKER) stdout in
     and_then (ok_or NoJson (str_find ''{'' after)) (\<lambda>json_start.
     let after_brace = drop json_start after;
         line_end = (case str_find [CHR 0x0A] after_brace of Some n \<Rightarrow> n | None \<Rightarrow> length after_brace) in
     Returns (trim (take line_end after_brace))))"

text \<open>\<open>inst.get(key).and_then(|v| v.as_i64()).unwrap_or(0) as i32\<close>\<close>

definition get_i32 :: "json \<Rightarrow> string \<Rightarrow> int" where
  "get_i32 inst key = wrap_i32 (case Option.bind (json_get inst key) as_i64 of Some i \<Rightarrow> i | None \<Rightarrow> 0)"

definition asm_jump :: "json \<Rightarrow> jump_type" where
  "asm_jump inst =
     (let jump = get_str inst ''jumpType'' in
      if jump = Some ''[in]'' then Into else if jump = Some ''[out]'' then OutOf else Regular)"

definition asm_entry :: "json \<Rightarrow> source_map_entry" where
  "asm_entry inst =
     (let begin_at = get_i32 inst ''begin''; end_at = get_i32 inst ''end'';
          len = max (wrap_i32 (end_at - begin_at)) 0 in
      \<lparr>sme_offset = begin_at, sme_length = len, sme_file_index = 0, sme_jump_type = asm_jump inst,
       sme_modifier_depth = 0\<rparr>)"

fun synthesize_entries :: "json list \<Rightarrow> (yul_error, source_map_entry list) outcome" where
  "synthesize_entries [] = Returns []"
| "synthesize_entries (inst # rest) =
     (case get_str inst ''name'' of
        None \<Rightarrow> Fails InstructionMissingName
      | Some name \<Rightarrow>
          if name = ''tag'' then synthesize_entries rest
          else and_then (synthesize_entries rest) (\<lambda>entries. Returns (asm_entry inst # entries)))"

definition synthesize_source_map :: "json list \<Rightarrow> (yul_error, source_map) outcome" where
  "synthesize_source_map asm_code =
     and_then (synthesize_entries asm_code) (\<lambda>entries. Returns (from_entries entries))"

definition compile_yul ::
  "(string \<Rightarrow> string list \<Rightarrow> string + process_output) \<Rightarrow> (string \<Rightarrow> json option) \<Rightarrow>
     (string \<Rightarrow> byte list option) \<Rightarrow> string \<Rightarrow> string \<Rightarrow> (yul_error, yul_compile_output) outcome"
where
  "compile_yul run from_str hex_decode solc_cmd yul_file =
     and_then (map_err SolcNotRun (run solc_cmd [''--strict-assembly'', ''--bin'', ''--asm-json'', yul_file])) (\<lambda>output.
     and_then (guard_that (po_success output) (SolcFailed (po_stdout output) (po_stderr output))) (\<lambda>_.
     and_then (ok_or OutputNotUtf8 (from_utf8 (po_stdout output))) (\<lambda>stdout.
     and_then (parse_binary_representation hex_decode stdout) (\<lambda>deploy_bytecode.
     and_then (extract_asm_json stdout) (\<lambda>asm_json_str.
     and_then (ok_or InvalidJson (from_str asm_json_str)) (\<lambda>asm.
     and_then (ok_or MissingRuntimeCode (Option.bind (json_pointer asm ''/.data/0/.code'') as_array)) (\<lambda>runtime_code.
     and_then (synthesize_source_map runtime_code) (\<lambda>runtime_source_map.
     Returns \<lparr>yc_deploy_bytecode = deploy_bytecode, yc_runtime_source_map = runtime_source_map\<rparr>))))))))"

section \<open>Lemmas\<close>

definition emits :: "json \<Rightarrow> bool" where
  "emits inst \<longleftrightarrow> get_str inst ''name'' \<noteq> Some ''tag''"

lemma synthesize_entries_Returns:
  "synthesize_entries asm = Returns es \<longleftrightarrow>
     (\<forall>inst\<in>set asm. get_str inst ''name'' \<noteq> None) \<and> es = map asm_entry (filter emits asm)"
  by (induction asm arbitrary: es) (auto simp: emits_def and_then_Returns split: option.split)

lemma synthesize_source_map_Returns:
  "synthesize_source_map asm = Returns sm \<longleftrightarrow>
     (\<forall>inst\<in>set asm. get_str inst ''name'' \<noteq> None) \<and> sm = \<lparr>sm_entries = map asm_entry (filter emits asm)\<rparr>"
  by (auto simp: synthesize_source_map_def and_then_Returns synthesize_entries_Returns from_entries_def)

text \<open>The bytes of one instruction.\<close>

definition one_instr :: "byte list \<Rightarrow> bool" where
  "one_instr c \<longleftrightarrow> c \<noteq> [] \<and> length c = instr_size (hd c)"

lemma disassemble_instrs:
  "\<forall>c\<in>set cs. one_instr c \<Longrightarrow> disassemble (concat cs @ bs) = cs @ disassemble bs"
proof (induction cs)
  case Nil
  then show ?case by simp
next
  case (Cons c cs)
  then obtain op data where c: "c = op # data" "length c = instr_size op"
    by (cases c) (auto simp: one_instr_def)
  then have "take (instr_size op) (op # data @ concat cs @ bs) = c"
    "drop (instr_size op) (op # data @ concat cs @ bs) = concat cs @ bs"
    by (metis append_Cons append_eq_conv_conj)+
  with Cons c(1) show ?case by simp
qed

lemma nth_number_instrs:
  "k < length cs \<Longrightarrow> r < length (cs ! k) \<Longrightarrow>
     number_instrs j (cs @ ds) ! (length (concat (take k cs)) + r) = j + k"
proof (induction cs arbitrary: j k)
  case Nil
  then show ?case by simp
next
  case (Cons c cs)
  then show ?case by (cases k) (simp_all add: nth_append)
qed

lemma length_concat_take_less:
  "k < length cs \<Longrightarrow> r < length (cs ! k) \<Longrightarrow> length (concat (take k cs)) + r < length (concat cs)"
proof (induction cs arbitrary: k)
  case Nil
  then show ?case by simp
next
  case (Cons c cs)
  then show ?case by (cases k) auto
qed

section \<open>Properties\<close>

text \<open>
  C22: when every item of the assembly but the labels stands for one machine instruction, the
  recorder finds for each byte of the runtime code the entry of the item that byte was assembled
  from. Data after the code, as solc appends it, does not change this.
\<close>

theorem yul_map_follows_instructions:
  assumes "synthesize_source_map asm = Returns sm"
    and "codes = map assemble (filter emits asm)" and "\<forall>c\<in>set codes. one_instr c"
    and "k < length codes" and "r < length (codes ! k)"
  shows "get_entry_for_pc sm (length (concat (take k codes)) + r)
           (build_pc_to_instruction_index (concat codes @ data)) =
         Some (asm_entry (filter emits asm ! k))"
proof -
  let ?pc = "length (concat (take k codes)) + r"
  let ?table = "build_pc_to_instruction_index (concat codes @ data)"
  have "?table = number_instrs 0 (codes @ disassemble data)"
    using disassemble_instrs [OF assms(3)]
    by (simp add: build_pc_to_instruction_index_def pc_to_idx_loop_correct)
  with nth_number_instrs [OF assms(4,5), of 0] have "?table ! ?pc = k" by simp
  moreover have "?pc < length ?table"
    using length_concat_take_less [OF assms(4,5)] by (simp add: build_pc_to_instruction_index_def pc_to_idx_loop_correct concat_disassemble)
  ultimately have get: "vec_get ?table ?pc = Some k" by simp
  show ?thesis
    unfolding get_entry_for_pc_def get option.case
    using assms(1,2,4) by (simp add: synthesize_source_map_Returns)
qed

text \<open>
  C37: from the text solc prints, a header, the bytecode on a line of its own, and the assembly
  document on one line, exactly that bytecode is decoded and exactly that document is extracted,
  whatever precedes and follows, as long as no marker occurs earlier.
\<close>

definition solc_text :: "string \<Rightarrow> string \<Rightarrow> string \<Rightarrow> string \<Rightarrow> string \<Rightarrow> string" where
  "solc_text header hex middle doc trailer =
     header @ BINARY_MARKER @ CHR 0x0A # hex @ CHR 0x0A # middle @ ASSEMBLY_MARKER @ CHR 0x0A # doc @
       CHR 0x0A # trailer"

theorem solc_text_roundtrip:
  assumes "\<not> str_contains (header @ butlast BINARY_MARKER) BINARY_MARKER"
    and "\<not> str_contains (header @ BINARY_MARKER @ CHR 0x0A # hex @ CHR 0x0A # middle @ butlast ASSEMBLY_MARKER)
           ASSEMBLY_MARKER"
    and "hex \<noteq> []" and "\<forall>c\<in>set hex. \<not> is_ws c"
    and "doc = CHR ''{'' # inner @ ''}''" and "CHR 0x0A \<notin> set inner"
  shows "parse_binary_representation hex_decode (solc_text header hex middle doc trailer) =
           ok_or InvalidHex (hex_decode hex) \<and>
         extract_asm_json (solc_text header hex middle doc trailer) = Returns doc"
proof
  let ?s = "solc_text header hex middle doc trailer"
  let ?rest = "middle @ ASSEMBLY_MARKER @ CHR 0x0A # doc @ CHR 0x0A # trailer"
  have bin: "str_find BINARY_MARKER ?s = Some (length header)"
    unfolding solc_text_def by (rule str_find_marker [OF assms(1)])
  have after: "drop (length header + length BINARY_MARKER) ?s = [] @ CHR 0x0A # hex @ CHR 0x0A # ?rest"
    by (simp add: solc_text_def)
  have "CHR 0x0A \<notin> set hex" using assms(4) is_ws_newline by blast
  then have lines: "str_lines ([] @ CHR 0x0A # hex @ CHR 0x0A # ?rest) = [] # hex # str_lines ?rest"
    by (subst str_lines_Cons) (simp_all add: str_lines_Cons chomp_cr_id assms(4))
  show "parse_binary_representation hex_decode ?s = ok_or InvalidHex (hex_decode hex)"
    using assms(3,4)
    by (simp add: parse_binary_representation_def bin Let_def after lines trim_no_ws del: append_Nil)
next
  let ?s = "solc_text header hex middle doc trailer"
  let ?before = "header @ BINARY_MARKER @ CHR 0x0A # hex @ CHR 0x0A # middle"
  let ?tail = "CHR 0x0A # trailer"
  have s: "?s = ?before @ ASSEMBLY_MARKER @ CHR 0x0A # doc @ ?tail" by (simp add: solc_text_def)
  have asm: "str_find ASSEMBLY_MARKER ?s = Some (length ?before)"
    unfolding s by (rule str_find_marker) (use assms(2) in simp)
  have after: "drop (length ?before + length ASSEMBLY_MARKER) ?s = [CHR 0x0A] @ CHR ''{'' # inner @ ''}'' @ ?tail"
    unfolding s drop_two by (simp add: assms(5))
  have brace: "str_find ''{'' ([CHR 0x0A] @ CHR ''{'' # inner @ ''}'' @ ?tail) = Some 1"
    using str_find_char [of "CHR ''{''" "[CHR 0x0A]"] by simp
  have line: "str_find [CHR 0x0A] (doc @ ?tail) = Some (length doc)"
    by (rule str_find_char) (use assms(5,6) in auto)
  have rest: "drop 1 ([CHR 0x0A] @ CHR ''{'' # inner @ ''}'' @ ?tail) = doc @ ?tail" by (simp add: assms(5))
  have cut: "take (length doc) (doc @ ?tail) = doc" by simp
  have "trim doc = doc" by (rule trim_id) (simp_all add: assms(5) is_ws_def)
  then show "extract_asm_json ?s = Returns doc"
    unfolding extract_asm_json_def asm ok_or_simps and_then_simps Let_def after brace rest line option.case cut
    by simp
qed

section \<open>Witnesses\<close>

text \<open>The assembly of the unit test of the sources, and an assembler for it.\<close>

definition sample_asm :: "json list" where
  "sample_asm =
     [JObj [(''begin'', JInt 10), (''end'', JInt 20), (''name'', JStr ''PUSH''), (''value'', JStr ''1'')],
      JObj [(''begin'', JInt 30), (''end'', JInt 40), (''name'', JStr ''tag''), (''value'', JStr ''1'')],
      JObj [(''begin'', JInt 30), (''end'', JInt 40), (''name'', JStr ''JUMPDEST'')],
      JObj [(''begin'', JInt 50), (''end'', JInt 60), (''name'', JStr ''JUMP''), (''jumpType'', JStr ''[in]'')]]"

definition sample_assemble :: "json \<Rightarrow> byte list" where
  "sample_assemble j =
     (if get_str j ''name'' = Some ''PUSH'' then [0x60, 1]
      else if get_str j ''name'' = Some ''JUMPDEST'' then [0x5b] else [0x56])"

lemma yul_map_follows_instructions_witness:
  "get_entry_for_pc \<lparr>sm_entries = map asm_entry (filter emits sample_asm)\<rparr> 3
     (build_pc_to_instruction_index ([0x60, 1, 0x5b, 0x56] @ [0xfe])) =
   Some \<lparr>sme_offset = 50, sme_length = 10, sme_file_index = 0, sme_jump_type = Into, sme_modifier_depth = 0\<rparr>"
proof -
  have items: "filter emits sample_asm = [sample_asm ! 0, sample_asm ! 2, sample_asm ! 3]"
    by (simp add: sample_asm_def emits_def json_access)
  have codes: "map sample_assemble (filter emits sample_asm) = [[0x60, 1], [0x5b], [0x56]]"
    unfolding items by (simp add: sample_asm_def sample_assemble_def json_access)
  have "synthesize_source_map sample_asm = Returns \<lparr>sm_entries = map asm_entry (filter emits sample_asm)\<rparr>"
    by (simp add: synthesize_source_map_Returns sample_asm_def json_access)
  moreover have "\<forall>c\<in>set [[0x60, 1], [0x5b], [0x56]]. one_instr c"
    by (simp add: one_instr_def instr_size_def)
  ultimately have "get_entry_for_pc \<lparr>sm_entries = map asm_entry (filter emits sample_asm)\<rparr>
      (length (concat (take 2 [[0x60, 1], [0x5b], [0x56 :: byte]])) + 0)
      (build_pc_to_instruction_index (concat [[0x60, 1], [0x5b], [0x56]] @ [0xfe])) =
      Some (asm_entry (filter emits sample_asm ! 2))"
    by (intro yul_map_follows_instructions [OF _ codes [symmetric]]) simp_all
  then
  have "get_entry_for_pc \<lparr>sm_entries = map asm_entry (filter emits sample_asm)\<rparr> 3
      (build_pc_to_instruction_index ([0x60, 1, 0x5b, 0x56] @ [0xfe])) = Some (asm_entry (sample_asm ! 3))"
    unfolding items by (simp add: numeral_2_eq_2 numeral_3_eq_3)
  moreover have "asm_entry (sample_asm ! 3) = \<lparr>sme_offset = 50, sme_length = 10, sme_file_index = 0,
      sme_jump_type = Into, sme_modifier_depth = 0\<rparr>"
    by (simp add: sample_asm_def asm_entry_def get_i32_def asm_jump_def json_access as_i64_def wrap_i32_def Let_def)
  ultimately show ?thesis by simp
qed

lemma solc_text_roundtrip_witness:
  "extract_asm_json (solc_text ''== a.yul =='' ''6001'' [] ''{.code}'' []) = Returns ''{.code}''"
  by (rule solc_text_roundtrip [of _ _ _ _ "''.code''" "\<lambda>_. None", THEN conjunct2])
    (simp_all add: BINARY_MARKER_def ASSEMBLY_MARKER_def is_ws_def starts_with_def)

end
