(* ===== verification/Cli_Calldata.thy ===== *)
theory Cli_Calldata
  imports Yul_Compile Storage_Layout Solidity_Ast
begin

text \<open>
  The helpers of \<^verbatim>\<open>src/main.rs\<close>: where the output goes, whether recording is disabled, which
  contract of solc's output is used, which function is called and with which data. Hexadecimal
  decoding, the parsers of alloy and serde and the hash are parameters.
\<close>

section \<open>Errors\<close>

datatype cli_error =
    SourceNotFound string
  | NoOutputDirectory
  | CannotCreateDirectory string
  | SolcNotStarted string
  | CompilationFailed "byte list" "byte list"
  | BadSolcText
  | BadSolcJson
  | BadSolcAst
  | NoContractsObject
  | NoContracts
  | MissingField string string
  | BadBytecode string
  | SourceUnreadable string
  | BadAbiText
  | BadAbiFormat string
  | UnsupportedArgument string nat string
  | UnsupportedConstructor string nat
  | BadFromAddress string
  | BadValue string
  | NodeError string
  | NoContractAddress
  | NoRuntimeBytecode
  | UnexpectedTracer
  | EmptyTrace
  | NoFileName
  | CannotCopySource string string
  | RecorderError string
  | YulCompile yul_error
  | BadEndpoint

section \<open>Settings\<close>

definition resolve_out_dir :: "string option \<Rightarrow> string option \<Rightarrow> string option \<Rightarrow> (cli_error, string) outcome" where
  "resolve_out_dir cli_out_dir cli_trace_dir env_out_dir =
     (case cli_out_dir of
        Some path \<Rightarrow> Returns path
      | None \<Rightarrow>
          (case cli_trace_dir of
             Some path \<Rightarrow> Returns path
           | None \<Rightarrow>
               (case env_out_dir of
                  Some val \<Rightarrow> if val \<noteq> [] then Returns val else Fails NoOutputDirectory
                | None \<Rightarrow> Fails NoOutputDirectory)))"

definition recording_disabled :: "string option \<Rightarrow> bool" where
  "recording_disabled env_disabled =
     (case env_disabled of
        Some val \<Rightarrow> (let v = trim val in v = ''1'' \<or> eq_ignore_ascii_case v ''true'')
      | None \<Rightarrow> False)"

definition parse_value_wei :: "(string \<Rightarrow> nat \<Rightarrow> u256 option) \<Rightarrow> string \<Rightarrow> (cli_error, u256) outcome" where
  "parse_value_wei from_str_radix s =
     (let trimmed = trim s in
      if trimmed = [] then Returns 0
      else
        case (case strip_prefix trimmed ''0x'' of Some r \<Rightarrow> Some r | None \<Rightarrow> strip_prefix trimmed ''0X'') of
          Some rest \<Rightarrow> ok_or (BadValue s) (from_str_radix rest 16)
        | None \<Rightarrow> ok_or (BadValue s) (from_str_radix trimmed 10))"

section \<open>The contract\<close>

definition select_contract :: "json \<Rightarrow> string \<Rightarrow> (cli_error, string \<times> json) outcome" where
  "select_contract compiled stem =
     and_then (ok_or NoContractsObject (as_object (json_index compiled ''contracts''))) (\<lambda>contracts.
       ok_or NoContracts
         (case List.find (\<lambda>(k, _). ends_with k ('':'' @ stem)) contracts of
            Some c \<Rightarrow> Some c
          | None \<Rightarrow> vec_get contracts 0))"

definition contract_name_of :: "string \<Rightarrow> string" where
  "contract_name_of key = last (split_on CHR '':'' key)"

definition text_field :: "json \<Rightarrow> string \<Rightarrow> string \<Rightarrow> (cli_error, string) outcome" where
  "text_field contract key field = ok_or (MissingField field key) (as_str (json_index contract field))"

definition storage_layout_of :: "(json \<Rightarrow> storage_layout option) \<Rightarrow> json \<Rightarrow> storage_layout option" where
  "storage_layout_of from_value layout =
     (if is_null layout \<or> (case as_object layout of None \<Rightarrow> True | Some o1 \<Rightarrow> o1 = []) then None
      else from_value layout)"

definition abi_of :: "(string \<Rightarrow> json option) \<Rightarrow> string \<Rightarrow> json \<Rightarrow> (cli_error, json list) outcome" where
  "abi_of from_str key abi_value =
     (case as_str abi_value of
        Some s \<Rightarrow> ok_or BadAbiText (Option.bind (from_str s) as_array)
      | None \<Rightarrow> ok_or (BadAbiFormat key) (as_array abi_value))"

section \<open>The call\<close>

definition resolve_function_name :: "json list \<Rightarrow> string \<Rightarrow> string" where
  "resolve_function_name abi preferred =
     (let functions = List.map_filter (\<lambda>item. get_str item ''name'')
                        (filter (\<lambda>item. get_str item ''type'' = Some ''function'') abi) in
      if preferred \<in> set functions then preferred
      else case functions of f # _ \<Rightarrow> f | [] \<Rightarrow> preferred)"

definition word_ending :: "byte \<Rightarrow> byte list" where
  "word_ending b = replicate 31 0 @ [b]"

definition encode_default_arg_value :: "string \<Rightarrow> byte list option" where
  "encode_default_arg_value ty =
     (if starts_with ty ''uint'' \<or> starts_with ty ''int'' then Some (word_ending 7)
      else if ty = ''bool'' \<or> ty = ''address'' \<or> ty = ''address payable'' then Some (word_ending 0)
      else case strip_prefix ty ''bytes'' of
        Some rest \<Rightarrow>
          (case parse_u32 rest of
             Some n \<Rightarrow> if 1 \<le> n \<and> n \<le> 32 then Some (word_ending 0) else None
           | None \<Rightarrow> None)
      | None \<Rightarrow> None)"

fun encode_default_args :: "string \<Rightarrow> nat \<Rightarrow> string list \<Rightarrow> (cli_error, byte list) outcome" where
  "encode_default_args function_name idx [] = Returns []"
| "encode_default_args function_name idx (ty # tys) =
     and_then (ok_or (UnsupportedArgument function_name idx ty) (encode_default_arg_value ty)) (\<lambda>bytes.
     and_then (encode_default_args function_name (idx + 1) tys) (\<lambda>rest. Returns (bytes @ rest)))"

definition inputs_of :: "json option \<Rightarrow> json list" where
  "inputs_of entry = (case Option.bind entry (\<lambda>e. get_array e ''inputs'') of Some a \<Rightarrow> a | None \<Rightarrow> [])"

definition build_call_signature_and_args ::
  "json list \<Rightarrow> string \<Rightarrow> (cli_error, string \<times> byte list) outcome"
where
  "build_call_signature_and_args abi function_name =
     (let entry = List.find (\<lambda>item. get_str item ''type'' = Some ''function'' \<and>
                                    get_str item ''name'' = Some function_name) abi;
          type_list = map (\<lambda>p. str_or_empty p ''type'') (inputs_of entry);
          signature = function_name @ ''('' @ join_with '','' type_list @ '')'' in
      and_then (encode_default_args function_name 0 type_list) (\<lambda>encoded. Returns (signature, encoded)))"

definition encode_constructor_args :: "json list \<Rightarrow> string \<Rightarrow> (cli_error, byte list) outcome" where
  "encode_constructor_args abi contract_name =
     (case List.find (\<lambda>item. get_str item ''type'' = Some ''constructor'') abi of
        None \<Rightarrow> Returns []
      | Some constructor \<Rightarrow>
          let inputs = inputs_of (Some constructor) in
          if inputs = [] then Returns []
          else if length inputs = 1 \<and> starts_with (str_or_empty (hd inputs) ''type'') ''uint''
          then Returns (word_ending 10)
          else Fails (UnsupportedConstructor contract_name (length inputs)))"

definition call_data_of ::
  "keccak \<Rightarrow> json list \<Rightarrow> string \<Rightarrow> (cli_error, byte list) outcome"
where
  "call_data_of keccak256 abi preferred =
     and_then (build_call_signature_and_args abi (resolve_function_name abi preferred))
       (\<lambda>(signature, encoded). Returns (take 4 (keccak256 (bytes_of_text signature)) @ encoded))"

section \<open>Lemmas\<close>

lemma length_word_ending [simp]: "length (word_ending b) = 32"
  by (simp add: word_ending_def)

lemma encode_default_arg_length: "encode_default_arg_value ty = Some bs \<Longrightarrow> length bs = 32"
  by (auto simp: encode_default_arg_value_def split: if_splits option.splits)

lemma encode_default_args_Returns:
  "encode_default_args f i tys = Returns bs \<longleftrightarrow>
     (\<forall>ty\<in>set tys. encode_default_arg_value ty \<noteq> None) \<and>
     bs = concat (map (the \<circ> encode_default_arg_value) tys)"
  by (induction tys arbitrary: i bs) (auto simp: and_then_Returns)

lemma encode_default_args_Fails:
  "encode_default_args f i tys = Fails e \<longleftrightarrow>
     (\<exists>j < length tys. encode_default_arg_value (tys ! j) = None \<and>
        (\<forall>l < j. encode_default_arg_value (tys ! l) \<noteq> None) \<and> e = UnsupportedArgument f (i + j) (tys ! j))"
proof (induction tys arbitrary: i)
  case Nil
  then show ?case by simp
next
  case (Cons ty tys)
  show ?case
  proof (cases "encode_default_arg_value ty")
    case None
    then show ?thesis by (auto simp: Ex_less_Suc2 All_less_Suc2)
  next
    case (Some b)
    have "and_then (encode_default_args f (i + 1) tys) (\<lambda>rest. Returns (b @ rest)) = Fails e \<longleftrightarrow>
        encode_default_args f (i + 1) tys = Fails e"
      by (cases "encode_default_args f (i + 1) tys") simp_all
    with Some Cons.IH [of "i + 1"] show ?thesis by (simp add: Ex_less_Suc2 All_less_Suc2)
  qed
qed

text \<open>The word at position \<open>i\<close> of the argument area of call data.\<close>

definition arg_word :: "byte list \<Rightarrow> nat \<Rightarrow> byte list" where
  "arg_word bs i = take 32 (drop (32 * i) bs)"

lemma arg_word_concat:
  "(\<forall>w\<in>set ws. length w = 32) \<Longrightarrow> i < length ws \<Longrightarrow> arg_word (concat ws) i = ws ! i"
proof (induction ws arbitrary: i)
  case Nil
  then show ?case by simp
next
  case (Cons w ws)
  show ?case
  proof (cases i)
    case 0
    with Cons.prems show ?thesis by (simp add: arg_word_def)
  next
    case (Suc j)
    with Cons show ?thesis by (simp add: arg_word_def)
  qed
qed

lemma length_concat_words: "(\<forall>w\<in>set ws. length w = 32) \<Longrightarrow> length (concat ws) = 32 * length ws"
  by (induction ws) simp_all

text \<open>The names and the input types of the functions of an ABI.\<close>

definition abi_functions :: "json list \<Rightarrow> string list" where
  "abi_functions abi = List.map_filter (\<lambda>item. get_str item ''name'')
     (filter (\<lambda>item. get_str item ''type'' = Some ''function'') abi)"

definition declares :: "json list \<Rightarrow> string \<Rightarrow> string list \<Rightarrow> bool" where
  "declares abi name tys \<longleftrightarrow>
     (\<exists>item. List.find (\<lambda>item. get_str item ''type'' = Some ''function'' \<and> get_str item ''name'' = Some name) abi
               = Some item \<and> map (\<lambda>p. str_or_empty p ''type'') (inputs_of (Some item)) = tys)"

definition signature_of :: "string \<Rightarrow> string list \<Rightarrow> string" where
  "signature_of name tys = name @ ''('' @ join_with '','' tys @ '')''"

lemma declares_function: "declares abi name tys \<Longrightarrow> name \<in> set (abi_functions abi)"
  by (force simp: declares_def abi_functions_def List.map_filter_def dest!: find_SomeD)

lemma resolve_declared: "name \<in> set (abi_functions abi) \<Longrightarrow> resolve_function_name abi name = name"
  by (simp add: resolve_function_name_def abi_functions_def Let_def)

lemma call_data_of_declared:
  assumes "declares abi name tys"
  shows "call_data_of keccak256 abi name =
    and_then (encode_default_args name 0 tys)
      (\<lambda>encoded. Returns (take 4 (keccak256 (bytes_of_text (signature_of name tys))) @ encoded))"
proof -
  obtain item where item: "List.find (\<lambda>item. get_str item ''type'' = Some ''function'' \<and>
      get_str item ''name'' = Some name) abi = Some item" "map (\<lambda>p. str_or_empty p ''type'') (inputs_of (Some item)) = tys"
    using assms by (auto simp: declares_def)
  show ?thesis
    unfolding call_data_of_def resolve_declared [OF declares_function [OF assms]]
      build_call_signature_and_args_def item(1) Let_def item(2)
    by (cases "encode_default_args name 0 tys") (simp_all add: signature_of_def)
qed

definition integer_type :: "string \<Rightarrow> bool" where
  "integer_type ty \<longleftrightarrow> starts_with ty ''uint'' \<or> starts_with ty ''int''"

lemma word_ending_value: "be_nat (word_ending b) = unat b"
proof -
  have "be_nat (replicate n 0) = 0" for n by (simp add: be_nat_zero_iff)
  then show ?thesis by (simp add: word_ending_def)
qed

subsection \<open>The types of the ABI\<close>

text \<open>
  The types a Solidity function can have parameters of, the name each has in the ABI, and the
  number the command line is to send for a parameter of that type, if it can send one.
\<close>

datatype abi_type =
    AbiUint nat | AbiInt nat | AbiBool | AbiAddress | AbiFixedBytes nat | AbiBytes | AbiString
  | AbiFunction | AbiTuple | AbiArray abi_type | AbiFixedArray abi_type nat

primrec abi_text :: "abi_type \<Rightarrow> string" where
  "abi_text (AbiUint n) = ''uint'' @ show_nat n"
| "abi_text (AbiInt n) = ''int'' @ show_nat n"
| "abi_text AbiBool = ''bool''"
| "abi_text AbiAddress = ''address''"
| "abi_text (AbiFixedBytes n) = ''bytes'' @ show_nat n"
| "abi_text AbiBytes = ''bytes''"
| "abi_text AbiString = ''string''"
| "abi_text AbiFunction = ''function''"
| "abi_text AbiTuple = ''tuple''"
| "abi_text (AbiArray t) = abi_text t @ ''[]''"
| "abi_text (AbiFixedArray t n) = abi_text t @ ''['' @ show_nat n @ '']''"

fun default_of :: "abi_type \<Rightarrow> nat option" where
  "default_of (AbiUint n) = Some 7"
| "default_of (AbiInt n) = Some 7"
| "default_of AbiBool = Some 0"
| "default_of AbiAddress = Some 0"
| "default_of (AbiFixedBytes n) = (if n \<in> {1..32} then Some 0 else None)"
| "default_of _ = None"

primrec integers :: "abi_type \<Rightarrow> bool" where
  "integers (AbiUint n) = True"
| "integers (AbiInt n) = True"
| "integers AbiBool = False"
| "integers AbiAddress = False"
| "integers (AbiFixedBytes n) = False"
| "integers AbiBytes = False"
| "integers AbiString = False"
| "integers AbiFunction = False"
| "integers AbiTuple = False"
| "integers (AbiArray t) = integers t"
| "integers (AbiFixedArray t n) = integers t"

definition integer_array :: "abi_type \<Rightarrow> bool" where
  "integer_array t \<longleftrightarrow> integers t \<and> (\<forall>n. t \<noteq> AbiUint n \<and> t \<noteq> AbiInt n)"

lemma integer_text: "integer_type (abi_text t @ s) \<longleftrightarrow> integers t"
proof (induction t arbitrary: s)
  case (AbiArray t)
  then show ?case using AbiArray [of "''[]'' @ s"] by simp
next
  case (AbiFixedArray t n)
  then show ?case using AbiFixedArray [of "''['' @ show_nat n @ '']'' @ s"] by simp
qed (simp_all add: integer_type_def starts_with_def)

text \<open>A name that ends in a bracket is not that of a fixed size byte string.\<close>

lemma parse_dec_digits: "parse_dec a s = Some n \<Longrightarrow> c \<in> set s \<Longrightarrow> digit_val c \<noteq> None"
  by (induction s arbitrary: a) (auto split: option.splits)

lemma parse_bracketed: "parse_u32 (r @ '']'') = None"
proof -
  have none: "parse_dec 0 (q @ '']'') = None" for q
    using parse_dec_digits [of 0 "q @ '']''" _ "CHR '']''"] by (cases "parse_dec 0 (q @ '']'')") (auto simp: digit_val_def)
  obtain q where "(case r @ '']'' of [] \<Rightarrow> [] | c # s \<Rightarrow> if c = CHR ''+'' then s else r @ '']'') = q @ '']''"
  proof (cases r)
    case Nil
    then show thesis using that [of "[]"] by simp
  next
    case (Cons c s)
    then show thesis using that [of s] that [of r] by (cases "c = CHR ''+''") simp_all
  qed
  then show ?thesis unfolding parse_u32_def parse_unsigned_def Let_def by (simp add: none del: parse_dec.simps)
qed

lemma bracketed_default:
  assumes "\<not> integer_type (x @ '']'')"
  shows "encode_default_arg_value (x @ '']'') = None"
proof -
  have "x @ '']'' \<noteq> ''bool''" "x @ '']'' \<noteq> ''address''" "x @ '']'' \<noteq> ''address payable''"
    by (auto dest: arg_cong [where f = last])
  moreover have "parse_u32 rest = None" if "strip_prefix (x @ '']'') ''bytes'' = Some rest" for rest
  proof -
    from that have eq: "x @ '']'' = ''bytes'' @ rest" by (simp add: strip_prefix_Some)
    then have "rest \<noteq> []" by (auto dest: arg_cong [where f = last])
    moreover from this have "last rest = CHR '']''" using arg_cong [OF eq, of last] by simp
    ultimately obtain r where "rest = r @ '']''" by (metis append_butlast_last_id)
    then show ?thesis by (simp add: parse_bracketed)
  qed
  ultimately show ?thesis
    using assms by (auto simp: encode_default_arg_value_def integer_type_def split: option.split)
qed

lemma parse_u32_show_nat: "parse_u32 (show_nat n) = (if n < 2 ^ 32 then Some n else None)"
  by (simp add: parse_u32_def parse_unsigned_show_nat parse_unsigned_overflow)

lemma default_value:
  assumes "\<not> integer_array t"
  shows "map_option be_nat (encode_default_arg_value (abi_text t)) = default_of t"
proof (cases t)
  case (AbiFixedBytes n)
  then show ?thesis
    by (auto simp: encode_default_arg_value_def starts_with_def parse_u32_show_nat word_ending_value
        strip_prefix_append [of "''bytes''", simplified])
next
  case (AbiArray u)
  with assms integer_text [of u "''[]''"] bracketed_default [of "abi_text u @ ''[''"] show ?thesis
    by (simp add: integer_array_def)
next
  case (AbiFixedArray u n)
  with assms integer_text [of u "''['' @ show_nat n @ '']''"] bracketed_default [of "abi_text u @ ''['' @ show_nat n"]
  show ?thesis by (simp add: integer_array_def)
qed (simp_all add: encode_default_arg_value_def starts_with_def strip_prefix_def word_ending_value
      parse_u32_def parse_unsigned_def)

section \<open>Properties\<close>


text \<open>
  An array of integers is taken for an integer. A function with one dynamic integer array is
  called with a single word, in which a decoder of the ABI finds an offset but no array: the call
  reverts before the body of the function runs.
\<close>

definition abi_array_length :: "byte list \<Rightarrow> nat option" where
  "abi_array_length args =
     (let offset = be_nat (take 32 args) in
      if offset + 32 \<le> length args then Some (be_nat (take 32 (drop offset args))) else None)"

theorem array_argument_sent_as_integer:
  assumes "declares abi name [ty @ ''[]'']" and "integer_type ty"
    and "length (keccak256 (bytes_of_text (signature_of name [ty @ ''[]'']))) = 32"
  shows "\<exists>d. call_data_of keccak256 abi name = Returns d \<and> length d = 36 \<and> abi_array_length (drop 4 d) = None"
proof -
  let ?sel = "take 4 (keccak256 (bytes_of_text (signature_of name [ty @ ''[]''])))"
  have arg: "encode_default_arg_value (ty @ ''[]'') = Some (word_ending 7)"
    using assms(2) by (auto simp: encode_default_arg_value_def integer_type_def starts_with_iff)
  have val: "be_nat (word_ending 7) = 7" by (simp add: word_ending_value)
  have "call_data_of keccak256 abi name = Returns (?sel @ word_ending 7)"
    by (simp add: call_data_of_declared [OF assms(1)] arg)
  then show ?thesis
    using assms(3) val by (intro exI conjI) (auto simp: abi_array_length_def Let_def)
qed

text \<open>
  The function that is called is one of the ABI whenever the ABI has any, and the one asked for
  whenever the ABI has it. For an ABI without functions the name asked for is used, although no
  function bears it.
\<close>

theorem called_function_declared:
  "(preferred \<in> set (abi_functions abi) \<longrightarrow> resolve_function_name abi preferred = preferred) \<and>
   (abi_functions abi \<noteq> [] \<longrightarrow> resolve_function_name abi preferred \<in> set (abi_functions abi)) \<and>
   (abi_functions abi = [] \<longrightarrow> resolve_function_name abi preferred = preferred)"
  by (auto simp: resolve_function_name_def abi_functions_def Let_def split: list.split)

section \<open>Witnesses\<close>

definition sample_abi :: "string \<Rightarrow> string list \<Rightarrow> json list" where
  "sample_abi name tys =
     [JObj [(''type'', JStr ''event''), (''name'', JStr ''E'')],
      JObj [(''type'', JStr ''function''), (''name'', JStr name),
            (''inputs'', JArr (map (\<lambda>t. JObj [(''type'', JStr t)]) tys))]]"

lemma sample_abi_declares: "declares (sample_abi name tys) name tys"
  by (simp add: declares_def sample_abi_def json_access inputs_of_def str_or_empty_def comp_def)


lemma array_argument_sent_as_integer_witness:
  "\<exists>d. call_data_of (\<lambda>_. replicate 32 9) (sample_abi ''sum'' [''uint256'' @ ''[]'']) ''sum'' = Returns d \<and>
     length d = 36 \<and> abi_array_length (drop 4 d) = None"
  by (rule array_argument_sent_as_integer [OF sample_abi_declares])
    (simp_all add: integer_type_def starts_with_def)

lemma called_function_declared_witness:
  "resolve_function_name (sample_abi ''set'' []) ''run'' \<in> set (abi_functions (sample_abi ''set'' []))"
  using called_function_declared [of "''run''" "sample_abi ''set'' []"]
  by (simp add: abi_functions_def sample_abi_def json_access map_filter_simps)

end
