(* ===== verification/Cli.thy ===== *)
theory Cli
  imports Cli_Calldata Recorder
begin

text \<open>
  The \<open>record\<close> command of \<^verbatim>\<open>src/main.rs\<close>, for Solidity and for pure Yul files, and the fetching
  of the execution trace of \<^verbatim>\<open>src/trace_fetcher.rs\<close>. The machine the command runs on, files,
  environment, solc and the node, is a record of parameters. What the command does to it is a log of
  effects, each entered when the operation is started; the answers of the node may depend on the log.
  Messages on standard error are left out.
\<close>

section \<open>Effects\<close>

record tx_request =
  tr_from :: address
  tr_to :: "address option"
  tr_input :: "byte list"
  tr_value :: "u256 option"
  tr_gas_limit :: "nat option"

datatype io_effect =
    MadeDirectory string
  | RanCompiler string
  | SpawnedNode
  | SentTransaction tx_request
  | FetchedTrace u256
  | CopiedFile string string
  | WroteTrace string string "wcall list"

type_synonym 'a io = "io_effect list \<Rightarrow> (cli_error, 'a) outcome \<times> io_effect list"

definition io_of :: "(cli_error, 'a) outcome \<Rightarrow> 'a io" where
  "io_of m h = (m, h)"

definition io_bind :: "'a io \<Rightarrow> ('a \<Rightarrow> 'b io) \<Rightarrow> 'b io" where
  "io_bind m f h =
     (let (r, h1) = m h in
      case r of Returns x \<Rightarrow> f x h1 | Fails e \<Rightarrow> (Fails e, h1) | Panics \<Rightarrow> (Panics, h1))"

definition perform :: "io_effect \<Rightarrow> unit io" where
  "perform e h = (Returns (), h @ [e])"

text \<open>An answer that may depend on what was done so far.\<close>

definition ask :: "(io_effect list \<Rightarrow> (cli_error, 'a) outcome) \<Rightarrow> 'a io" where
  "ask q h = (q h, h)"

section \<open>The machine\<close>

record tx_receipt =
  rc_contract_address :: "address option"
  rc_transaction_hash :: u256
  rc_status :: bool

record default_frame =
  df_failed :: bool
  df_return_value :: "byte list"
  df_struct_logs :: "struct_log list"

datatype geth_trace = DefaultTrace default_frame | OtherTrace

record tracing_options =
  to_disable_storage :: "bool option"
  to_disable_stack :: "bool option"
  to_enable_memory :: "bool option"
  to_enable_return_data :: "bool option"

record machine =
  ma_canonicalize :: "string \<Rightarrow> string option"
  ma_env :: "string \<Rightarrow> string option"
  ma_create_dir_all :: "string \<Rightarrow> bool"
  ma_run :: "string \<Rightarrow> string list \<Rightarrow> string + process_output"
  ma_read_to_string :: "string \<Rightarrow> string option"
  ma_copy :: "string \<Rightarrow> string \<Rightarrow> bool"
  ma_from_str :: "string \<Rightarrow> json option"
  ma_layout_of :: "json \<Rightarrow> storage_layout option"
  ma_hex_decode :: "string \<Rightarrow> byte list option"
  ma_keccak :: keccak
  ma_address_from_str :: "string \<Rightarrow> address option"
  ma_u256_from_str_radix :: "string \<Rightarrow> nat \<Rightarrow> u256 option"
  ma_node_starts :: "io_effect list \<Rightarrow> bool"
  ma_endpoint_parses :: bool
  ma_accounts :: "io_effect list \<Rightarrow> string + address list"
  ma_send :: "io_effect list \<Rightarrow> string + tx_receipt"
  ma_code_at :: "io_effect list \<Rightarrow> address \<Rightarrow> string + byte list"
  ma_trace :: "io_effect list \<Rightarrow> u256 \<Rightarrow> tracing_options \<Rightarrow> string + geth_trace"
  ma_writer :: writer_env

record record_args =
  ra_solidity_file :: string
  ra_out_dir :: "string option"
  ra_trace_dir :: "string option"
  ra_function :: string
  ra_from :: "string option"
  ra_value :: string

section \<open>Fetching the trace\<close>

definition struct_log_options :: tracing_options where
  "struct_log_options = \<lparr>to_disable_storage = Some False, to_disable_stack = Some False,
     to_enable_memory = Some True, to_enable_return_data = Some True\<rparr>"

definition fetch_struct_logs :: "machine \<Rightarrow> u256 \<Rightarrow> default_frame io" where
  "fetch_struct_logs ma tx_hash =
     io_bind (io_of (guard_that (ma_endpoint_parses ma) BadEndpoint)) (\<lambda>_.
     io_bind (perform (FetchedTrace tx_hash)) (\<lambda>_.
     io_bind (ask (\<lambda>h. map_err NodeError (ma_trace ma h tx_hash struct_log_options))) (\<lambda>trace.
     io_of (case trace of DefaultTrace frame \<Rightarrow> Returns frame | OtherTrace \<Rightarrow> Fails UnexpectedTracer))))"

definition extract_struct_logs :: "default_frame \<Rightarrow> struct_log list" where
  "extract_struct_logs frame = df_struct_logs frame"

section \<open>Steps shared by both commands\<close>

definition run_process :: "machine \<Rightarrow> string \<Rightarrow> string list \<Rightarrow> process_output io" where
  "run_process ma cmd args =
     io_bind (perform (RanCompiler cmd)) (\<lambda>_. io_of (map_err SolcNotStarted (ma_run ma cmd args)))"

definition solc_command :: "machine \<Rightarrow> string" where
  "solc_command ma = (case ma_env ma ''SOLC_PATH'' of Some p \<Rightarrow> p | None \<Rightarrow> ''solc'')"

text \<open>\<open>Anvil::spawn\<close> panics if the node cannot be started, and so does the index of an empty list.\<close>

definition spawn_node :: "machine \<Rightarrow> address io" where
  "spawn_node ma =
     io_bind (perform SpawnedNode) (\<lambda>_.
     io_bind (ask (\<lambda>h. if ma_node_starts ma h then Returns () else Panics)) (\<lambda>_.
     io_bind (io_of (guard_that (ma_endpoint_parses ma) BadEndpoint)) (\<lambda>_.
     io_bind (ask (\<lambda>h. map_err NodeError (ma_accounts ma h))) (\<lambda>accounts.
     io_of (case vec_get accounts 0 of Some a \<Rightarrow> Returns a | None \<Rightarrow> Panics)))))"

definition call_sender :: "machine \<Rightarrow> string option \<Rightarrow> address \<Rightarrow> (cli_error, address) outcome" where
  "call_sender ma from_arg deploy_from =
     (case from_arg of
        Some s \<Rightarrow> ok_or (BadFromAddress s) (ma_address_from_str ma s)
      | None \<Rightarrow> Returns deploy_from)"

definition send_transaction :: "machine \<Rightarrow> tx_request \<Rightarrow> tx_receipt io" where
  "send_transaction ma tx =
     io_bind (perform (SentTransaction tx)) (\<lambda>_. ask (\<lambda>h. map_err NodeError (ma_send ma h)))"

definition deploy_request :: "address \<Rightarrow> byte list \<Rightarrow> tx_request" where
  "deploy_request deploy_from deploy_data =
     \<lparr>tr_from = deploy_from, tr_to = None, tr_input = deploy_data, tr_value = None, tr_gas_limit = None\<rparr>"

definition call_request :: "address \<Rightarrow> address \<Rightarrow> byte list \<Rightarrow> u256 \<Rightarrow> tx_request" where
  "call_request call_from contract_address call_input call_value =
     \<lparr>tr_from = call_from, tr_to = Some contract_address, tr_input = call_input,
      tr_value = Some call_value, tr_gas_limit = Some 30000000\<rparr>"

definition deploy_contract :: "machine \<Rightarrow> address \<Rightarrow> byte list \<Rightarrow> address io" where
  "deploy_contract ma deploy_from deploy_data =
     io_bind (send_transaction ma (deploy_request deploy_from deploy_data)) (\<lambda>receipt.
     io_of (ok_or NoContractAddress (rc_contract_address receipt)))"

definition call_contract ::
  "machine \<Rightarrow> record_args \<Rightarrow> address \<Rightarrow> address \<Rightarrow> byte list \<Rightarrow> (default_frame \<times> bool) io"
where
  "call_contract ma args call_from contract_address call_input =
     io_bind (io_of (parse_value_wei (ma_u256_from_str_radix ma) (ra_value args))) (\<lambda>call_value.
     io_bind (send_transaction ma (call_request call_from contract_address call_input call_value)) (\<lambda>receipt.
     io_bind (fetch_struct_logs ma (rc_transaction_hash receipt)) (\<lambda>frame.
     io_bind (io_of (guard_that (extract_struct_logs frame \<noteq> []) EmptyTrace)) (\<lambda>_.
     io_of (Returns (frame, rc_status receipt))))))"

definition copy_source :: "machine \<Rightarrow> string \<Rightarrow> string \<Rightarrow> string io" where
  "copy_source ma source_path out_dir =
     io_bind (io_of (ok_or NoFileName (file_name source_path))) (\<lambda>source_filename.
     let source_copy_path = path_join out_dir source_filename in
     io_bind (perform (CopiedFile source_path source_copy_path)) (\<lambda>_.
     io_bind (io_of (guard_that (ma_copy ma source_path source_copy_path)
                       (CannotCopySource source_path source_copy_path))) (\<lambda>_.
     io_of (Returns source_copy_path))))"

definition surface_revert ::
  "custom_error_registry \<Rightarrow> default_frame \<Rightarrow> bool \<Rightarrow> evm_recorder \<Rightarrow> evm_recorder"
where
  "surface_revert registry frame tx_succeeded r =
     (if df_failed frame \<or> \<not> tx_succeeded then
        (let decoded = decode_revert_with_registry (df_return_value frame) registry in
         register_revert (dr_kind decoded) (dr_message decoded) r)
      else r)"

definition write_trace ::
  "machine \<Rightarrow> string \<Rightarrow> string \<Rightarrow> string \<Rightarrow> source_map \<Rightarrow> byte list \<Rightarrow> string \<Rightarrow> storage_layout option \<Rightarrow>
     solidity_ast option \<Rightarrow> custom_error_registry \<Rightarrow> default_frame \<Rightarrow> bool \<Rightarrow> unit io"
where
  "write_trace ma program out_dir copy_path sm code contents layout ast registry frame tx_succeeded =
     (let (opened, initial) = initialize_trace (ma_writer ma) out_dir evm_recorder_new in
     io_bind (io_of (guard_that opened (RecorderError ''failed to initialize EvmRecorder''))) (\<lambda>_.
     io_bind (io_of (case record_from_structlog (ma_writer ma) (ma_keccak ma) (extract_struct_logs frame) sm code
                            [copy_path] [contents] layout ast initial of
                       Some r \<Rightarrow> Returns r | None \<Rightarrow> Panics)) (\<lambda>recorder.
     let (closed, finished) = finalize_trace (ma_writer ma) (surface_revert registry frame tx_succeeded recorder) in
     io_bind (perform (WroteTrace (to_string_lossy program) out_dir (er_calls finished))) (\<lambda>_.
     io_of (guard_that closed (RecorderError ''failed to finalize EvmRecorder''))))))"

section \<open>Solidity\<close>

record solidity_build =
  sb_name :: string
  sb_deploy_hex :: string
  sb_source_map :: source_map
  sb_layout :: "storage_layout option"
  sb_ast :: solidity_ast
  sb_runtime :: "byte list"
  sb_contents :: string
  sb_abi :: "json list"

text \<open>The path is unwrapped from \<open>Path::to_str\<close>, which has none for a path that is not UTF-8.\<close>

definition compile_solidity :: "machine \<Rightarrow> string \<Rightarrow> string io" where
  "compile_solidity ma source_path =
     io_bind (io_of (case path_to_str source_path of Some s \<Rightarrow> Returns s | None \<Rightarrow> Panics)) (\<lambda>source_text.
     io_bind (run_process ma (solc_command ma)
        [''--combined-json'', ''abi,bin,bin-runtime,srcmap-runtime,storage-layout,ast'',
         ''--no-cbor-metadata'', source_text]) (\<lambda>compile_output.
     io_bind (io_of (guard_that (po_success compile_output)
        (CompilationFailed (po_stdout compile_output) (po_stderr compile_output)))) (\<lambda>_.
     io_of (ok_or BadSolcText (from_utf8 (po_stdout compile_output))))))"

definition read_build :: "machine \<Rightarrow> string \<Rightarrow> string \<Rightarrow> (cli_error, solidity_build) outcome" where
  "read_build ma source_path compiled_json_str =
     and_then (ok_or BadSolcJson (ma_from_str ma compiled_json_str)) (\<lambda>compiled.
     and_then (ok_or BadSolcAst (from_combined_json (ma_from_str ma) compiled_json_str)) (\<lambda>ast.
     let stem = (case file_stem source_path of Some s \<Rightarrow> s | None \<Rightarrow> ''Contract'') in
     and_then (select_contract compiled stem) (\<lambda>(key, contract).
     and_then (text_field contract key ''bin'') (\<lambda>deploy_hex.
     and_then (text_field contract key ''bin-runtime'') (\<lambda>runtime_hex.
     and_then (text_field contract key ''srcmap-runtime'') (\<lambda>source_map_raw.
     let layout = storage_layout_of (ma_layout_of ma) (json_index contract ''storage-layout'') in
     and_then (ok_or (BadBytecode runtime_hex) (ma_hex_decode ma runtime_hex)) (\<lambda>runtime.
     and_then (ok_or (SourceUnreadable source_path) (ma_read_to_string ma source_path)) (\<lambda>contents.
     and_then (abi_of (ma_from_str ma) key (json_index contract ''abi'')) (\<lambda>abi.
     Returns \<lparr>sb_name = contract_name_of key, sb_deploy_hex = deploy_hex,
              sb_source_map = source_map_parse source_map_raw, sb_layout = layout, sb_ast = ast,
              sb_runtime = runtime, sb_contents = contents, sb_abi = abi\<rparr>)))))))))"

definition record_solidity :: "machine \<Rightarrow> record_args \<Rightarrow> string \<Rightarrow> string \<Rightarrow> unit io" where
  "record_solidity ma args source_path out_dir =
     io_bind (compile_solidity ma source_path) (\<lambda>compiled_json_str.
     io_bind (io_of (read_build ma source_path compiled_json_str)) (\<lambda>build.
     io_bind (io_of (call_data_of (ma_keccak ma) (sb_abi build) (ra_function args))) (\<lambda>call_input.
     io_bind (io_of (encode_constructor_args (sb_abi build) (sb_name build))) (\<lambda>constructor_args.
     io_bind (spawn_node ma) (\<lambda>deploy_from.
     io_bind (io_of (call_sender ma (ra_from args) deploy_from)) (\<lambda>call_from.
     io_bind (io_of (ok_or (BadBytecode (sb_deploy_hex build)) (ma_hex_decode ma (sb_deploy_hex build)))) (\<lambda>code.
     io_bind (deploy_contract ma deploy_from (code @ constructor_args)) (\<lambda>contract_address.
     io_bind (call_contract ma args call_from contract_address call_input) (\<lambda>(frame, tx_succeeded).
     io_bind (copy_source ma source_path out_dir) (\<lambda>copy_path.
     write_trace ma source_path out_dir copy_path (sb_source_map build) (sb_runtime build) (sb_contents build)
       (sb_layout build) (Some (sb_ast build)) (from_abi (ma_keccak ma) (sb_abi build)) frame tx_succeeded))))))))))"

section \<open>Yul\<close>

definition record_yul :: "machine \<Rightarrow> record_args \<Rightarrow> string \<Rightarrow> string \<Rightarrow> unit io" where
  "record_yul ma args source_path out_dir =
     io_bind (perform (RanCompiler (solc_command ma))) (\<lambda>_.
     io_bind (io_of (map_fails YulCompile
        (compile_yul (ma_run ma) (ma_from_str ma) (ma_hex_decode ma) (solc_command ma) source_path))) (\<lambda>yul_out.
     io_bind (io_of (ok_or (SourceUnreadable source_path) (ma_read_to_string ma source_path))) (\<lambda>contents.
     io_bind (spawn_node ma) (\<lambda>deploy_from.
     io_bind (io_of (call_sender ma (ra_from args) deploy_from)) (\<lambda>call_from.
     io_bind (deploy_contract ma deploy_from (yc_deploy_bytecode yul_out)) (\<lambda>contract_address.
     io_bind (ask (\<lambda>h. map_err NodeError (ma_code_at ma h contract_address))) (\<lambda>runtime_bytecode.
     io_bind (io_of (guard_that (runtime_bytecode \<noteq> []) NoRuntimeBytecode)) (\<lambda>_.
     io_bind (call_contract ma args call_from contract_address []) (\<lambda>(frame, tx_succeeded).
     io_bind (copy_source ma source_path out_dir) (\<lambda>copy_path.
     write_trace ma source_path out_dir copy_path (yc_runtime_source_map yul_out) runtime_bytecode contents
       None None empty_error_registry frame tx_succeeded))))))))))"

section \<open>The command\<close>

definition is_yul :: "string \<Rightarrow> bool" where
  "is_yul source_path =
     (case file_extension source_path of Some e \<Rightarrow> eq_ignore_ascii_case e ''yul'' | None \<Rightarrow> False)"

definition record_command :: "machine \<Rightarrow> record_args \<Rightarrow> unit io" where
  "record_command ma args =
     io_bind (io_of (ok_or (SourceNotFound (ra_solidity_file args)) (ma_canonicalize ma (ra_solidity_file args)))) (\<lambda>source_path.
     if recording_disabled (ma_env ma ''CODETRACER_EVM_RECORDER_DISABLED'') then io_of (Returns ())
     else
       io_bind (io_of (resolve_out_dir (ra_out_dir args) (ra_trace_dir args)
                         (ma_env ma ''CODETRACER_EVM_RECORDER_OUT_DIR''))) (\<lambda>out_dir.
       io_bind (perform (MadeDirectory out_dir)) (\<lambda>_.
       io_bind (io_of (guard_that (ma_create_dir_all ma out_dir) (CannotCreateDirectory out_dir))) (\<lambda>_.
       if is_yul source_path then record_yul ma args source_path out_dir
       else record_solidity ma args source_path out_dir))))"

section \<open>Lemmas\<close>

subsection \<open>The order of the effects\<close>

fun stage :: "io_effect \<Rightarrow> nat" where
  "stage (MadeDirectory d) = 0"
| "stage (RanCompiler c) = 1"
| "stage SpawnedNode = 2"
| "stage (SentTransaction tx) = (if tr_to tx = None then 3 else 4)"
| "stage (FetchedTrace h) = 5"
| "stage (CopiedFile s t) = 6"
| "stage (WroteTrace p d cs) = 7"

text \<open>A computation goes through the given stages: all of them if it returns, and the first ones
  if it does not.\<close>

definition goes_through :: "nat list \<Rightarrow> 'a io \<Rightarrow> bool" where
  "goes_through ks m \<longleftrightarrow>
     (\<forall>h. \<exists>es. snd (m h) = h @ es \<and> Sublist.prefix (map stage es) ks \<and>
        ((\<exists>x. fst (m h) = Returns x) \<longrightarrow> map stage es = ks))"

lemma goes_through_io_of: "goes_through [] (io_of m)"
  by (simp add: goes_through_def io_of_def)

lemma goes_through_ask: "goes_through [] (ask q)"
  by (simp add: goes_through_def ask_def)

lemma goes_through_perform: "goes_through [stage e] (perform e)"
  by (simp add: goes_through_def perform_def)

lemma goes_through_bind:
  assumes "goes_through as m" and "\<And>x. goes_through bs (f x)"
  shows "goes_through (as @ bs) (io_bind m f)"
  unfolding goes_through_def
proof
  fix h
  obtain es where es: "snd (m h) = h @ es" "Sublist.prefix (map stage es) as"
    "(\<exists>x. fst (m h) = Returns x) \<longrightarrow> map stage es = as"
    using assms(1) unfolding goes_through_def by blast
  show "\<exists>es. snd (io_bind m f h) = h @ es \<and> Sublist.prefix (map stage es) (as @ bs) \<and>
      ((\<exists>x. fst (io_bind m f h) = Returns x) \<longrightarrow> map stage es = as @ bs)"
  proof (cases "fst (m h)")
    case (Returns x)
    obtain fs where fs: "snd (f x (h @ es)) = (h @ es) @ fs" "Sublist.prefix (map stage fs) bs"
      "(\<exists>y. fst (f x (h @ es)) = Returns y) \<longrightarrow> map stage fs = bs"
      using assms(2) [of x] unfolding goes_through_def by blast
    from Returns es(1) have "io_bind m f h = f x (h @ es)" by (simp add: io_bind_def Let_def split_beta)
    with Returns es fs show ?thesis by (intro exI [of _ "es @ fs"]) auto
  qed (use es in \<open>auto simp: io_bind_def Let_def split_beta\<close>)
qed

lemma goes_through_bind0: "goes_through [] m \<Longrightarrow> (\<And>x. goes_through ks (f x)) \<Longrightarrow> goes_through ks (io_bind m f)"
  using goes_through_bind [of "[]" m ks f] by simp

lemma goes_through_bind1: "goes_through [k] m \<Longrightarrow> (\<And>x. goes_through ks (f x)) \<Longrightarrow> goes_through (k # ks) (io_bind m f)"
  using goes_through_bind [of "[k]" m ks f] by simp

lemma goes_through_perform_bind:
  "k = stage e \<Longrightarrow> (\<And>x. goes_through ks (f x)) \<Longrightarrow> goes_through (k # ks) (io_bind (perform e) f)"
  using goes_through_bind1 [OF goes_through_perform] by simp

lemmas pure_steps = goes_through_bind0 [OF goes_through_io_of] goes_through_bind0 [OF goes_through_ask]
  goes_through_io_of goes_through_ask

lemma goes_through_run_process: "goes_through [1] (run_process ma cmd args)"
  unfolding run_process_def by (intro goes_through_perform_bind pure_steps) simp

lemma goes_through_compile_solidity: "goes_through [1] (compile_solidity ma p)"
  unfolding compile_solidity_def
  by (rule pure_steps, rule goes_through_bind1 [OF goes_through_run_process]) (intro pure_steps)

lemma goes_through_spawn_node: "goes_through [2] (spawn_node ma)"
  unfolding spawn_node_def by (intro goes_through_perform_bind pure_steps) simp

lemma goes_through_send_transaction: "goes_through [if tr_to tx = None then 3 else 4] (send_transaction ma tx)"
  unfolding send_transaction_def by (intro goes_through_perform_bind pure_steps) simp

lemma goes_through_deploy: "goes_through [3] (deploy_contract ma a d)"
  unfolding deploy_contract_def
  using goes_through_bind1 [OF goes_through_send_transaction [of "deploy_request a d" ma] goes_through_io_of]
  by (simp add: deploy_request_def)

lemma goes_through_fetch: "goes_through [5] (fetch_struct_logs ma h)"
  unfolding fetch_struct_logs_def by (intro goes_through_perform_bind pure_steps) simp

lemma goes_through_call: "goes_through [4, 5] (call_contract ma args a c d)"
proof -
  have send: "goes_through [4] (send_transaction ma (call_request a c d v))" for v
    using goes_through_send_transaction [of "call_request a c d v" ma] by (simp add: call_request_def)
  show ?thesis
    unfolding call_contract_def
    by (rule pure_steps, rule goes_through_bind1 [OF send], rule goes_through_bind1 [OF goes_through_fetch])
      (intro pure_steps)
qed

lemma goes_through_copy: "goes_through [6] (copy_source ma p d)"
  unfolding copy_source_def Let_def by (intro goes_through_perform_bind pure_steps) simp

lemma goes_through_write: "goes_through [7] (write_trace ma p d cp sm code cs layout ast reg fr ok)"
  unfolding write_trace_def Let_def split_beta by (intro goes_through_perform_bind pure_steps) simp

lemma goes_through_bind2:
  "goes_through [j, k] m \<Longrightarrow> (\<And>x. goes_through ks (f x)) \<Longrightarrow> goes_through (j # k # ks) (io_bind m f)"
  using goes_through_bind [of "[j, k]" m ks f] by simp

lemmas stages = goes_through_bind1 [OF goes_through_spawn_node] goes_through_bind1 [OF goes_through_deploy]
  goes_through_bind1 [OF goes_through_compile_solidity] goes_through_bind2 [OF goes_through_call]
  goes_through_bind1 [OF goes_through_copy] goes_through_write pure_steps

lemma goes_through_solidity: "goes_through [1, 2, 3, 4, 5, 6, 7] (record_solidity ma args p d)"
  unfolding record_solidity_def split_beta by (intro stages)

lemma goes_through_yul: "goes_through [1, 2, 3, 4, 5, 6, 7] (record_yul ma args p d)"
  unfolding record_yul_def split_beta by (rule goes_through_perform_bind, simp) (intro stages)

lemma goes_through_command:
  assumes "\<not> recording_disabled (ma_env ma ''CODETRACER_EVM_RECORDER_DISABLED'')"
  shows "goes_through [0, 1, 2, 3, 4, 5, 6, 7] (record_command ma args)"
  unfolding record_command_def if_not_P [OF assms]
  by (rule pure_steps, rule pure_steps, rule goes_through_perform_bind, simp, rule pure_steps,
      simp only: if_split goes_through_solidity goes_through_yul, simp)

subsection \<open>Runs that return\<close>

lemma io_bind_Returns:
  "io_bind m f h = (Returns y, es) \<longleftrightarrow> (\<exists>x h1. m h = (Returns x, h1) \<and> f x h1 = (Returns y, es))"
  by (auto simp: io_bind_def Let_def split_beta split: outcome.splits) (metis prod.collapse)

lemma io_of_Returns: "io_of m h = (Returns y, es) \<longleftrightarrow> m = Returns y \<and> es = h"
  by (auto simp: io_of_def)

lemma ask_Returns: "ask q h = (Returns y, es) \<longleftrightarrow> q h = Returns y \<and> es = h"
  by (auto simp: ask_def)

lemma perform_Returns: "perform e h = (Returns y, es) \<longleftrightarrow> es = h @ [e]"
  by (auto simp: perform_def)

lemmas returns = io_bind_Returns io_of_Returns ask_Returns perform_Returns

text \<open>The event that reports a failed transaction.\<close>

definition reason_events :: "custom_error_registry \<Rightarrow> default_frame \<Rightarrow> bool \<Rightarrow> wcall list" where
  "reason_events registry frame tx_succeeded =
     (if df_failed frame \<or> \<not> tx_succeeded then
        (let decoded = decode_revert_with_registry (df_return_value frame) registry in
         [W_Event EkError (dr_kind decoded) (dr_message decoded)])
      else [])"

lemma er_calls_surfaced:
  "er_calls (surface_revert registry frame ok r) = er_calls r @ reason_events registry frame ok"
  by (simp add: surface_revert_def register_revert_def reason_events_def Let_def)

lemma write_trace_Returns:
  assumes "write_trace ma p d copy sm code contents layout ast registry frame ok h = (Returns (), es)"
  shows "\<exists>r0 r. er_calls r0 = opening_calls d \<and>
             record_from_structlog (ma_writer ma) (ma_keccak ma) (df_struct_logs frame) sm code [copy] [contents]
               layout ast r0 = Some r \<and>
             es = h @ [WroteTrace (to_string_lossy p) d (er_calls r @ reason_events registry frame ok @ closing_calls)]"
proof -
  obtain opened r0 where r0: "initialize_trace (ma_writer ma) d evm_recorder_new = (opened, r0)" by fastforce
  with assms obtain r closed fin where r: "opened"
    "record_from_structlog (ma_writer ma) (ma_keccak ma) (df_struct_logs frame) sm code [copy] [contents]
       layout ast r0 = Some r"
    "finalize_trace (ma_writer ma) (surface_revert registry frame ok r) = (closed, fin)" "closed"
    "es = h @ [WroteTrace (to_string_lossy p) d (er_calls fin)]"
    by (auto simp: write_trace_def returns extract_struct_logs_def Let_def split: option.splits prod.splits)
  with r0 initialize_trace_calls [of "ma_writer ma" d evm_recorder_new r0]
    finalize_trace_calls [of "ma_writer ma" "surface_revert registry frame ok r" fin]
  show ?thesis by (auto simp: er_calls_surfaced evm_recorder_new_def)
qed

lemma send_transaction_Returns:
  "send_transaction ma tx h = (Returns receipt, es) \<longleftrightarrow>
     es = h @ [SentTransaction tx] \<and> ma_send ma es = Inr receipt"
  by (auto simp: send_transaction_def returns)

lemma default_trace_Returns:
  "(case trace of DefaultTrace fr \<Rightarrow> Returns fr | OtherTrace \<Rightarrow> Fails e) = Returns frame \<longleftrightarrow> trace = DefaultTrace frame"
  by (cases trace) simp_all

lemma fetch_struct_logs_Returns:
  "fetch_struct_logs ma tx h = (Returns frame, es) \<longleftrightarrow>
     ma_endpoint_parses ma \<and> es = h @ [FetchedTrace tx] \<and>
     ma_trace ma es tx struct_log_options = Inr (DefaultTrace frame)"
  by (auto simp: fetch_struct_logs_def returns default_trace_Returns)

lemma call_contract_Returns:
  assumes "call_contract ma args a c d h = (Returns (frame, ok), es)"
  shows "\<exists>v receipt. parse_value_wei (ma_u256_from_str_radix ma) (ra_value args) = Returns v \<and>
    ma_send ma (h @ [SentTransaction (call_request a c d v)]) = Inr receipt \<and> ok = rc_status receipt \<and>
    es = h @ [SentTransaction (call_request a c d v), FetchedTrace (rc_transaction_hash receipt)] \<and>
    ma_trace ma es (rc_transaction_hash receipt) struct_log_options = Inr (DefaultTrace frame) \<and>
    df_struct_logs frame \<noteq> []"
  using assms
  by (auto simp: call_contract_def send_transaction_Returns fetch_struct_logs_Returns io_bind_Returns io_of_Returns
      extract_struct_logs_def)

lemma copy_source_Returns:
  "copy_source ma p d h = (Returns c, es) \<longleftrightarrow>
     (\<exists>f. file_name p = Some f \<and> c = path_join d f \<and> ma_copy ma p c \<and> es = h @ [CopiedFile p c])"
  by (auto simp: copy_source_def returns Let_def)

subsection \<open>Runs that panic\<close>

definition no_panic :: "'a io \<Rightarrow> bool" where
  "no_panic m \<longleftrightarrow> (\<forall>h. fst (m h) \<noteq> Panics)"

lemma no_panic_io_of: "m \<noteq> Panics \<Longrightarrow> no_panic (io_of m)"
  by (simp add: no_panic_def io_of_def)

lemma no_panic_ask: "(\<And>h. q h \<noteq> Panics) \<Longrightarrow> no_panic (ask q)"
  by (simp add: no_panic_def ask_def)

lemma no_panic_perform: "no_panic (perform e)"
  by (simp add: no_panic_def perform_def)

text \<open>The rest of a computation need only be looked at for the values it is given.\<close>

lemma no_panic_bind:
  "no_panic m \<Longrightarrow> (\<And>x h h1. m h = (Returns x, h1) \<Longrightarrow> no_panic (f x)) \<Longrightarrow> no_panic (io_bind m f)"
proof -
  assume m: "no_panic m" and f: "\<And>x h h1. m h = (Returns x, h1) \<Longrightarrow> no_panic (f x)"
  have "fst (io_bind m f h) \<noteq> Panics" for h
  proof (cases "m h")
    case (Pair r h1)
    with m have "r \<noteq> Panics" by (metis fst_conv no_panic_def)
    with Pair f [of h _ h1] show ?thesis
      by (cases r) (auto simp: io_bind_def no_panic_def)
  qed
  then show ?thesis by (simp add: no_panic_def)
qed

lemma ok_or_sure [simp]: "ok_or e x \<noteq> Panics"
  by (simp add: ok_or_def split: option.split)

lemma map_err_sure [simp]: "map_err f x \<noteq> Panics"
  by (simp add: map_err_def split: sum.split)

lemma guard_that_sure [simp]: "guard_that b e \<noteq> Panics"
  by (simp add: guard_that_def)

lemma map_fails_Panics [simp]: "map_fails f m = Panics \<longleftrightarrow> m = Panics"
  by (cases m) (simp_all add: map_fails_def)

lemma and_then_sure: "m \<noteq> Panics \<Longrightarrow> (\<And>x. f x \<noteq> Panics) \<Longrightarrow> and_then m f \<noteq> Panics"
  by (cases m) simp_all

lemma encode_default_args_sure: "encode_default_args f i tys \<noteq> Panics"
  by (induction f i tys rule: encode_default_args.induct) (simp_all add: and_then_sure)

lemma synthesize_entries_sure: "synthesize_entries asm \<noteq> Panics"
  by (induction asm) (simp_all add: and_then_sure split: option.split)

lemma compile_yul_sure: "compile_yul run from_str dec cmd p \<noteq> Panics"
  unfolding compile_yul_def parse_binary_representation_def extract_asm_json_def synthesize_source_map_def Let_def
  by (intro and_then_sure) (simp_all add: synthesize_entries_sure)

lemma read_build_sure: "read_build ma p json \<noteq> Panics"
  unfolding read_build_def Let_def split_beta
  by (intro and_then_sure) (simp_all add: select_contract_def text_field_def abi_of_def and_then_sure split: option.split)

lemma call_data_of_sure: "call_data_of k abi f \<noteq> Panics"
  unfolding call_data_of_def build_call_signature_and_args_def Let_def
  by (intro and_then_sure encode_default_args_sure) (simp_all split: prod.split)

lemma helpers_sure:
  "call_data_of k abi f \<noteq> Panics" "encode_constructor_args abi name \<noteq> Panics"
  "call_sender ma from_arg a \<noteq> Panics" "parse_value_wei radix s \<noteq> Panics"
  "resolve_out_dir out_dir trace_dir env_dir \<noteq> Panics"
  by (simp_all add: call_data_of_sure encode_constructor_args_def call_sender_def
      parse_value_wei_def resolve_out_dir_def Let_def split: option.split)

lemma record_from_structlog_total:
  assumes "\<forall>lg\<in>set logs. 1 \<le> log_depth lg"
  shows "record_from_structlog env k logs sm code paths contents layout ast r \<noteq> None"
proof -
  obtain inp r1 where inp: "recorder_input env k logs sm code paths contents layout ast r = (inp, r1)"
    by fastforce
  show ?thesis
    using log_loop_total [OF rec_state_init_ok assms, of inp 0 r1]
    by (auto simp: record_from_structlog_def inp)
qed

text \<open>
  A node that starts, has an account and gives traces with depths from one, on a file system whose
  Solidity files have paths in UTF-8.
\<close>

definition sane_node :: "machine \<Rightarrow> bool" where
  "sane_node ma \<longleftrightarrow> (\<forall>h. ma_node_starts ma h) \<and>
     (\<forall>f p. ma_canonicalize ma f = Some p \<longrightarrow> is_yul p \<or> path_to_str p \<noteq> None) \<and>
     (\<forall>h as. ma_accounts ma h = Inr as \<longrightarrow> as \<noteq> []) \<and>
     (\<forall>h tx opts frame. ma_trace ma h tx opts = Inr (DefaultTrace frame) \<longrightarrow>
        (\<forall>lg\<in>set (df_struct_logs frame). 1 \<le> log_depth lg))"

lemmas panic_free = no_panic_bind no_panic_io_of no_panic_ask no_panic_perform

lemma no_panic_spawn: "sane_node ma \<Longrightarrow> no_panic (spawn_node ma)"
  unfolding spawn_node_def
  by (intro panic_free) (auto simp: sane_node_def ask_Returns returns split: option.splits)

lemma no_panic_send: "no_panic (send_transaction ma tx)"
  unfolding send_transaction_def by (intro panic_free) simp

lemma no_panic_deploy: "no_panic (deploy_contract ma a d)"
  unfolding deploy_contract_def by (intro no_panic_bind no_panic_send no_panic_io_of) simp

lemma no_panic_call: "no_panic (call_contract ma args a c d)"
  unfolding call_contract_def fetch_struct_logs_def
  by (intro no_panic_bind no_panic_send no_panic_io_of no_panic_ask no_panic_perform)
    (simp_all add: helpers_sure split: geth_trace.split)

lemma no_panic_copy: "no_panic (copy_source ma p d)"
  unfolding copy_source_def Let_def by (intro panic_free) simp_all

lemma no_panic_compile: "path_to_str p \<noteq> None \<Longrightarrow> no_panic (compile_solidity ma p)"
  unfolding compile_solidity_def run_process_def by (intro panic_free) auto

lemma no_panic_write:
  "\<forall>lg\<in>set (df_struct_logs frame). 1 \<le> log_depth lg \<Longrightarrow>
     no_panic (write_trace ma p d copy sm code contents layout ast registry frame ok)"
  unfolding write_trace_def Let_def split_beta extract_struct_logs_def
  using record_from_structlog_total
  by (intro panic_free) (auto split: option.splits)

lemma call_contract_depths:
  "sane_node ma \<Longrightarrow> call_contract ma args a c d h = (Returns (frame, ok), es) \<Longrightarrow>
     \<forall>lg\<in>set (df_struct_logs frame). 1 \<le> log_depth lg"
  using call_contract_Returns [of ma args a c d h frame ok es] unfolding sane_node_def by blast

lemma no_panic_solidity: "sane_node ma \<Longrightarrow> path_to_str p \<noteq> None \<Longrightarrow> no_panic (record_solidity ma args p d)"
  unfolding record_solidity_def
  by (intro no_panic_bind no_panic_compile no_panic_io_of read_build_sure helpers_sure no_panic_spawn no_panic_deploy
      no_panic_call no_panic_copy ok_or_sure)
    (auto intro!: no_panic_bind no_panic_copy no_panic_write dest: call_contract_depths)

lemma no_panic_yul: "sane_node ma \<Longrightarrow> no_panic (record_yul ma args p d)"
  unfolding record_yul_def
  by (intro no_panic_bind no_panic_perform no_panic_io_of helpers_sure no_panic_spawn no_panic_deploy no_panic_ask
      no_panic_call no_panic_copy ok_or_sure guard_that_sure map_err_sure)
    (auto simp: compile_yul_sure intro!: no_panic_bind no_panic_copy no_panic_write dest: call_contract_depths)

section \<open>Properties\<close>

text \<open>
  C13: the command does its work in one order: output directory, compiler, node, deployment, call,
  trace, copy of the source, trace file. A run that fails stops somewhere on that way, so that no
  transaction is sent for a file that does not compile and no trace is written without a trace of
  the call; a run that returns has gone all the way, unless recording is disabled, when nothing is
  done at all.
\<close>

theorem effects_in_order:
  assumes "record_command ma args [] = (r, es)"
  shows "Sublist.prefix (map stage es) [0, 1, 2, 3, 4, 5, 6, 7] \<and>
    (r = Returns () \<longrightarrow> map stage es = [0, 1, 2, 3, 4, 5, 6, 7] \<or>
       recording_disabled (ma_env ma ''CODETRACER_EVM_RECORDER_DISABLED'')) \<and>
    (recording_disabled (ma_env ma ''CODETRACER_EVM_RECORDER_DISABLED'') \<longrightarrow> es = [])"
proof (cases "recording_disabled (ma_env ma ''CODETRACER_EVM_RECORDER_DISABLED'')")
  case True
  with assms have "es = []"
    by (auto simp: record_command_def io_bind_def io_of_def split_beta split: outcome.splits)
  with True show ?thesis by simp
next
  case False
  obtain fs where fs: "es = [] @ fs" "Sublist.prefix (map stage fs) [0, 1, 2, 3, 4, 5, 6, 7]"
    "(\<exists>x. r = Returns x) \<longrightarrow> map stage fs = [0, 1, 2, 3, 4, 5, 6, 7]"
    using goes_through_command [OF False, of args] assms unfolding goes_through_def by (metis fst_conv snd_conv)
  show ?thesis using fs(2,3) False unfolding fs(1) append_Nil by blast
qed

text \<open>
  C11: when the command returns for a Solidity file, the trace file is opened for column aware steps
  with the table of EVM types, holds what the recorder made of the trace the node gave for the call
  transaction, under the maps of the contract that was built from solc's output and the copied
  source, then, exactly if the transaction failed, one error event with the decoded reason, and then
  the return of the top level, the end of the trace and its description, and is closed.
\<close>

theorem solidity_recording_written:
  assumes "record_solidity ma args p d [] = (Returns (), es)"
  shows "\<exists>doc build before tx frame ok copy r0 r.
    read_build ma p doc = Returns build \<and>
    ma_trace ma before tx struct_log_options = Inr (DefaultTrace frame) \<and>
    (\<exists>receipt. ma_send ma (butlast before) = Inr receipt \<and> tx = rc_transaction_hash receipt \<and> ok = rc_status receipt) \<and>
    er_calls r0 = opening_calls d \<and>
    record_from_structlog (ma_writer ma) (ma_keccak ma) (df_struct_logs frame) (sb_source_map build) (sb_runtime build)
      [copy] [sb_contents build] (sb_layout build) (Some (sb_ast build)) r0 = Some r \<and>
    es = before @ [CopiedFile p copy, WroteTrace p d
      (er_calls r @ reason_events (from_abi (ma_keccak ma) (sb_abi build)) frame ok @ closing_calls)]"
proof -
  from assms have "path_to_str p = Some p"
    using path_to_str_Some by (fastforce simp: record_solidity_def compile_solidity_def io_bind_Returns io_of_Returns
      split: option.splits)
  then have label: "to_string_lossy p = p" using path_to_str_Some by blast
  from assms obtain doc build call_input a c h1 frame ok h2 copy h3 where
    build: "read_build ma p doc = Returns build"
    and call: "call_contract ma args a c call_input h1 = (Returns (frame, ok), h2)"
    and copy: "copy_source ma p d h2 = (Returns copy, h3)"
    and wr: "write_trace ma p d copy (sb_source_map build) (sb_runtime build) (sb_contents build) (sb_layout build)
      (Some (sb_ast build)) (from_abi (ma_keccak ma) (sb_abi build)) frame ok h3 = (Returns (), es)"
    by (auto simp: record_solidity_def io_bind_Returns io_of_Returns)
  from call_contract_Returns [OF call] obtain v receipt where r:
    "ma_send ma (h1 @ [SentTransaction (call_request a c call_input v)]) = Inr receipt" "ok = rc_status receipt"
    "h2 = h1 @ [SentTransaction (call_request a c call_input v), FetchedTrace (rc_transaction_hash receipt)]"
    "ma_trace ma h2 (rc_transaction_hash receipt) struct_log_options = Inr (DefaultTrace frame)" by blast
  have "butlast h2 = h1 @ [SentTransaction (call_request a c call_input v)]" unfolding r(3) by (simp add: butlast_append)
  then have sent: "\<exists>receipt'. ma_send ma (butlast h2) = Inr receipt' \<and>
      rc_transaction_hash receipt = rc_transaction_hash receipt' \<and> ok = rc_status receipt'"
    using r(1,2) by auto
  have h3: "h3 = h2 @ [CopiedFile p copy]" using copy by (auto simp: copy_source_Returns)
  from write_trace_Returns [OF wr, unfolded label] obtain r0 rec where rec:
    "er_calls r0 = opening_calls d"
    "record_from_structlog (ma_writer ma) (ma_keccak ma) (df_struct_logs frame) (sb_source_map build) (sb_runtime build)
      [copy] [sb_contents build] (sb_layout build) (Some (sb_ast build)) r0 = Some rec"
    "es = h3 @ [WroteTrace p d (er_calls rec @ reason_events (from_abi (ma_keccak ma) (sb_abi build)) frame ok @
      closing_calls)]" by blast
  have "es = h2 @ [CopiedFile p copy, WroteTrace p d (er_calls rec @
      reason_events (from_abi (ma_keccak ma) (sb_abi build)) frame ok @ closing_calls)]"
    unfolding rec(3) h3 by simp
  with build r(4) sent rec(1,2) show ?thesis by blast
qed


text \<open>
  What the assumption excludes: a Solidity file whose path is not UTF-8, and a node that does not
  start, end the command with a panic, not with an error.
\<close>

theorem environment_panics:
  "path_to_str p = None \<Longrightarrow> record_solidity ma args p d h = (Panics, h)"
  "\<not> ma_node_starts ma (h @ [SpawnedNode]) \<Longrightarrow> spawn_node ma h = (Panics, h @ [SpawnedNode])"
  by (simp_all add: record_solidity_def compile_solidity_def spawn_node_def io_bind_def io_of_def perform_def
      ask_def)

section \<open>Witnesses\<close>

definition sample_combined :: json where
  "sample_combined = JObj [(''contracts'', JObj [(''A.sol:A'', JObj [(''bin'', JStr ''01''), (''bin-runtime'', JStr ''01''),
     (''srcmap-runtime'', JStr ''0:1:0:-:0''), (''abi'', JArr [])])])]"

definition sample_machine :: machine where
  "sample_machine = \<lparr>ma_canonicalize = (\<lambda>_. Some ''/A.sol''), ma_env = (\<lambda>_. None), ma_create_dir_all = (\<lambda>_. True),
     ma_run = (\<lambda>_ _. Inr \<lparr>po_success = True, po_stdout = [], po_stderr = []\<rparr>),
     ma_read_to_string = (\<lambda>_. Some ''contract A {}''), ma_copy = (\<lambda>_ _. True),
     ma_from_str = (\<lambda>_. Some sample_combined), ma_layout_of = (\<lambda>_. None), ma_hex_decode = (\<lambda>_. Some [0x01]),
     ma_keccak = (\<lambda>_. replicate 32 0), ma_address_from_str = (\<lambda>_. None),
     ma_u256_from_str_radix = (\<lambda>_ _. Some 0), ma_node_starts = (\<lambda>_. True), ma_endpoint_parses = True, ma_accounts = (\<lambda>_. Inr [1]),
     ma_send = (\<lambda>_. Inr \<lparr>rc_contract_address = Some 2, rc_transaction_hash = 3, rc_status = False\<rparr>),
     ma_code_at = (\<lambda>_ _. Inr [0x01]),
     ma_trace = (\<lambda>_ _ _. Inr (DefaultTrace \<lparr>df_failed = True, df_return_value = [],
                                       df_struct_logs = [example_log 0 1]\<rparr>)),
     ma_writer = example_env\<rparr>"

definition sample_args :: record_args where
  "sample_args = \<lparr>ra_solidity_file = ''/A.sol'', ra_out_dir = Some ''/out'', ra_trace_dir = None,
     ra_function = ''run'', ra_from = None, ra_value = ''0''\<rparr>"

lemma sample_path: "path_to_str ''/A.sol'' = Some ''/A.sol''" "to_string_lossy ''/A.sol'' = ''/A.sol''"
  by code_simp+

lemma sample_sane: "sane_node sample_machine"
  by (simp add: sane_node_def sample_machine_def example_log_def sample_path)

lemma sample_build:
  "read_build sample_machine ''/A.sol'' [] =
     Returns \<lparr>sb_name = ''A'', sb_deploy_hex = ''01'', sb_source_map = source_map_parse ''0:1:0:-:0'',
       sb_layout = None, sb_ast = ast_of_json sample_combined, sb_runtime = [0x01], sb_contents = ''contract A {}'',
       sb_abi = []\<rparr>"
  by (simp add: read_build_def sample_machine_def sample_combined_def from_combined_json_def file_stem_def file_name_def
      path_components_def cut_at_dot_def select_contract_def json_index_def json_access as_object_def ends_with_def
      text_field_def storage_layout_of_def is_null_def abi_of_def contract_name_of_def Let_def)

lemmas io_run = io_bind_def io_of_def perform_def ask_def Let_def split_beta

lemma sample_record:
  "\<exists>es. record_solidity sample_machine sample_args ''/A.sol'' ''/out'' h0 = (Returns (), es)"
proof -
  have doc: "compile_solidity sample_machine ''/A.sol'' h0 = (Returns [], h0 @ [RanCompiler ''solc''])"
    by (simp add: compile_solidity_def sample_path run_process_def io_bind_def io_of_def perform_def sample_machine_def
        solc_command_def from_utf8_def text_of_bytes_def)
  have input: "call_data_of (ma_keccak sample_machine) [] ''run'' = Returns (replicate 4 0)"
    by (simp add: call_data_of_def build_call_signature_and_args_def inputs_of_def sample_machine_def Let_def
        numeral_eq_Suc)
  have copy: "copy_source sample_machine ''/A.sol'' ''/out'' h =
      (Returns ''/out/A.sol'', h @ [CopiedFile ''/A.sol'' ''/out/A.sol''])" for h
    by (simp add: copy_source_def io_bind_def io_of_def perform_def sample_machine_def file_name_def
        path_components_def path_join_def starts_with_def Let_def)
  obtain r0 where r0: "initialize_trace example_env ''/out'' evm_recorder_new = (True, r0)"
    using initialize_trace_accepted [of example_env "''/out''" evm_recorder_new]
    by (cases "initialize_trace example_env ''/out'' evm_recorder_new") (simp add: example_env_def)
  obtain rec where rec: "record_from_structlog example_env (\<lambda>_. replicate 32 0) [example_log 0 1]
      (source_map_parse ''0:1:0:-:0'') [0x01] [''/out/A.sol''] [''contract A {}''] None
      (Some (ast_of_json sample_combined)) r0 = Some rec"
    using record_from_structlog_total [of "[example_log 0 1]"] by (fastforce simp: example_log_def)
  have closed: "\<exists>fin. finalize_trace example_env r = (True, fin)" for r
    by (simp add: finalize_trace_def attempt_def example_env_def Let_def)
  have spawn: "spawn_node sample_machine h = (Returns 1, h @ [SpawnedNode])" for h
    by (simp add: spawn_node_def io_run sample_machine_def vec_get_def)
  have deploy: "\<exists>h1. deploy_contract sample_machine a c h = (Returns 2, h1)" for a c h
    by (simp add: deploy_contract_def send_transaction_def io_run sample_machine_def)
  have "parse_value_wei (ma_u256_from_str_radix sample_machine) ''0'' = Returns 0"
    by (simp add: parse_value_wei_def trim_def trim_start_def is_ws_def strip_prefix_def starts_with_def sample_machine_def)
  then have called: "\<exists>h1. call_contract sample_machine sample_args a b c h = (Returns (\<lparr>df_failed = True, df_return_value = [],
      df_struct_logs = [example_log 0 1]\<rparr>, False), h1)" for a b c h
    by (simp add: call_contract_def send_transaction_def fetch_struct_logs_def extract_struct_logs_def sample_args_def io_run)
      (simp add: sample_machine_def io_run)
  have wr: "\<exists>es. write_trace sample_machine ''/A.sol'' ''/out'' ''/out/A.sol'' (source_map_parse ''0:1:0:-:0'') [0x01]
      ''contract A {}'' None (Some (ast_of_json sample_combined)) reg \<lparr>df_failed = True, df_return_value = [],
      df_struct_logs = [example_log 0 1]\<rparr> False h = (Returns (), es)" for reg h
    using closed [of "surface_revert reg \<lparr>df_failed = True, df_return_value = [],
      df_struct_logs = [example_log 0 1]\<rparr> False rec"]
    by (auto simp: write_trace_def extract_struct_logs_def io_run sample_machine_def r0 rec [simplified])
  have "encode_constructor_args [] ''A'' = Returns []" by (simp add: encode_constructor_args_def)
  moreover have "ra_function sample_args = ''run''" "ra_from sample_args = None"
    "ma_hex_decode sample_machine x = Some [0x01]" for x by (simp_all add: sample_args_def sample_machine_def)
  ultimately show ?thesis
    unfolding record_solidity_def
    by (simp add: io_bind_Returns io_of_Returns doc sample_build input spawn copy call_sender_def)
      (metis deploy called wr)
qed

lemma sample_command: "\<exists>es. record_command sample_machine sample_args [] = (Returns (), es)"
proof -
  have "\<not> recording_disabled (ma_env sample_machine ''CODETRACER_EVM_RECORDER_DISABLED'')"
    by (simp add: recording_disabled_def sample_machine_def)
  moreover have "\<not> is_yul ''/A.sol''"
    by (simp add: is_yul_def file_extension_def file_name_def path_components_def cut_at_dot_def Let_def
        eq_ignore_ascii_case_def ascii_lower_def)
  moreover have "ma_canonicalize sample_machine ''/A.sol'' = Some ''/A.sol''" "ma_create_dir_all sample_machine d"
    "ra_solidity_file sample_args = ''/A.sol''" "ra_out_dir sample_args = Some ''/out''" for d
    by (simp_all add: sample_machine_def sample_args_def)
  ultimately show ?thesis
    by (simp add: record_command_def returns resolve_out_dir_def sample_record)
qed

lemma sample_enabled: "\<not> recording_disabled (ma_env sample_machine ''CODETRACER_EVM_RECORDER_DISABLED'')"
  by (simp add: recording_disabled_def sample_machine_def)

lemma sample_command_writes:
  "\<exists>es p d cs. record_command sample_machine sample_args [] = (Returns (), es) \<and> WroteTrace p d cs \<in> set es"
proof -
  obtain es where es: "record_command sample_machine sample_args [] = (Returns (), es)"
    using sample_command by blast
  with goes_through_command [OF sample_enabled, of sample_args]
  have "map stage es = [0, 1, 2, 3, 4, 5, 6, 7]" unfolding goes_through_def by (metis append_Nil fst_conv snd_conv)
  then have "7 \<in> stage ` set es" by (metis list.set_intros(1) list.set_intros(2) set_map)
  then obtain e where e: "e \<in> set es" "stage e = 7" by auto
  from e(2) obtain p d cs where "e = WroteTrace p d cs" by (cases e) (auto split: if_splits)
  with e es show ?thesis by blast
qed

lemma effects_in_order_witness:
  "\<exists>es. record_command sample_machine sample_args [] = (Returns (), es) \<and> map stage es = [0, 1, 2, 3, 4, 5, 6, 7]"
proof -
  obtain es where es: "record_command sample_machine sample_args [] = (Returns (), es)"
    using sample_command by blast
  have "\<not> recording_disabled (ma_env sample_machine ''CODETRACER_EVM_RECORDER_DISABLED'')"
    by (simp add: recording_disabled_def sample_machine_def)
  then have "map stage es = [0, 1, 2, 3, 4, 5, 6, 7]"
    using effects_in_order [OF es, THEN conjunct2, THEN conjunct1] by simp
  with es show ?thesis by (intro exI conjI)
qed

lemma solidity_recording_written_witness:
  "\<exists>es cs. record_solidity sample_machine sample_args ''/A.sol'' ''/out'' [] = (Returns (), es) \<and>
     last es = WroteTrace ''/A.sol'' ''/out'' (cs @ closing_calls)"
proof -
  obtain es where es: "record_solidity sample_machine sample_args ''/A.sol'' ''/out'' [] = (Returns (), es)"
    using sample_record by blast
  from solidity_recording_written [OF es] show ?thesis
  proof (elim exE conjE)
    fix doc build before tx frame ok copy r0 r
    let ?reasons = "reason_events (from_abi (ma_keccak sample_machine) (sb_abi build)) frame ok"
    assume e: "es = before @ [CopiedFile ''/A.sol'' copy,
      WroteTrace ''/A.sol'' ''/out'' (er_calls r @ ?reasons @ closing_calls)]"
    have "last es = WroteTrace ''/A.sol'' ''/out'' ((er_calls r @ ?reasons) @ closing_calls)"
      unfolding e by simp
    with es show ?thesis by (intro exI conjI)
  qed
qed


end
