(* ===== verification/Trace_Files.thy ===== *)
theory Trace_Files
  imports Cli Recorder_Types
begin

text \<open>
  The trace files of the command line against the discipline of the writer: whatever the source, solc
  and the node answer, the file the \<open>record\<close> command writes is well typed and the calls that made it
  are in order, and it is complete when the command returns. The rules carry this through the command
  one operation at a time.
\<close>

section \<open>Computations that write only sound traces\<close>

text \<open>Every trace added to the log of effects is sound, and complete if the computation returns.\<close>

definition sound_trace :: "writer_env \<Rightarrow> bool \<Rightarrow> wcall list \<Rightarrow> bool" where
  "sound_trace env complete cs \<longleftrightarrow> well_typed env cs \<and> session_of cs \<noteq> None \<and>
     (complete \<longrightarrow> session_of cs = Some Closed)"

definition writes_soundly :: "writer_env \<Rightarrow> 'a io \<Rightarrow> bool" where
  "writes_soundly env m \<longleftrightarrow>
     (\<forall>h. \<exists>es. snd (m h) = h @ es \<and>
        (\<forall>p d cs. WroteTrace p d cs \<in> set es \<longrightarrow> sound_trace env (\<exists>x. fst (m h) = Returns x) cs))"

lemma sound_trace_partial: "sound_trace env True cs \<Longrightarrow> sound_trace env c cs"
  by (simp add: sound_trace_def)

named_theorems sound_writers

lemma writes_soundly_io_of [sound_writers]: "writes_soundly env (io_of m)"
  by (simp add: writes_soundly_def io_of_def)

lemma writes_soundly_ask [sound_writers]: "writes_soundly env (ask q)"
  by (simp add: writes_soundly_def ask_def)

lemma writes_soundly_perform: "(\<And>p d cs. e \<noteq> WroteTrace p d cs) \<Longrightarrow> writes_soundly env (perform e)"
  by (auto simp: writes_soundly_def perform_def)

lemma writes_soundly_performs [sound_writers]:
  "writes_soundly env (perform (MadeDirectory d))" "writes_soundly env (perform (RanCompiler c))"
  "writes_soundly env (perform SpawnedNode)" "writes_soundly env (perform (SentTransaction tx))"
  "writes_soundly env (perform (FetchedTrace x))" "writes_soundly env (perform (CopiedFile s t))"
  by (rule writes_soundly_perform, simp)+

lemma writes_soundly_bind:
  assumes "writes_soundly env m" and "\<And>x h h1. m h = (Returns x, h1) \<Longrightarrow> writes_soundly env (f x)"
  shows "writes_soundly env (io_bind m f)"
  unfolding writes_soundly_def
proof
  fix h
  obtain es where es: "snd (m h) = h @ es"
    "\<forall>p d cs. WroteTrace p d cs \<in> set es \<longrightarrow> sound_trace env (\<exists>x. fst (m h) = Returns x) cs"
    using assms(1) unfolding writes_soundly_def by blast
  show "\<exists>es. snd (io_bind m f h) = h @ es \<and> (\<forall>p d cs. WroteTrace p d cs \<in> set es \<longrightarrow>
      sound_trace env (\<exists>x. fst (io_bind m f h) = Returns x) cs)"
  proof (cases "fst (m h)")
    case (Returns x)
    then have m: "m h = (Returns x, h @ es)" using es(1) by (metis prod.collapse)
    obtain fs where fs: "snd (f x (h @ es)) = (h @ es) @ fs"
      "\<forall>p d cs. WroteTrace p d cs \<in> set fs \<longrightarrow> sound_trace env (\<exists>y. fst (f x (h @ es)) = Returns y) cs"
      using assms(2) [OF m] unfolding writes_soundly_def by blast
    have "io_bind m f h = f x (h @ es)" by (simp add: io_bind_def m)
    moreover have "\<forall>p d cs. WroteTrace p d cs \<in> set es \<longrightarrow> sound_trace env c cs" for c
      using es(2) Returns by (auto intro: sound_trace_partial)
    ultimately show ?thesis using fs by (intro exI [of _ "es @ fs"]) auto
  qed (use es in \<open>auto simp: io_bind_def Let_def split_beta\<close>)
qed

lemma writes_soundly_then [sound_writers]:
  "writes_soundly env m \<Longrightarrow> (\<And>x. writes_soundly env (f x)) \<Longrightarrow> writes_soundly env (io_bind m f)"
  by (rule writes_soundly_bind)

section \<open>The operations of the command\<close>

lemma writes_soundly_copy [sound_writers]: "writes_soundly env (copy_source ma p d)"
  unfolding copy_source_def Let_def by (intro sound_writers)

lemma writes_soundly_compile [sound_writers]: "writes_soundly env (compile_solidity ma p)"
  unfolding compile_solidity_def run_process_def by (intro sound_writers)

lemma writes_soundly_node [sound_writers]:
  "writes_soundly env (spawn_node ma)" "writes_soundly env (deploy_contract ma a d)"
  "writes_soundly env (call_contract ma args a c d)"
  unfolding spawn_node_def deploy_contract_def call_contract_def send_transaction_def fetch_struct_logs_def
  by (intro sound_writers)+

text \<open>The recorder as the command runs it.\<close>

lemma writes_soundly_write:
  assumes "order_ok (ma_writer ma)" "df_struct_logs frame \<noteq> []"
  shows "writes_soundly (ma_writer ma) (write_trace ma p d copy sm code contents layout ast registry frame ok)"
proof -
  obtain opened r0 where r0: "initialize_trace (ma_writer ma) d evm_recorder_new = (opened, r0)" by fastforce
  have written: "sound_trace (ma_writer ma) closed (er_calls fin)"
    if "opened" "record_from_structlog (ma_writer ma) (ma_keccak ma) (df_struct_logs frame) sm code [copy] [contents]
          layout ast r0 = Some r"
      and fin: "finalize_trace (ma_writer ma) (surface_revert registry frame ok r) = (closed, fin)" for r closed fin
  proof -
    have "ready (ma_writer ma) r0" using r0 that(1) by (auto intro: initialize_ready)
    from recorded_sound(1) [OF assms(1) this assms(2) that(2)]
    obtain u V where s: "sound (ma_writer ma) u r V" by blast
    have "extends (ma_writer ma) r (surface_revert registry frame ok r)"
      by (simp add: surface_revert_def register_revert_def Let_def extends_emit)
    then have "sound (ma_writer ma) u (surface_revert registry frame ok r) V" using s by (auto intro: sound_extends)
    from sound_finalize [OF this fin] show ?thesis by (simp add: sound_trace_def)
  qed
  show ?thesis
    unfolding writes_soundly_def
  proof
    fix h
    let ?res = "record_from_structlog (ma_writer ma) (ma_keccak ma) (df_struct_logs frame) sm code [copy] [contents]
      layout ast r0"
    show "\<exists>es. snd (write_trace ma p d copy sm code contents layout ast registry frame ok h) = h @ es \<and>
      (\<forall>p' d' cs. WroteTrace p' d' cs \<in> set es \<longrightarrow> sound_trace (ma_writer ma)
        (\<exists>x. fst (write_trace ma p d copy sm code contents layout ast registry frame ok h) = Returns x) cs)"
    proof (cases "opened \<and> ?res \<noteq> None")
      case True
      then obtain r where r: "opened" "?res = Some r" by blast
      obtain closed fin where f: "finalize_trace (ma_writer ma) (surface_revert registry frame ok r) = (closed, fin)"
        by fastforce
      have "write_trace ma p d copy sm code contents layout ast registry frame ok h =
          (if closed then Returns () else Fails (RecorderError ''failed to finalize EvmRecorder''),
           h @ [WroteTrace (to_string_lossy p) d (er_calls fin)])"
        using r f by (simp add: write_trace_def r0 io_bind_def io_of_def perform_def extract_struct_logs_def Let_def)
      with written [OF r f] show ?thesis by (cases closed) simp_all
    next
      case False
      then show ?thesis
        by (auto simp: write_trace_def r0 io_bind_def io_of_def guard_that_def extract_struct_logs_def Let_def
            split: option.split)
    qed
  qed
qed

lemma called_trace: "call_contract ma args a c d h = (Returns (frame, ok), es) \<Longrightarrow> df_struct_logs frame \<noteq> []"
  using call_contract_Returns by blast

lemma writes_soundly_solidity:
  assumes "order_ok (ma_writer ma)"
  shows "writes_soundly (ma_writer ma) (record_solidity ma args p d)"
  unfolding record_solidity_def
  by (intro writes_soundly_bind sound_writers)
    (auto intro!: writes_soundly_bind [OF writes_soundly_copy] writes_soundly_write assms dest: called_trace)

lemma writes_soundly_yul:
  assumes "order_ok (ma_writer ma)"
  shows "writes_soundly (ma_writer ma) (record_yul ma args p d)"
  unfolding record_yul_def
  by (intro writes_soundly_bind sound_writers)
    (auto intro!: writes_soundly_bind [OF writes_soundly_copy] writes_soundly_write assms dest: called_trace)

section \<open>Property\<close>

text \<open>
  C10: every trace file the command writes, for a Solidity or a Yul file and whatever solc and the node
  answer, is well typed and written in the order of the writer's calls, even if the command then
  fails; when the command returns, the file is complete: finished, described and closed.
\<close>

theorem command_writes_sound_traces:
  assumes "order_ok (ma_writer ma)" and "record_command ma args [] = (result, es)"
    and "WroteTrace p d cs \<in> set es"
  shows "well_typed (ma_writer ma) cs \<and> session_of cs \<noteq> None \<and>
    (result = Returns () \<longrightarrow> session_of cs = Some Closed)"
proof -
  have "writes_soundly (ma_writer ma) (record_command ma args)"
    unfolding record_command_def
    by (intro writes_soundly_then writes_soundly_io_of writes_soundly_performs)
      (simp add: sound_writers writes_soundly_yul writes_soundly_solidity assms(1))
  then obtain fs where "es = [] @ fs"
    "WroteTrace p d cs \<in> set fs \<longrightarrow> sound_trace (ma_writer ma) (\<exists>x. result = Returns x) cs"
    unfolding writes_soundly_def using assms(2) by (metis fst_conv snd_conv)
  with assms(3) show ?thesis by (auto simp: sound_trace_def)
qed

theorem command_writes_sound_traces_witness:
  "\<exists>es p d cs. record_command sample_machine sample_args [] = (Returns (), es) \<and>
     WroteTrace p d cs \<in> set es \<and> well_typed example_env cs \<and> session_of cs = Some Closed"
proof -
  have w: "ma_writer sample_machine = example_env" by (simp add: sample_machine_def)
  obtain es p d cs where es: "record_command sample_machine sample_args [] = (Returns (), es)"
    "WroteTrace p d cs \<in> set es"
    using sample_command_writes by blast
  with command_writes_sound_traces [of sample_machine sample_args "Returns ()" es p d cs]
  show ?thesis by (auto simp: w example_order)
qed

end
