(* ===== verification/Source_Fetcher.thy ===== *)
theory Source_Fetcher
  imports Host_Interface Contract_Registry
begin

text \<open>
  \<^verbatim>\<open>src/source_fetcher.rs\<close>: fetching the verified sources of a contract from Sourcify and compiling
  them again. The HTTP client, the file system, solc, serde's decoding of the two document shapes
  and alloy's rendering of an address are parameters.
\<close>

section \<open>Data\<close>

datatype sourcify_match = FullMatch | PartialMatch

record sourcify_source_file =
  sf_name :: string
  sf_path :: string
  sf_content :: string

record sourcify_contract =
  sc_match_status :: sourcify_match
  sc_sources :: "sourcify_source_file list"
  sc_metadata_json :: "string option"

record metadata_settings =
  mt_solc_version :: string
  mt_optimizer_enabled :: bool
  mt_optimizer_runs :: nat
  mt_evm_version :: "string option"

text \<open>The shapes of the documents, as serde decodes them.\<close>

record sourcify_response_file =
  rf_name :: string
  rf_path :: string
  rf_content :: string

record sourcify_response =
  rp_status :: string
  rp_files :: "sourcify_response_file list"

record metadata_optimizer =
  mo_enabled :: "bool option"
  mo_runs :: "nat option"

record metadata_settings_doc =
  md_optimizer :: "metadata_optimizer option"
  md_evm_version :: "string option"

record metadata_doc =
  mc_version :: string
  mc_settings :: "metadata_settings_doc option"

datatype fetch_error =
    ResponseNotJson
  | UnknownStatus string
  | MetadataNotJson
  | GetFailed string
  | HttpStatus nat
  | BodyUnreadable string
  | NoMetadata
  | NoSources
  | NoTempDir
  | CannotCreateEntry string
  | CannotWriteSource string
  | RecompileNotRun string
  | RecompileFailed "byte list" "byte list"
  | RecompileNotUtf8
  | RecompileNotJson
  | NoContractsMap
  | NoContractNamed string
  | EmptyContracts
  | NoRuntime string
  | BadRuntimeHex string
  | EmptyRuntime string
  | NoSourceMap string
  | EmptySourceMap string

section \<open>Parsing\<close>

definition is_source_name :: "string \<Rightarrow> bool" where
  "is_source_name name \<longleftrightarrow> ends_with name ''.sol'' \<or> ends_with name ''.vy''"

fun sort_files ::
  "sourcify_response_file list \<Rightarrow> string option \<Rightarrow> sourcify_source_file list \<Rightarrow>
     string option \<times> sourcify_source_file list"
where
  "sort_files [] metadata sources = (metadata, sources)"
| "sort_files (f # fs) metadata sources =
     (if rf_name f = ''metadata.json'' then sort_files fs (Some (rf_content f)) sources
      else if is_source_name (rf_name f) then
        sort_files fs metadata
          (sources @ [\<lparr>sf_name = rf_name f, sf_path = rf_path f, sf_content = rf_content f\<rparr>])
      else sort_files fs metadata sources)"

definition parse_sourcify_response ::
  "(string \<Rightarrow> sourcify_response option) \<Rightarrow> string \<Rightarrow> (fetch_error, sourcify_contract) outcome"
where
  "parse_sourcify_response from_str body =
     and_then (ok_or ResponseNotJson (from_str body)) (\<lambda>raw.
     and_then (if rp_status raw = ''full'' then Returns FullMatch
               else if rp_status raw = ''partial'' then Returns PartialMatch
               else Fails (UnknownStatus (rp_status raw))) (\<lambda>match_status.
     let (metadata_json, sources) = sort_files (rp_files raw) None [] in
     Returns \<lparr>sc_match_status = match_status, sc_sources = sources, sc_metadata_json = metadata_json\<rparr>))"

definition optimizer_of :: "metadata_optimizer option \<Rightarrow> bool \<times> nat" where
  "optimizer_of optimizer =
     (case optimizer of
        Some opt \<Rightarrow> (case mo_enabled opt of Some b \<Rightarrow> b | None \<Rightarrow> False,
                     case mo_runs opt of Some n \<Rightarrow> n | None \<Rightarrow> 200)
      | None \<Rightarrow> (False, 200))"

definition parse_metadata_settings ::
  "(string \<Rightarrow> metadata_doc option) \<Rightarrow> string \<Rightarrow> (fetch_error, metadata_settings) outcome"
where
  "parse_metadata_settings from_str metadata_json =
     and_then (ok_or MetadataNotJson (from_str metadata_json)) (\<lambda>doc.
     let (enabled, runs, evm_version) =
           (case mc_settings doc of
              Some s \<Rightarrow> (let (enabled, runs) = optimizer_of (md_optimizer s) in (enabled, runs, md_evm_version s))
            | None \<Rightarrow> (False, 200, None)) in
     Returns \<lparr>mt_solc_version = mc_version doc, mt_optimizer_enabled = enabled, mt_optimizer_runs = runs,
              mt_evm_version = evm_version\<rparr>)"

definition semver_prefix :: "string \<Rightarrow> string" where
  "semver_prefix full_version = hd (split_on CHR ''+'' full_version)"

section \<open>Fetching\<close>

definition SOURCIFY_BASE_URL :: string where
  "SOURCIFY_BASE_URL = ''https://sourcify.dev/server''"

definition build_sourcify_url :: "(address \<Rightarrow> string) \<Rightarrow> nat \<Rightarrow> address \<Rightarrow> string" where
  "build_sourcify_url address_text chain_id address =
     SOURCIFY_BASE_URL @ ''/files/any/'' @ show_nat chain_id @ ''/'' @ address_text address"

text \<open>An answer of the server: a status and a body that may be unreadable.\<close>

type_synonym http_reply = "string + (nat \<times> (string + string))"

record sourcify_client =
  cl_get :: "string \<Rightarrow> http_reply"
  cl_address_text :: "address \<Rightarrow> string"
  cl_response_of :: "string \<Rightarrow> sourcify_response option"

definition fetch_sourcify_files ::
  "sourcify_client \<Rightarrow> nat \<Rightarrow> address \<Rightarrow> (fetch_error, sourcify_contract option) outcome"
where
  "fetch_sourcify_files cl chain_id address =
     and_then (map_err GetFailed (cl_get cl (build_sourcify_url (cl_address_text cl) chain_id address)))
       (\<lambda>(status, content).
          if status = 404 then Returns None
          else if \<not> (200 \<le> status \<and> status < 300) then Fails (HttpStatus status)
          else
            and_then (map_err BodyUnreadable content) (\<lambda>body.
            and_then (parse_sourcify_response (cl_response_of cl) body) (\<lambda>c. Returns (Some c))))"

section \<open>Compiling\<close>

text \<open>The file system and solc. What solc answers may depend on the files written.\<close>

record solc_host =
  sh_tempdir :: "string option"
  sh_create_dir_all :: "string \<Rightarrow> bool"
  sh_write :: "string \<Rightarrow> string \<Rightarrow> bool"
  sh_run :: "(string \<times> string) list \<Rightarrow> string \<Rightarrow> string list \<Rightarrow> string + process_output"
  sh_from_str :: "string \<Rightarrow> json option"
  sh_metadata_of :: "string \<Rightarrow> metadata_doc option"
  sh_layout_of :: "json \<Rightarrow> storage_layout option"
  sh_hex_decode :: "string \<Rightarrow> byte list option"
  sh_env :: "string \<Rightarrow> string option"

definition source_target :: "string \<Rightarrow> sourcify_source_file \<Rightarrow> string" where
  "source_target tmp src = path_join tmp (dropWhile (\<lambda>c. c = CHR ''/'') (sf_path src))"

text \<open>\<open>Path::parent\<close> of an absolute path, up to doubled separators.\<close>

definition path_parent :: "string \<Rightarrow> string option" where
  "path_parent p =
     (let cs = path_components p in
      if cs = [] then None else Some (''/'' @ join_with ''/'' (butlast cs)))"

fun write_sources ::
  "solc_host \<Rightarrow> string \<Rightarrow> sourcify_source_file list \<Rightarrow> (fetch_error, (string \<times> string) list) outcome"
where
  "write_sources sh tmp [] = Returns []"
| "write_sources sh tmp (src # srcs) =
     (let dst = source_target tmp src in
      and_then (case path_parent dst of
                  Some parent \<Rightarrow> guard_that (sh_create_dir_all sh parent) (CannotCreateEntry parent)
                | None \<Rightarrow> Returns ()) (\<lambda>_.
      and_then (guard_that (sh_write sh dst (sf_content src)) (CannotWriteSource dst)) (\<lambda>_.
      and_then (write_sources sh tmp srcs) (\<lambda>written. Returns ((dst, sf_content src) # written)))))"

definition solc_args :: "metadata_settings \<Rightarrow> string list \<Rightarrow> string list" where
  "solc_args settings written_paths =
     [''--combined-json'', ''abi,bin,bin-runtime,srcmap-runtime,storage-layout,ast'', ''--no-cbor-metadata''] @
     (if mt_optimizer_enabled settings
      then [''--optimize'', ''--optimize-runs'', show_nat (mt_optimizer_runs settings)] else []) @
     (case mt_evm_version settings of Some evm \<Rightarrow> [''--evm-version'', evm] | None \<Rightarrow> []) @
     written_paths"

definition pick_contract ::
  "(string \<times> json) list \<Rightarrow> string option \<Rightarrow> (fetch_error, string \<times> json) outcome"
where
  "pick_contract contracts preferred_contract_name =
     (case preferred_contract_name of
        Some name \<Rightarrow> ok_or (NoContractNamed name) (List.find (\<lambda>(k, _). ends_with k ('':'' @ name)) contracts)
      | None \<Rightarrow>
          ok_or EmptyContracts
            (case List.find (\<lambda>(_, v). case get_str v ''bin-runtime'' of Some s \<Rightarrow> s \<noteq> [] | None \<Rightarrow> False) contracts of
               Some c \<Rightarrow> Some c
             | None \<Rightarrow> vec_get contracts 0))"

definition layout_field :: "(json \<Rightarrow> storage_layout option) \<Rightarrow> json \<Rightarrow> storage_layout option" where
  "layout_field from_value contract =
     Option.bind
       (Option.bind (json_get contract ''storage-layout'')
          (\<lambda>v. if is_null v then None
               else case as_object v of Some obj \<Rightarrow> if obj = [] then None else Some v | None \<Rightarrow> None))
       from_value"

definition assemble_artifacts ::
  "solc_host \<Rightarrow> sourcify_contract \<Rightarrow> string option \<Rightarrow> string \<Rightarrow> (fetch_error, contract_artifacts) outcome"
where
  "assemble_artifacts sh bundle preferred combined_json_str =
     and_then (ok_or RecompileNotJson (sh_from_str sh combined_json_str)) (\<lambda>combined.
     and_then (ok_or NoContractsMap (Option.bind (json_get combined ''contracts'') as_object)) (\<lambda>contracts.
     and_then (pick_contract contracts preferred) (\<lambda>(key, contract).
     let contract_name = last (split_on CHR '':'' key) in
     and_then (ok_or (NoRuntime key) (get_str contract ''bin-runtime'')) (\<lambda>runtime_hex.
     and_then (ok_or (BadRuntimeHex key) (sh_hex_decode sh runtime_hex)) (\<lambda>runtime_bytecode.
     and_then (guard_that (runtime_bytecode \<noteq> []) (EmptyRuntime key)) (\<lambda>_.
     and_then (ok_or (NoSourceMap key) (get_str contract ''srcmap-runtime'')) (\<lambda>source_map_raw.
     and_then (guard_that (source_map_raw \<noteq> []) (EmptySourceMap key)) (\<lambda>_.
     Returns
       \<lparr>ca_name = contract_name, ca_source_map = source_map_parse source_map_raw,
        ca_runtime_bytecode = runtime_bytecode,
        ca_pc_to_idx = build_pc_to_instruction_index runtime_bytecode,
        ca_source_paths = map sf_path (sc_sources bundle),
        ca_source_contents = map sf_content (sc_sources bundle),
        ca_storage_layout = layout_field (sh_layout_of sh) contract,
        ca_solidity_ast = from_combined_json (sh_from_str sh) combined_json_str\<rparr>))))))))"

definition compile_sourcify_bundle ::
  "solc_host \<Rightarrow> sourcify_contract \<Rightarrow> string \<Rightarrow> string option \<Rightarrow> (fetch_error, contract_artifacts) outcome"
where
  "compile_sourcify_bundle sh bundle solc_cmd preferred =
     and_then (ok_or NoMetadata (sc_metadata_json bundle)) (\<lambda>metadata_json.
     and_then (parse_metadata_settings (sh_metadata_of sh) metadata_json) (\<lambda>settings.
     and_then (guard_that (sc_sources bundle \<noteq> []) NoSources) (\<lambda>_.
     and_then (ok_or NoTempDir (sh_tempdir sh)) (\<lambda>tmp.
     and_then (write_sources sh tmp (sc_sources bundle)) (\<lambda>written.
     and_then (map_err RecompileNotRun (sh_run sh written solc_cmd (solc_args settings (map fst written)))) (\<lambda>output.
     and_then (guard_that (po_success output) (RecompileFailed (po_stdout output) (po_stderr output))) (\<lambda>_.
     and_then (ok_or RecompileNotUtf8 (from_utf8 (po_stdout output))) (\<lambda>combined_json_str.
     assemble_artifacts sh bundle preferred combined_json_str))))))))"

definition fetch_contract_source ::
  "sourcify_client \<Rightarrow> solc_host \<Rightarrow> address \<Rightarrow> nat \<Rightarrow> string option \<Rightarrow>
     (fetch_error, contract_artifacts option) outcome"
where
  "fetch_contract_source cl sh address chain_id preferred =
     and_then (fetch_sourcify_files cl chain_id address) (\<lambda>found.
       case found of
         None \<Rightarrow> Returns None
       | Some bundle \<Rightarrow>
           let solc_cmd = (case sh_env sh ''SOLC_PATH'' of Some p \<Rightarrow> p | None \<Rightarrow> ''solc'') in
           and_then (compile_sourcify_bundle sh bundle solc_cmd preferred) (\<lambda>artifacts. Returns (Some artifacts)))"

section \<open>Lemmas\<close>

lemma sort_files_spec:
  "sort_files fs m srcs =
     (case find_map (\<lambda>f. if rf_name f = ''metadata.json'' then Some (rf_content f) else None) (rev fs) of
        Some c \<Rightarrow> Some c | None \<Rightarrow> m,
      srcs @ map (\<lambda>f. \<lparr>sf_name = rf_name f, sf_path = rf_path f, sf_content = rf_content f\<rparr>)
        (filter (\<lambda>f. is_source_name (rf_name f)) fs))"
proof (induction fs arbitrary: m srcs)
  case Nil
  then show ?case by simp
next
  case (Cons f fs)
  have "\<not> is_source_name ''metadata.json''" by (simp add: is_source_name_def ends_with_def)
  with Cons show ?case by (auto simp: find_map_append split: option.split)
qed

lemma write_sources_Returns:
  "write_sources sh tmp srcs = Returns written \<Longrightarrow> written = map (\<lambda>s. (source_target tmp s, sf_content s)) srcs"
  by (induction srcs arbitrary: written) (auto simp: and_then_Returns Let_def)

lemma compile_Returns:
  assumes "compile_sourcify_bundle sh bundle solc_cmd preferred = Returns a"
  shows "\<exists>settings tmp output doc written. written = map (\<lambda>s. (source_target tmp s, sf_content s)) (sc_sources bundle) \<and>
    parse_metadata_settings (sh_metadata_of sh) (the (sc_metadata_json bundle)) = Returns settings \<and>
    sh_tempdir sh = Some tmp \<and> sh_run sh written solc_cmd (solc_args settings (map fst written)) = Inr output \<and>
    from_utf8 (po_stdout output) = Some doc \<and> assemble_artifacts sh bundle preferred doc = Returns a"
  using assms by (auto simp: compile_sourcify_bundle_def and_then_Returns dest!: write_sources_Returns)

lemma assemble_Returns:
  assumes "assemble_artifacts sh bundle preferred doc = Returns a"
  shows "\<exists>combined contracts key contract hex raw. sh_from_str sh doc = Some combined \<and>
    Option.bind (json_get combined ''contracts'') as_object = Some contracts \<and>
    pick_contract contracts preferred = Returns (key, contract) \<and> get_str contract ''bin-runtime'' = Some hex \<and>
    sh_hex_decode sh hex = Some (ca_runtime_bytecode a) \<and> ca_runtime_bytecode a \<noteq> [] \<and>
    get_str contract ''srcmap-runtime'' = Some raw \<and> raw \<noteq> [] \<and>
    ca_name a = last (split_on CHR '':'' key) \<and> ca_source_map a = source_map_parse raw \<and>
    ca_pc_to_idx a = build_pc_to_instruction_index (ca_runtime_bytecode a) \<and>
    ca_source_paths a = map sf_path (sc_sources bundle) \<and> ca_source_contents a = map sf_content (sc_sources bundle)"
  using assms by (auto simp: assemble_artifacts_def and_then_Returns Let_def)

lemma pick_contract_member:
  "pick_contract contracts preferred = Returns (key, contract) \<Longrightarrow>
     (key, contract) \<in> set contracts \<and> (\<forall>n. preferred = Some n \<longrightarrow> ends_with key ('':'' @ n))"
  by (auto simp: pick_contract_def dest!: find_SomeD split: option.splits) (metis length_greater_0_conv nth_mem)

lemma split_on_general: "split_on d (s @ d # t) = split_on d s @ split_on d t"
  by (induction s) (auto simp: Let_def split: list.split)

lemma last_split_on: "d \<notin> set n \<Longrightarrow> last (split_on d (s @ d # n)) = n"
  by (simp add: split_on_general split_on_no_sep)

lemma components_join:
  assumes "base \<noteq> []" and "\<not> starts_with rel ''/''"
  shows "path_components (path_join base rel) = path_components base @ path_components rel"
proof (cases "last base = CHR ''/''")
  case True
  with assms(1) obtain b where b: "base = b @ ''/''" by (metis append_butlast_last_id)
  have "split_on CHR ''/'' (b @ CHR ''/'' # rel) = split_on CHR ''/'' b @ split_on CHR ''/'' rel"
    "split_on CHR ''/'' (b @ [CHR ''/'']) = split_on CHR ''/'' b @ [[]]"
    using split_on_general [of "CHR ''/''" b "[]"] by (simp_all add: split_on_general)
  with b assms show ?thesis by (simp add: path_join_def path_components_def)
next
  case False
  with assms show ?thesis by (simp add: path_join_def path_components_def split_on_general)
qed

lemma components_drop_slashes: "path_components (dropWhile (\<lambda>c. c = CHR ''/'') p) = path_components p"
  by (induction p) (simp_all add: path_components_def)

lemma target_components:
  assumes "path_components tmp \<noteq> []"
  shows "path_components (source_target tmp src) = path_components tmp @ path_components (sf_path src)"
proof -
  have "tmp \<noteq> []" using assms by (auto simp: path_components_def)
  moreover have "\<not> starts_with (dropWhile (\<lambda>c. c = CHR ''/'') p) ''/''" for p
    by (induction p) (auto simp: starts_with_def)
  ultimately show ?thesis
    unfolding source_target_def by (simp add: components_join components_drop_slashes)
qed

text \<open>Where the file system finds a path: a double dot leads to the directory above.\<close>

fun resolve_dots :: "string list \<Rightarrow> string list \<Rightarrow> string list" where
  "resolve_dots acc [] = acc"
| "resolve_dots acc (c # cs) = (if c = ''..'' then resolve_dots (butlast acc) cs else resolve_dots (acc @ [c]) cs)"

definition inside :: "string \<Rightarrow> string \<Rightarrow> bool" where
  "inside dir p \<longleftrightarrow> Sublist.prefix (path_components dir) (resolve_dots [] (path_components p))"

lemma resolve_plain: "''..'' \<notin> set cs \<Longrightarrow> resolve_dots acc (cs @ ds) = resolve_dots (acc @ cs) ds"
  by (induction cs arbitrary: acc) auto

lemma resolve_up: "resolve_dots acc (replicate k ''..'' @ cs) = resolve_dots (take (length acc - k) acc) cs"
proof (induction k arbitrary: acc)
  case 0
  then show ?case by simp
next
  case (Suc k)
  then show ?case by (simp add: butlast_conv_take min_def)
qed

text \<open>The argument after a flag.\<close>

fun arg_after :: "string \<Rightarrow> string list \<Rightarrow> string option" where
  "arg_after flag [] = None"
| "arg_after flag (x # xs) = (if x = flag then vec_get xs 0 else arg_after flag xs)"

lemma arg_after_none: "flag \<notin> set xs \<Longrightarrow> arg_after flag xs = None"
  by (induction xs) auto

lemma show_nat_not_flag: "show_nat n \<noteq> CHR ''-'' # s"
  using show_nat_avoids [of "CHR ''-''" n] by (auto simp: digit_val_def)

section \<open>Properties\<close>

text \<open>
  A response is accepted exactly if it decodes and its status is full or partial; the sources
  are then all its Solidity and Vyper files in their order, with their paths and contents, and the
  metadata is that of the last file named so.
\<close>

theorem sourcify_response_parsed:
  "parse_sourcify_response from_str body = Returns c \<longleftrightarrow>
     (\<exists>raw. from_str body = Some raw \<and>
        rp_status raw = (case sc_match_status c of FullMatch \<Rightarrow> ''full'' | PartialMatch \<Rightarrow> ''partial'') \<and>
        sc_sources c = map (\<lambda>f. \<lparr>sf_name = rf_name f, sf_path = rf_path f, sf_content = rf_content f\<rparr>)
          (filter (\<lambda>f. is_source_name (rf_name f)) (rp_files raw)) \<and>
        sc_metadata_json c = find_map (\<lambda>f. if rf_name f = ''metadata.json'' then Some (rf_content f) else None)
          (rev (rp_files raw)))"
proof -
  have opt: "(case x of None \<Rightarrow> None | Some y \<Rightarrow> Some y) = x" for x :: "string option" by (cases x) simp_all
  show ?thesis
  proof (cases "from_str body")
    case None
    then show ?thesis by (simp add: parse_sourcify_response_def)
  next
    case (Some raw)
    show ?thesis
      by (cases c; cases "sc_match_status c")
        (auto simp: parse_sourcify_response_def Some sort_files_spec opt)
  qed
qed

text \<open>
  C33: artifacts are only assembled when they can serve the recorder: the code is not empty, every
  byte of it has an instruction number, the source map is that of solc for the contract asked for,
  and the artifacts bear its name. The sources are those of the bundle, in the order of the bundle:
  the order in which solc numbers the files, which the source map refers to, is not consulted.
\<close>

theorem artifacts_of_bundle:
  assumes "compile_sourcify_bundle sh bundle solc_cmd preferred = Returns a"
  shows "ca_runtime_bytecode a \<noteq> [] \<and>
    length (ca_pc_to_idx a) = length (ca_runtime_bytecode a) \<and>
    ca_pc_to_idx a = number_instrs 0 (disassemble (ca_runtime_bytecode a)) \<and>
    (\<exists>doc combined contracts key contract raw. sh_from_str sh doc = Some combined \<and>
       Option.bind (json_get combined ''contracts'') as_object = Some contracts \<and>
       (key, contract) \<in> set contracts \<and> get_str contract ''srcmap-runtime'' = Some raw \<and>
       ca_source_map a = source_map_parse raw \<and>
       (\<forall>n. preferred = Some n \<and> CHR '':'' \<notin> set n \<longrightarrow> ends_with key ('':'' @ n) \<and> ca_name a = n)) \<and>
    zip (ca_source_paths a) (ca_source_contents a) = map (\<lambda>s. (sf_path s, sf_content s)) (sc_sources bundle)"
proof -
  from compile_Returns [OF assms] obtain doc where doc: "assemble_artifacts sh bundle preferred doc = Returns a" by blast
  from assemble_Returns [OF this] obtain combined contracts key contract raw where k:
    "sh_from_str sh doc = Some combined" "Option.bind (json_get combined ''contracts'') as_object = Some contracts"
    "pick_contract contracts preferred = Returns (key, contract)" "get_str contract ''srcmap-runtime'' = Some raw"
    "ca_name a = last (split_on CHR '':'' key)" "ca_source_map a = source_map_parse raw" "ca_runtime_bytecode a \<noteq> []"
    and table: "ca_pc_to_idx a = build_pc_to_instruction_index (ca_runtime_bytecode a)"
    and src: "ca_source_paths a = map sf_path (sc_sources bundle)" "ca_source_contents a = map sf_content (sc_sources bundle)"
    by blast
  note mem = pick_contract_member [OF k(3)]
  have name: "ends_with key ('':'' @ n) \<and> ca_name a = n" if "preferred = Some n \<and> CHR '':'' \<notin> set n" for n
  proof -
    from mem that have e: "ends_with key ('':'' @ n)" by blast
    then obtain s where "key = s @ CHR '':'' # n"
      by (metis append_Cons append_Nil append_take_drop_id ends_with_def)
    with e that k(5) show ?thesis by (simp add: last_split_on)
  qed
  have "ca_pc_to_idx a = number_instrs 0 (disassemble (ca_runtime_bytecode a))"
    unfolding table by (simp add: build_pc_to_instruction_index_def pc_to_idx_loop_correct)
  moreover have "zip (ca_source_paths a) (ca_source_contents a) = map (\<lambda>s. (sf_path s, sf_content s)) (sc_sources bundle)"
    unfolding src by (simp add: zip_map_map zip_same_conv_map)
  moreover have "\<exists>doc combined contracts key contract raw. sh_from_str sh doc = Some combined \<and>
       Option.bind (json_get combined ''contracts'') as_object = Some contracts \<and>
       (key, contract) \<in> set contracts \<and> get_str contract ''srcmap-runtime'' = Some raw \<and>
       ca_source_map a = source_map_parse raw \<and>
       (\<forall>n. preferred = Some n \<and> CHR '':'' \<notin> set n \<longrightarrow> ends_with key ('':'' @ n) \<and> ca_name a = n)"
    by (intro exI conjI allI impI, rule k(1), rule k(2), rule mem [THEN conjunct1], rule k(4), rule k(6))
      (use name in \<open>blast+\<close>)
  ultimately show ?thesis
    using k(7) by (simp add: concat_disassemble)
qed

text \<open>
  C35: where a source file is written. Its path is taken from the response; if it starts with \<open>k\<close>
  double dots and has none after them, the file is written \<open>k\<close> directories above the temporary
  directory (or below the root, if there are fewer), under the rest of the path. It is inside the
  temporary directory exactly if that rest leads back into it: always if there is no double dot,
  and for a path that goes up only if it names again the directories it left.
\<close>

theorem source_target_location:
  assumes "path_components tmp = ds" and "ds \<noteq> []" and "''..'' \<notin> set ds"
    and "path_components (sf_path src) = replicate k ''..'' @ cs" and "''..'' \<notin> set cs"
  shows "resolve_dots [] (path_components (source_target tmp src)) = take (length ds - k) ds @ cs \<and>
    (inside tmp (source_target tmp src) \<longleftrightarrow> Sublist.prefix (drop (length ds - k) ds) cs)"
proof -
  have "path_components (source_target tmp src) = ds @ replicate k ''..'' @ cs"
    using target_components [of tmp src] assms by simp
  then have res: "resolve_dots [] (path_components (source_target tmp src)) = take (length ds - k) ds @ cs"
    using resolve_plain [OF assms(3), of "[]"] resolve_plain [OF assms(5), of _ "[]"]
    by (simp add: resolve_up)
  have "Sublist.prefix (take (length ds - k) ds @ drop (length ds - k) ds) (take (length ds - k) ds @ cs)
      \<longleftrightarrow> Sublist.prefix (drop (length ds - k) ds) cs" by (rule same_prefix_prefix)
  with res assms(1) show ?thesis by (simp add: inside_def)
qed


text \<open>
  A contract is reported as not verified exactly if the server answers the request for it with
  status 404; every other failure, from the request to the compilation, is an error.
\<close>

theorem unverified_exactly_on_404:
  "fetch_contract_source cl sh address chain_id preferred = Returns None \<longleftrightarrow>
     (\<exists>content. cl_get cl (build_sourcify_url (cl_address_text cl) chain_id address) = Inr (404, content))"
proof (cases "cl_get cl (build_sourcify_url (cl_address_text cl) chain_id address)")
  case (Inl e)
  then show ?thesis by (simp add: fetch_contract_source_def fetch_sourcify_files_def)
next
  case (Inr reply)
  obtain status content where reply: "reply = (status, content)" by fastforce
  have "fetch_sourcify_files cl chain_id address = Returns None \<longleftrightarrow> status = 404"
    unfolding fetch_sourcify_files_def Inr reply by (simp add: and_then_Returns)
  moreover have "fetch_contract_source cl sh address chain_id preferred = Returns None \<longleftrightarrow>
      fetch_sourcify_files cl chain_id address = Returns None"
    unfolding fetch_contract_source_def Let_def
    by (cases "fetch_sourcify_files cl chain_id address") (auto simp: and_then_Returns split: option.split)
  ultimately show ?thesis unfolding Inr reply by auto
qed

section \<open>Witnesses\<close>

definition sample_bundle :: sourcify_contract where
  "sample_bundle = \<lparr>sc_match_status = FullMatch,
     sc_sources = [\<lparr>sf_name = ''C.sol'', sf_path = ''/sources/C.sol'', sf_content = ''contract C {}''\<rparr>],
     sc_metadata_json = Some []\<rparr>"

definition sample_solc :: solc_host where
  "sample_solc = \<lparr>sh_tempdir = Some ''/tmp/t'', sh_create_dir_all = (\<lambda>_. True), sh_write = (\<lambda>_ _. True),
     sh_run = (\<lambda>_ _ _. Inr \<lparr>po_success = True, po_stdout = [], po_stderr = []\<rparr>),
     sh_from_str = (\<lambda>_. Some (JObj [(''contracts'', JObj [(''C.sol:C'', JObj [(''bin-runtime'', JStr ''6001''),
        (''srcmap-runtime'', JStr ''0:1:0'')])])])),
     sh_metadata_of = (\<lambda>_. Some \<lparr>mc_version = ''0.8.28'', mc_settings = Some \<lparr>md_optimizer =
        Some \<lparr>mo_enabled = Some True, mo_runs = None\<rparr>, md_evm_version = Some ''cancun''\<rparr>\<rparr>),
     sh_layout_of = (\<lambda>_. None), sh_hex_decode = (\<lambda>_. Some [0x60, 1]), sh_env = (\<lambda>_. None)\<rparr>"

lemma sample_settings:
  "parse_metadata_settings (sh_metadata_of sample_solc) (the (sc_metadata_json sample_bundle)) =
     Returns \<lparr>mt_solc_version = ''0.8.28'', mt_optimizer_enabled = True, mt_optimizer_runs = 200,
              mt_evm_version = Some ''cancun''\<rparr>"
  by (simp add: parse_metadata_settings_def optimizer_of_def sample_solc_def)

lemma sample_compiles: "\<exists>a. compile_sourcify_bundle sample_solc sample_bundle ''solc'' (Some ''C'') = Returns a"
proof -
  have "\<exists>a. assemble_artifacts sample_solc sample_bundle (Some ''C'') [] = Returns a"
    by (simp add: assemble_artifacts_def sample_solc_def json_access as_object_def pick_contract_def ends_with_def Let_def)
  moreover have "\<exists>w. write_sources sample_solc ''/tmp/t'' (sc_sources sample_bundle) = Returns w"
    by (simp add: sample_bundle_def and_then_Returns Let_def split: option.split) (simp add: sample_solc_def)
  moreover have "sh_tempdir sample_solc = Some ''/tmp/t''" "sc_sources sample_bundle \<noteq> []"
    "sc_metadata_json sample_bundle = Some []"
    "sh_run sample_solc w c args = Inr \<lparr>po_success = True, po_stdout = [], po_stderr = []\<rparr>" for w c args
    by (simp_all add: sample_solc_def sample_bundle_def)
  ultimately show ?thesis
    using sample_settings
    by (auto simp: compile_sourcify_bundle_def and_then_Returns from_utf8_def text_of_bytes_def)
qed

lemma artifacts_of_bundle_witness:
  "\<exists>a. compile_sourcify_bundle sample_solc sample_bundle ''solc'' (Some ''C'') = Returns a \<and>
     ca_runtime_bytecode a \<noteq> [] \<and> length (ca_pc_to_idx a) = length (ca_runtime_bytecode a)"
  using sample_compiles artifacts_of_bundle [of sample_solc sample_bundle "''solc''" "Some ''C''"] by metis

lemma source_target_location_witness:
  "inside ''/tmp/t'' (source_target ''/tmp/t'' \<lparr>sf_name = ''C.sol'', sf_path = ''/a/C.sol'', sf_content = []\<rparr>) \<and>
   \<not> inside ''/tmp/t'' (source_target ''/tmp/t'' \<lparr>sf_name = ''C.sol'', sf_path = ''/../C.sol'', sf_content = []\<rparr>) \<and>
   inside ''/tmp/t'' (source_target ''/tmp/t'' \<lparr>sf_name = ''C.sol'', sf_path = ''../t/C.sol'', sf_content = []\<rparr>)"
proof -
  have tmp: "path_components ''/tmp/t'' = [''tmp'', ''t'']" by (simp add: path_components_def)
  let ?at = "\<lambda>p. \<lparr>sf_name = ''C.sol'', sf_path = p, sf_content = []\<rparr>"
  from source_target_location [OF tmp, of "?at ''/a/C.sol''" 0 "[''a'', ''C.sol'']"]
    source_target_location [OF tmp, of "?at ''/../C.sol''" 1 "[''C.sol'']"]
    source_target_location [OF tmp, of "?at ''../t/C.sol''" 1 "[''t'', ''C.sol'']"]
  show ?thesis by (simp add: path_components_def)
qed

text \<open>A solc that only runs with the arguments it expects, and the metadata it is given for.\<close>

definition picky_solc :: "(string list \<Rightarrow> bool) \<Rightarrow> bool \<Rightarrow> string option \<Rightarrow> solc_host" where
  "picky_solc expected enabled evm = sample_solc\<lparr>
     sh_run := (\<lambda>_ _ args. if expected args then Inr \<lparr>po_success = True, po_stdout = [], po_stderr = []\<rparr>
                            else Inl ''unexpected arguments''),
     sh_metadata_of := (\<lambda>_. Some \<lparr>mc_version = ''0.8.28'', mc_settings = Some \<lparr>md_optimizer =
        Some \<lparr>mo_enabled = Some enabled, mo_runs = Some 200\<rparr>, md_evm_version = evm\<rparr>\<rparr>)\<rparr>"

lemma picky_settings:
  "parse_metadata_settings (sh_metadata_of (picky_solc expected enabled evm)) (the (sc_metadata_json sample_bundle)) =
     Returns \<lparr>mt_solc_version = ''0.8.28'', mt_optimizer_enabled = enabled, mt_optimizer_runs = 200,
              mt_evm_version = evm\<rparr>"
  by (simp add: parse_metadata_settings_def optimizer_of_def picky_solc_def)

lemma picky_compiles:
  assumes "expected (solc_args \<lparr>mt_solc_version = ''0.8.28'', mt_optimizer_enabled = enabled,
      mt_optimizer_runs = 200, mt_evm_version = evm\<rparr> [''/tmp/t/sources/C.sol''])"
  shows "\<exists>a. compile_sourcify_bundle (picky_solc expected enabled evm) sample_bundle ''solc'' (Some ''C'') = Returns a"
proof -
  let ?sh = "picky_solc expected enabled evm"
  have "\<exists>a. assemble_artifacts ?sh sample_bundle (Some ''C'') [] = Returns a"
    by (simp add: assemble_artifacts_def picky_solc_def sample_solc_def json_access as_object_def pick_contract_def
        ends_with_def Let_def)
  moreover have "write_sources ?sh ''/tmp/t'' (sc_sources sample_bundle)
      = Returns [(''/tmp/t/sources/C.sol'', ''contract C {}'')]"
    by (simp add: sample_bundle_def and_then_Returns Let_def source_target_def path_join_def starts_with_def
        split: option.split) (simp add: picky_solc_def sample_solc_def)
  moreover have "sh_tempdir ?sh = Some ''/tmp/t''" "sc_sources sample_bundle \<noteq> []"
    "sc_metadata_json sample_bundle = Some []"
    by (simp_all add: picky_solc_def sample_solc_def sample_bundle_def)
  moreover have "sh_run ?sh w c (solc_args \<lparr>mt_solc_version = ''0.8.28'', mt_optimizer_enabled = enabled,
      mt_optimizer_runs = 200, mt_evm_version = evm\<rparr> [''/tmp/t/sources/C.sol''])
        = Inr \<lparr>po_success = True, po_stdout = [], po_stderr = []\<rparr>" for w c
    using assms by (simp add: picky_solc_def)
  ultimately show ?thesis
    using picky_settings [of expected enabled evm]
    by (auto simp: compile_sourcify_bundle_def and_then_Returns from_utf8_def text_of_bytes_def)
qed

definition optimized_args :: "string list" where
  "optimized_args = [''--combined-json'', ''abi,bin,bin-runtime,srcmap-runtime,storage-layout,ast'',
     ''--no-cbor-metadata'', ''--optimize'', ''--optimize-runs'', ''200'', ''--evm-version'', ''cancun'',
     ''/tmp/t/sources/C.sol'']"

definition plain_args :: "string list" where
  "plain_args = [''--combined-json'', ''abi,bin,bin-runtime,srcmap-runtime,storage-layout,ast'',
     ''--no-cbor-metadata'', ''/tmp/t/sources/C.sol'']"

definition optimized_solc :: solc_host where
  "optimized_solc = picky_solc (\<lambda>args. args = optimized_args) True (Some ''cancun'')"

definition plain_solc :: solc_host where
  "plain_solc = picky_solc (\<lambda>args. args = plain_args) False None"


lemma semver_prefix_cut: "CHR ''+'' \<notin> set v \<Longrightarrow> semver_prefix (v @ CHR ''+'' # rest) = v"
  by (simp add: semver_prefix_def split_on_append)

end
