(* ===== verification/Spec2Isabelle.thy ===== *)
theory Spec2Isabelle
  imports Source_Map Solidity_Ast Call_Tree Stack_Tracker Memory_Tracker Contract_Registry
  Revert_Decode Recorder_Properties Recorder_Types Recorder_Steps Replay Trace_Files Source_Fetcher
begin

text \<open>
  A model of the CodeTracer EVM recorder (the Rust crate under \<^verbatim>\<open>src/\<close>), which turns
  the execution trace of an Ethereum transaction into a source level trace: steps with file, line
  and column, the values of Solidity locals and storage variables, calls and returns, events and
  revert reasons.

  \<^bold>\<open>Parts and theories.\<close> The code reads two inputs of solc, the compressed source map
  (\<^verbatim>\<open>source_map.rs\<close>, theory Source_Map) and the AST
  (\<^verbatim>\<open>solidity_ast.rs\<close>, theories Json_Value and Solidity_Ast), and the storage layout
  (\<^verbatim>\<open>storage_layout.rs\<close>, theory Storage_Layout). Artifacts are kept by address in the
  registry (\<^verbatim>\<open>contract_registry.rs\<close>, theory Contract_Registry). While the trace is
  read, a symbolic stack names the words of the EVM stack (\<^verbatim>\<open>stack_tracker.rs\<close>, theory
  Stack_Tracker), a second tracker names regions of memory (\<^verbatim>\<open>memory_tracker.rs\<close>,
  theory Memory_Tracker), the call tree records the frames (\<^verbatim>\<open>call_tree.rs\<close>, theory
  Call_Tree) and return data of reverted calls is decoded (\<^verbatim>\<open>revert_decode.rs\<close>, theory
  Revert_Decode). The recorder itself (\<^verbatim>\<open>recorder.rs\<close>) drives all of them: its free
  functions are theory Recorder_Helpers, the loop of \<open>record_from_structlog\<close> theory Recorder,
  what its blocks promise theory Recorder_Properties. The loop over several contracts,
  \<open>record_from_structlog_multi_contract\<close>, is theory Recorder_Multi; theory Recorder_Steps shows which
  steps, calls and returns it writes and that it agrees with the loop over one contract, theory
  Recorder_Types what both loops promise of the types of the values they write and of the order in
  which they call the writer. The writer they call
  is external: theory Trace_Writer models it as the log of the calls made, with the answers of the
  calls that may fail (opening, finishing, describing and closing the trace) as a function of the log.

  Around the recorder, the command line (\<^verbatim>\<open>main.rs\<close>, \<^verbatim>\<open>trace_fetcher.rs\<close>; theory
  Cli_Calldata for the helpers, theory Cli for the command) compiles a file, deploys and calls the
  contract, and records the call (theory Trace_Files: the files it writes are sound); for a pure Yul file the source map comes from solc's assembly
  document (\<^verbatim>\<open>yul_compile.rs\<close>, theory Yul_Compile). Verified sources of a deployed contract
  are fetched and compiled again by \<^verbatim>\<open>source_fetcher.rs\<close> (theory Source_Fetcher), which
  produces the artifacts of the registry. A mined transaction is executed again by
  \<^verbatim>\<open>replay.rs\<close> (theory Replay) under the inspector of \<^verbatim>\<open>inspector.rs\<close> (theory
  Inspector). What these parts share, outcomes, paths, text and documents, is theory Host_Interface.

  \<^bold>\<open>Correspondence.\<close> A definition has the name of the function it translates; a block of a
  long function body has a name of its own and a comment. Structs are records with a two or three
  letter prefix, enums datatypes, \<open>&mut self\<close> is a state passed in and returned, \<open>Option\<close> and early
  returns are \<open>option\<close>. A \<open>u64\<close> or \<open>u256\<close> whose wrap-around matters is a word; a \<open>usize\<close> or \<open>u64\<close>
  counter that is only compared is a \<open>nat\<close>, with the saturating and wrapping operations of the
  code written out (release build: overflow wraps); an \<open>i32\<close> is an \<open>int\<close> with \<open>wrap_i32\<close> where the
  code adds. The nesting counter of absorbed calls is an unbounded \<open>int\<close>: it moves by one per trace
  entry. Strings are lists of characters standing for bytes; memory words of the trace are taken
  to be ASCII, as the format requires. Indexing that panics in Rust is \<open>None\<close> of the enclosing
  operation.

  \<^bold>\<open>Parameters.\<close> keccak256, the identifiers handed out by the trace writer and the order in
  which a \<open>HashMap\<close> is traversed are arguments of the definitions. So are, in the outer parts, the
  file system, the environment, solc, the node, revm, the HTTP server, the decoders serde derives,
  hexadecimal decoding and alloy's parsers: fields of the records \<open>machine\<close>, \<open>revm\<close>, \<open>rpc_node\<close>,
  \<open>sourcify_client\<close> and \<open>solc_host\<close>. What the command does to its machine is a log of effects, and
  the answers of the node are functions of that log.

  \<^bold>\<open>Interfaces.\<close> \<open>frame_stack\<close> and its weaker form \<open>call_depth\<close> (theory Frame_Stack) are the
  contract of everything that follows the EVM call depth; \<open>keyed_store\<close> (theory Keyed_Store) is the
  contract of the tables. They are interpreted on the call tree, the registry, the recorded hash
  tables and the carried storage variables.

  \<^bold>\<open>Lemmas.\<close> Source_Map and Solidity_Ast: parsing against printing, the instruction numbering
  against a disassembly, what the AST lookups return. Stack_Tracker and Memory_Tracker: the
  tracker against the concrete machine, where reported values come from. Call_Tree: the tree
  against the list of calls that were made. Storage_Layout: which name a slot gets. Revert_Decode:
  decoding against the ABI encoding. Recorder: which steps, calls and returns a trace produces.
  Recorder_Multi: the frames against the depths of the trace, the tables of the callers.
  Recorder_Steps: the trace cut into runs at one depth, each stepped through the artifacts of the
  frame executing it. This theory: a contract whose verified sources were fetched is recorded from
  them. Replay and
  Inspector: the recorded execution is that of the target on the state the block gave it. Cli: the
  order of the effects, freedom from panics on a sane environment (the panics of \<open>Anvil::spawn\<close>, of a
  node without accounts and of a path that is not UTF-8 are modelled), and the trace file against the answers of the node.
  Cli_Calldata: the default call data against the types of the ABI.
  Source_Fetcher: where files are written, with which settings they are compiled, and what the
  artifacts are made of.

  \<^bold>\<open>Termination.\<close> Every definition is total. Loops over a vector are structural recursion;
  those that are not (the program counter loop of Source_Map, the traversal of JSON documents, the
  decoding of UTF-8) have measures. The program counter loop is also run as a program with
  \<open>while_option\<close>, where its termination is a theorem. No fuel is used.

  \<^bold>\<open>Not modelled.\<close> Messages on standard error, the parsing of the command line by clap, the
  decoders serde derives (\<open>StorageLayout::from_json\<close> among them), the background threads of the
  forked database, and what the trace writer does to its files: they are input and output or
  third-party code. Of the source files only their unit tests, documentation and imports, and the
  declarations of the command line parser, translate to no definition. Paths are Unix paths and whitespace is that of ASCII.
\<close>

section \<open>Recording a verified contract\<close>

lemma fetched_artifacts:
  assumes "fetch_contract_source cl sh a chain_id preferred = Returns (Some artifacts)"
  shows "\<exists>found. fetch_sourcify_files cl chain_id a = Returns (Some found) \<and> sc_sources found \<noteq> [] \<and>
    ca_pc_to_idx artifacts = build_pc_to_instruction_index (ca_runtime_bytecode artifacts) \<and>
    ca_source_paths artifacts = map sf_path (sc_sources found)"
proof -
  obtain found cmd where b: "fetch_sourcify_files cl chain_id a = Returns (Some found)"
    "compile_sourcify_bundle sh found cmd preferred = Returns artifacts"
    using assms by (auto simp: fetch_contract_source_def and_then_Returns Let_def split: option.splits)
  from compile_Returns [OF b(2)] obtain doc where
    "assemble_artifacts sh found preferred doc = Returns artifacts" by blast
  from assemble_Returns [OF this] b show ?thesis
    by (auto simp: compile_sourcify_bundle_def and_then_Returns)
qed

lemma step_path_given:
  assumes "recorder_input env k logs sm code paths contents layout ast r = (inp, r1)" "paths \<noteq> []"
  shows "fst (step_at inp q) \<in> set paths"
proof -
  obtain p ps where paths: "paths = p # ps" using assms(2) by (cases paths) auto
  have "ri_source_paths inp = paths" "ri_main_path inp = p"
    using assms(1) by (auto simp: recorder_input_def open_trace_def paths Let_def split: prod.splits)
  moreover have "path_at paths p fi \<in> set paths" for fi
    using nth_mem [of "usize_of_i32 fi" paths] by (auto simp: path_at_def vec_get_def paths split: option.split)
  ultimately show ?thesis by (simp add: step_at_def split_beta)
qed

text \<open>
  C9: a contract whose verified sources could be fetched and compiled is recorded with them. For a
  nonempty trace that makes no external call (every entry at depth one), the loop over several
  contracts, with the artifacts registered for its address, writes the steps the loop over one
  contract writes from those artifacts, and every one of them lies in a file of the verified bundle.
\<close>

theorem verified_contract_recorded:
  assumes "fetch_contract_source cl sh a chain_id preferred = Returns (Some artifacts)"
    and "\<forall>lg\<in>set logs. log_depth lg = 1" and "logs \<noteq> []"
  shows "\<exists>found t r1 r2 steps. fetch_sourcify_files cl chain_id a = Returns (Some found) \<and>
    record_from_structlog_multi_contract env k logs (register a artifacts registry) a r = Some (t, r1) \<and>
    record_from_structlog env k logs (ca_source_map artifacts) (ca_runtime_bytecode artifacts)
      (ca_source_paths artifacts) (ca_source_contents artifacts) layout ast r = Some r2 \<and>
    steps_of r1 = steps_of r @ steps \<and> steps_of r2 = steps_of r @ steps \<and>
    (\<forall>(path, _)\<in>set steps. path \<in> sf_path ` set (sc_sources found))"
proof -
  obtain inp r0 where inp: "recorder_input env k logs (ca_source_map artifacts) (ca_runtime_bytecode artifacts)
      (ca_source_paths artifacts) (ca_source_contents artifacts) layout ast r = (inp, r0)" by fastforce
  obtain found where b: "fetch_sourcify_files cl chain_id a = Returns (Some found)" "sc_sources found \<noteq> []"
    "ca_pc_to_idx artifacts = build_pc_to_instruction_index (ca_runtime_bytecode artifacts)"
    "ca_source_paths artifacts = map sf_path (sc_sources found)"
    using fetched_artifacts [OF assms(1)] by blast
  define steps where "steps = map (step_at inp) (remdups_adj (places inp logs))"
  have "registry_get (register a artifacts registry) a = Some artifacts"
    by (simp add: registry_get_def registry.lookup_update)
  from level_steps [OF assms(2) this b(3) assms(3) inp] obtain t r1 where multi:
    "record_from_structlog_multi_contract env k logs (register a artifacts registry) a r = Some (t, r1)"
    "steps_of r1 = steps_of r @ steps" unfolding steps_def by blast
  have "\<forall>lg\<in>set logs. 1 \<le> log_depth lg" using assms(2) by simp
  from single_steps [OF this assms(3) inp] obtain r2 where single:
    "record_from_structlog env k logs (ca_source_map artifacts) (ca_runtime_bytecode artifacts)
      (ca_source_paths artifacts) (ca_source_contents artifacts) layout ast r = Some r2"
    "steps_of r2 = steps_of r @ steps" unfolding steps_def by blast
  have "\<forall>(path, _)\<in>set steps. path \<in> sf_path ` set (sc_sources found)"
    using step_path_given [OF inp] b(2) by (auto simp: steps_def b(4))
      (metis (no_types, lifting) fst_conv)
  with multi single b(1) show ?thesis by blast
qed

text \<open>An example: the sample bundle, served for every address.\<close>

definition sample_client :: sourcify_client where
  "sample_client = \<lparr>cl_get = (\<lambda>_. Inr (200, Inr [])), cl_address_text = (\<lambda>_. ''0x01''),
     cl_response_of = (\<lambda>_. Some \<lparr>rp_status = ''full'', rp_files =
        [\<lparr>rf_name = ''metadata.json'', rf_path = [], rf_content = []\<rparr>,
         \<lparr>rf_name = ''C.sol'', rf_path = ''/sources/C.sol'', rf_content = ''contract C {}''\<rparr>]\<rparr>)\<rparr>"

lemma sample_served: "fetch_sourcify_files sample_client n a = Returns (Some sample_bundle)"
  by (simp add: fetch_sourcify_files_def sample_client_def sample_bundle_def parse_sourcify_response_def
      is_source_name_def ends_with_def Let_def)

lemma sample_no_path: "sh_env sample_solc ''SOLC_PATH'' = None"
  by (simp add: sample_solc_def)

theorem verified_contract_recorded_witness:
  "\<exists>artifacts t r1. fetch_contract_source sample_client sample_solc 7 1 (Some ''C'') = Returns (Some artifacts) \<and>
     record_from_structlog_multi_contract example_env (\<lambda>_. []) [example_log 0 1] (register 7 artifacts registry_new) 7
       evm_recorder_new = Some (t, r1) \<and>
     (\<forall>(path, _)\<in>set (steps_of r1). path = ''/sources/C.sol'')"
proof -
  obtain artifacts where "compile_sourcify_bundle sample_solc sample_bundle ''solc'' (Some ''C'') = Returns artifacts"
    using sample_compiles by blast
  then have f: "fetch_contract_source sample_client sample_solc 7 1 (Some ''C'') = Returns (Some artifacts)"
    using sample_no_path by (simp add: fetch_contract_source_def sample_served)
  have "sf_path ` set (sc_sources sample_bundle) = {''/sources/C.sol''}" by (simp add: sample_bundle_def)
  moreover have "\<forall>lg\<in>set [example_log 0 1]. log_depth lg = 1" "[example_log 0 1] \<noteq> []"
    by (simp_all add: example_log_def)
  moreover have "steps_of evm_recorder_new = []" by (simp add: steps_of_def evm_recorder_new_def)
  ultimately show ?thesis
    using verified_contract_recorded [OF f, of "[example_log 0 1]" example_env "\<lambda>_. []" registry_new evm_recorder_new
        None None] f
    by (fastforce simp: sample_served)
qed

end
